(* ===== verification/Prelude.thy ===== *)
theory Prelude
  imports Main "HOL-Library.Word" "HOL-Library.DAList" "HOL-Library.Monad_Syntax"
begin

text \<open>
  What every component shares: the machine integers of the Rust sources and their checked
  arithmetic, the concurrent hash map (\<open>DashMap\<close>) as an association list with unique keys,
  the iterator \<open>min_by_key\<close>, and the sum-valued sequencing of the on-chain program.

  A Rust panic is the value \<open>None\<close> of an option: the workspace's release profile sets
  \<open>overflow-checks = true\<close> and \<open>panic = "abort"\<close> (\<open>Cargo.toml\<close>), so an
  overflowing \<open>+\<close>, \<open>-\<close> or \<open>*\<close> ends the process instead of wrapping. Operations on
  atomics (\<open>fetch_add\<close>) are not covered by that switch and do wrap: they are plain word
  addition.
\<close>

unbundle bit_operations_syntax

type_synonym u8 = "8 word"
type_synonym u16 = "16 word"
type_synonym u32 = "32 word"
type_synonym u64 = "64 word"
type_synonym usize = "64 word"
type_synonym i32 = "32 word"
type_synonym i64 = "64 word"

named_theorems word_nat \<open>comparison of words read on the natural numbers\<close>

declare word_less_nat_alt [word_nat]
declare word_le_nat_alt [word_nat]
declare word_unat_eq_iff [word_nat]

section \<open>Checked arithmetic\<close>

text \<open>\<open>checked_add\<close> is Rust's method of that name and, read as a run, the operator
  \<open>+\<close> under overflow checks.\<close>

definition checked_add :: "'a::len word \<Rightarrow> 'a word \<Rightarrow> 'a word option" where
  "checked_add a b = (if unat a + unat b < 2 ^ LENGTH('a) then Some (a + b) else None)"

definition checked_sub :: "'a::len word \<Rightarrow> 'a word \<Rightarrow> 'a word option" where
  "checked_sub a b = (if b \<le> a then Some (a - b) else None)"

definition checked_mul :: "'a::len word \<Rightarrow> 'a word \<Rightarrow> 'a word option" where
  "checked_mul a b = (if unat a * unat b < 2 ^ LENGTH('a) then Some (a * b) else None)"

definition saturating_sub :: "'a::len word \<Rightarrow> 'a word \<Rightarrow> 'a word" where
  "saturating_sub a b = (if b \<le> a then a - b else 0)"

definition abs_diff :: "'a::len word \<Rightarrow> 'a word \<Rightarrow> 'a word" where
  "abs_diff a b = (if b \<le> a then a - b else b - a)"

lemma unat_add_exact:
  "unat a + unat b < 2 ^ LENGTH('a) \<Longrightarrow> unat (a + b) = unat a + unat (b::'a::len word)"
  by (simp add: unat_word_ariths)

lemma unat_mul_exact:
  "unat a * unat b < 2 ^ LENGTH('a) \<Longrightarrow> unat (a * b) = unat a * unat (b::'a::len word)"
  by (simp add: unat_word_ariths)

lemma unat_sub_exact: "b \<le> a \<Longrightarrow> unat (a - b) = unat a - unat (b::'a::len word)"
  by (rule unat_sub)

lemma checked_add_SomeD:
  "checked_add a b = Some c \<Longrightarrow> c = a + b \<and> unat c = unat a + unat b"
  by (auto simp: checked_add_def unat_add_exact split: if_splits)

lemma checked_mul_SomeD:
  "checked_mul a b = Some c \<Longrightarrow> c = a * b \<and> unat c = unat a * unat b"
  by (auto simp: checked_mul_def unat_mul_exact split: if_splits)

lemma checked_sub_SomeD:
  "checked_sub a b = Some c \<Longrightarrow> c = a - b \<and> unat c = unat a - unat b \<and> unat b \<le> unat a"
  by (auto simp: checked_sub_def unat_sub_exact word_le_nat_alt split: if_splits)

lemma checked_add_unat: "checked_add a b = Some c \<Longrightarrow> unat c = unat a + unat b"
  using checked_add_SomeD by blast

lemma checked_mul_unat: "checked_mul a b = Some c \<Longrightarrow> unat c = unat a * unat b"
  using checked_mul_SomeD by blast

lemma checked_sub_unat: "checked_sub a b = Some c \<Longrightarrow> unat c = unat a - unat b"
  using checked_sub_SomeD by blast

lemmas checked_unat = checked_add_unat checked_mul_unat checked_sub_unat

lemma checked_add_SomeI:
  "unat a + unat b < 2 ^ LENGTH('a) \<Longrightarrow> checked_add a b = Some (a + (b::'a::len word))"
  by (simp add: checked_add_def)

lemma checked_mul_SomeI:
  "unat a * unat b < 2 ^ LENGTH('a) \<Longrightarrow> checked_mul a b = Some (a * (b::'a::len word))"
  by (simp add: checked_mul_def)

lemma checked_sub_SomeI: "b \<le> a \<Longrightarrow> checked_sub a b = Some (a - b)"
  by (simp add: checked_sub_def)

lemma checked_add_None_iff:
  "checked_add a b = None \<longleftrightarrow> 2 ^ LENGTH('a) \<le> unat a + unat (b::'a::len word)"
  by (auto simp: checked_add_def)

lemma unat_saturating_sub: "unat (saturating_sub a b) = unat a - unat b"
  by (auto simp: saturating_sub_def unat_sub_exact word_le_nat_alt)

lemma saturating_sub_self [simp]: "saturating_sub a a = 0"
  by (simp add: saturating_sub_def)

lemma unat_abs_diff:
  "unat (abs_diff a b) = (if unat b \<le> unat a then unat a - unat b else unat b - unat a)"
  by (auto simp: abs_diff_def unat_sub_exact word_le_nat_alt)

lemma unat_of_nat64: "n < 2 ^ 64 \<Longrightarrow> unat (of_nat n :: u64) = n"
  by (simp add: unat_of_nat take_bit_nat_eq_self_iff)

section \<open>Concurrent hash maps\<close>

text \<open>
  A \<open>DashMap<K, V>\<close> is a finite map with unique keys and some iteration order, which is
  the order of the association list. \<open>retain\<close>, \<open>entry().or_insert()\<close> and
  \<open>get_mut\<close> are the operations the sources use beside insert, get and remove.
\<close>

type_synonym ('k, 'v) dashmap = "('k, 'v) alist"

abbreviation dm_new :: "('k, 'v) dashmap" where
  "dm_new \<equiv> DAList.empty"

abbreviation dm_get :: "('k, 'v) dashmap \<Rightarrow> 'k \<Rightarrow> 'v option" where
  "dm_get \<equiv> DAList.lookup"

abbreviation dm_insert :: "'k \<Rightarrow> 'v \<Rightarrow> ('k, 'v) dashmap \<Rightarrow> ('k, 'v) dashmap" where
  "dm_insert \<equiv> DAList.update"

abbreviation dm_remove :: "'k \<Rightarrow> ('k, 'v) dashmap \<Rightarrow> ('k, 'v) dashmap" where
  "dm_remove \<equiv> DAList.delete"

abbreviation dm_entries :: "('k, 'v) dashmap \<Rightarrow> ('k \<times> 'v) list" where
  "dm_entries \<equiv> DAList.impl_of"

definition dm_len :: "('k, 'v) dashmap \<Rightarrow> nat" where
  "dm_len m = length (dm_entries m)"

definition dm_retain :: "('k \<Rightarrow> 'v \<Rightarrow> bool) \<Rightarrow> ('k, 'v) dashmap \<Rightarrow> ('k, 'v) dashmap" where
  "dm_retain P m = DAList.filter (\<lambda>(k, v). P k v) m"

text \<open>The value an entry has after \<open>entry(k).or_insert(d)\<close>.\<close>

definition dm_or_insert :: "('k, 'v) dashmap \<Rightarrow> 'k \<Rightarrow> 'v \<Rightarrow> 'v" where
  "dm_or_insert m k d = (case dm_get m k of None \<Rightarrow> d | Some v \<Rightarrow> v)"

lemma dm_get_entries: "dm_get m k = Some v \<longleftrightarrow> (k, v) \<in> set (dm_entries m)"
  by (simp add: DAList.lookup.rep_eq)

lemma dm_entries_retain:
  "(k, v) \<in> set (dm_entries (dm_retain P m)) \<longleftrightarrow> (k, v) \<in> set (dm_entries m) \<and> P k v"
  by (auto simp: dm_retain_def DAList.filter.rep_eq)

lemma dm_get_retain_Some:
  "dm_get (dm_retain P m) k = Some v \<longleftrightarrow> dm_get m k = Some v \<and> P k v"
  by (simp add: dm_get_entries dm_entries_retain)

lemma dm_get_retain [simp]:
  "dm_get (dm_retain P m) k =
     (case dm_get m k of None \<Rightarrow> None | Some v \<Rightarrow> if P k v then Some v else None)"
proof (cases "dm_get (dm_retain P m) k")
  case None
  then have "\<not> (dm_get m k = Some v \<and> P k v)" for v
    using dm_get_retain_Some [of P m k v] by auto
  with None show ?thesis by (auto split: option.splits)
next
  case (Some v)
  then show ?thesis by (simp add: dm_get_retain_Some)
qed

lemma dm_entries_get: "(k, v) \<in> set (dm_entries m) \<Longrightarrow> dm_get m k = Some v"
  by (simp add: dm_get_entries)

lemma dm_len_new [simp]: "dm_len dm_new = 0"
  by (simp add: dm_len_def DAList.empty.rep_eq)

lemma dm_len_retain_le: "dm_len (dm_retain P m) \<le> dm_len m"
  by (simp add: dm_len_def dm_retain_def DAList.filter.rep_eq)

lemma dm_ext: "dm_entries m = dm_entries m' \<Longrightarrow> m = m'"
  by (rule alist_ext)

lemma dm_remove_new [simp]: "dm_remove k dm_new = dm_new"
  by (rule dm_ext) (simp add: DAList.delete.rep_eq DAList.empty.rep_eq)

lemma dm_retain_all: "(\<And>k v. dm_get m k = Some v \<Longrightarrow> P k v) \<Longrightarrow> dm_retain P m = m"
  by (rule dm_ext) (auto simp: dm_retain_def DAList.filter.rep_eq dm_get_entries intro!: filter_True)

lemma dm_retain_none:
  "(\<And>k v. dm_get m k = Some v \<Longrightarrow> \<not> P k v) \<Longrightarrow> dm_retain P m = dm_new"
  by (rule dm_ext)
    (auto simp: dm_retain_def DAList.filter.rep_eq DAList.empty.rep_eq dm_get_entries
      intro!: filter_False)

section \<open>Iterators\<close>

text \<open>\<open>Iterator::min_by_key\<close>: the first element whose key is least.\<close>

fun min_by_key :: "('a \<Rightarrow> 'b::linorder) \<Rightarrow> 'a list \<Rightarrow> 'a option" where
  "min_by_key f [] = None"
| "min_by_key f (x # xs) =
     (case min_by_key f xs of
        None \<Rightarrow> Some x
      | Some y \<Rightarrow> if f x \<le> f y then Some x else Some y)"

lemma min_by_key_None [simp]: "min_by_key f xs = None \<longleftrightarrow> xs = []"
  by (cases xs) (auto split: option.splits)

lemma min_by_key_mem: "min_by_key f xs = Some y \<Longrightarrow> y \<in> set xs"
  by (induction xs arbitrary: y) (auto split: option.splits if_splits)

lemma min_by_key_le: "min_by_key f xs = Some y \<Longrightarrow> x \<in> set xs \<Longrightarrow> f y \<le> f x"
  by (induction xs arbitrary: y) (fastforce split: option.splits if_splits)+

lemma min_by_key_Some: "xs \<noteq> [] \<Longrightarrow> \<exists>y. min_by_key f xs = Some y"
  by (cases "min_by_key f xs") auto

text \<open>\<open>Iterator::sum\<close> under overflow checks.\<close>

fun checked_sum :: "'a::len word list \<Rightarrow> 'a word \<Rightarrow> 'a word option" where
  "checked_sum [] acc = Some acc"
| "checked_sum (x # xs) acc = checked_add acc x \<bind> checked_sum xs"

lemma checked_sum_Some:
  "checked_sum xs acc = Some s \<Longrightarrow> unat s = unat acc + (\<Sum>x\<leftarrow>xs. unat x)"
  by (induction xs arbitrary: acc)
    (auto simp: bind_eq_Some_conv dest!: checked_add_SomeD)

lemma checked_sum_SomeI:
  fixes acc :: "'a::len word"
  assumes "unat acc + (\<Sum>x\<leftarrow>xs. unat x) < 2 ^ LENGTH('a)"
  shows "\<exists>s. checked_sum xs acc = Some s"
  using assms
proof (induction xs arbitrary: acc)
  case Nil
  then show ?case by simp
next
  case (Cons x xs)
  then have "unat acc + unat x < 2 ^ LENGTH('a)" by simp
  with Cons show ?case by (simp add: checked_add_SomeI unat_add_exact)
qed

section \<open>Sequencing of fallible steps\<close>

text \<open>Rust's \<open>?\<close> on \<open>Result\<close>: run the rest on \<open>Ok\<close>, return the error as it is.\<close>

definition and_then :: "'e + 'a \<Rightarrow> ('a \<Rightarrow> 'e + 'b) \<Rightarrow> 'e + 'b" where
  "and_then m f = (case m of Inl e \<Rightarrow> Inl e | Inr x \<Rightarrow> f x)"

definition require :: "bool \<Rightarrow> 'e \<Rightarrow> 'e + unit" where
  "require b e = (if b then Inr () else Inl e)"

definition ok_or :: "'a option \<Rightarrow> 'e \<Rightarrow> 'e + 'a" where
  "ok_or x e = (case x of None \<Rightarrow> Inl e | Some y \<Rightarrow> Inr y)"

lemma and_then_simps [simp]:
  "and_then (Inl e) f = Inl e"
  "and_then (Inr x) f = f x"
  by (simp_all add: and_then_def)

lemma and_then_Inr: "and_then m f = Inr y \<longleftrightarrow> (\<exists>x. m = Inr x \<and> f x = Inr y)"
  by (cases m) auto

lemma require_Inr [simp]: "require b e = Inr u \<longleftrightarrow> b"
  by (simp add: require_def)

lemma require_simps [simp]:
  "require True e = Inr ()"
  "require False e = Inl e"
  by (simp_all add: require_def)

lemma ok_or_Inr [simp]: "ok_or x e = Inr y \<longleftrightarrow> x = Some y"
  by (cases x) (auto simp: ok_or_def)

lemma ok_or_simps [simp]:
  "ok_or None e = Inl e"
  "ok_or (Some y) e = Inr y"
  by (simp_all add: ok_or_def)

section \<open>Runs of a state machine\<close>

text \<open>
  A component's operations are a step function from an event and a state to the next state; a
  run is \<open>fold step events\<close>. Two interfaces say what follows for a run from a fact of
  one step: an invariant of the states, and a relation between an earlier and a later state.
\<close>

locale step_invariant =
  fixes step :: "'e \<Rightarrow> 's \<Rightarrow> 's" and inv :: "'s \<Rightarrow> bool"
  assumes step_keeps: "inv s \<Longrightarrow> inv (step e s)"
begin

lemma run_keeps: "inv s \<Longrightarrow> inv (fold step es s)"
  by (induction es arbitrary: s) (auto simp: step_keeps)

lemma run_prefix_keeps: "inv s \<Longrightarrow> inv (fold step (take n es) s)"
  by (rule run_keeps)

end

locale step_monotone =
  fixes step :: "'e \<Rightarrow> 's \<Rightarrow> 's" and rel :: "'s \<Rightarrow> 's \<Rightarrow> bool"
  assumes rel_refl: "rel s s"
    and rel_trans: "rel s t \<Longrightarrow> rel t u \<Longrightarrow> rel s u"
    and step_rel: "rel s (step e s)"
begin

lemma run_rel: "rel s (fold step es s)"
proof (induction es arbitrary: s)
  case Nil
  show ?case by (simp add: rel_refl)
next
  case (Cons e es)
  have "rel (step e s) (fold step es (step e s))" by (rule Cons.IH)
  with step_rel [of s e] show ?case using rel_trans by simp
qed

lemma run_rel_later: "rel (fold step es s) (fold step (es @ fs) s)"
  using run_rel [of "fold step es s" fs] by simp

end

end
