(* ===== verification/Rust_Text.thy ===== *)
theory Rust_Text
  imports Prelude "HOL-Library.Sublist"
begin

text \<open>
  Rust's \<open>str\<close> and byte slices. A \<open>str\<close> is a \<open>string\<close> of HOL read as its UTF-8
  bytes, so \<open>length\<close> is \<open>str::len\<close>. Searching, prefix tests, trimming and splitting at
  ASCII separators are the same on bytes as on characters, because no byte of a multi-byte
  character is ASCII.
\<close>

section \<open>Bytes\<close>

definition bytes_of :: "string \<Rightarrow> u8 list" where
  "bytes_of s = map of_char s"

lemma bytes_of_inj [simp]: "bytes_of s = bytes_of t \<longleftrightarrow> s = t"
proof
  have "inj (of_char :: char \<Rightarrow> u8)"
  proof (rule injI)
    fix c d :: char
    assume "(of_char c :: u8) = of_char d"
    then have "unat (of_nat (of_char c) :: u8) = unat (of_nat (of_char d) :: u8)"
      by (simp add: of_nat_of_char)
    then have "(of_char c :: nat) = of_char d"
      using nat_of_char_less_256 [of c] nat_of_char_less_256 [of d]
      by (simp add: unat_of_nat take_bit_nat_eq_self_iff del: nat_of_char_less_256)
    then show "c = d" by simp
  qed
  then show "bytes_of s = bytes_of t \<Longrightarrow> s = t"
    by (simp add: bytes_of_def inj_map_eq_map)
qed simp

lemma length_bytes_of [simp]: "length (bytes_of s) = length s"
  by (simp add: bytes_of_def)

section \<open>Comparison in constant time\<close>

text \<open>The sources compare secrets by folding the differences of all byte pairs into one byte;
  three places spell the same fold.\<close>

fun diff_fold :: "u8 \<Rightarrow> (u8 \<times> u8) list \<Rightarrow> u8" where
  "diff_fold acc [] = acc"
| "diff_fold acc ((a, b) # ps) = diff_fold (acc OR (a XOR b)) ps"

lemma or_eq_0_word: "(a::'a::len word) OR b = 0 \<longleftrightarrow> a = 0 \<and> b = 0"
  by (metis or_eq_0_iff)

lemma xor_eq_0_word: "(a::'a::len word) XOR b = 0 \<longleftrightarrow> a = b"
  by (metis xor.assoc xor.left_neutral xor.right_neutral xor_self_eq)

lemma diff_fold_0: "diff_fold acc ps = 0 \<longleftrightarrow> acc = 0 \<and> (\<forall>(a, b)\<in>set ps. a = b)"
  by (induction acc ps rule: diff_fold.induct) (auto simp: or_eq_0_word xor_eq_0_word)

lemma diff_fold_eq:
  "length xs = length ys \<Longrightarrow> diff_fold 0 (zip xs ys) = 0 \<longleftrightarrow> xs = ys"
  by (induction xs ys rule: list_induct2) (auto simp: diff_fold_0 xor_eq_0_word)

section \<open>Searching\<close>

abbreviation starts_with :: "string \<Rightarrow> string \<Rightarrow> bool" where
  "starts_with s p \<equiv> prefix p s"

abbreviation ends_with :: "string \<Rightarrow> string \<Rightarrow> bool" where
  "ends_with s p \<equiv> suffix p s"

fun contains :: "string \<Rightarrow> string \<Rightarrow> bool" where
  "contains [] p \<longleftrightarrow> p = []"
| "contains (c # s) p \<longleftrightarrow> prefix p (c # s) \<or> contains s p"

lemma contains_sublist: "contains s p \<longleftrightarrow> sublist p s"
  by (induction s p rule: contains.induct) (auto simp: sublist_Cons_right)

lemma contains_mid [simp]: "contains (a @ p @ b) p"
  by (simp add: contains_sublist)

text \<open>\<open>split(pat)\<close> with a non-empty pattern: the text after the first occurrence, and the last
  piece.\<close>

fun after_first :: "string \<Rightarrow> string \<Rightarrow> string option" where
  "after_first pat [] = None"
| "after_first pat (c # cs) =
     (if starts_with (c # cs) pat then Some (drop (length pat) (c # cs)) else after_first pat cs)"

function last_piece :: "string \<Rightarrow> string \<Rightarrow> string" where
  "last_piece pat s = (case after_first pat s of
      Some r \<Rightarrow> if length r < length s then last_piece pat r else r
    | None \<Rightarrow> s)"
  by pat_completeness auto
termination by (relation "measure (length \<circ> snd)") auto

declare last_piece.simps [simp del]

definition strip_prefix :: "string \<Rightarrow> string \<Rightarrow> string option" where
  "strip_prefix p s = (if prefix p s then Some (drop (length p) s) else None)"

lemma strip_prefix_Some: "strip_prefix p s = Some t \<longleftrightarrow> s = p @ t"
  by (auto simp: strip_prefix_def prefix_def)

text \<open>Slicing a string at a byte offset panics inside a character.\<close>

definition char_boundary :: "string \<Rightarrow> nat \<Rightarrow> bool" where
  "char_boundary s n \<longleftrightarrow> n = length s \<or>
     (n < length s \<and> \<not> (128 \<le> (of_char (s ! n) :: nat) \<and> (of_char (s ! n) :: nat) < 192))"

text \<open>\<open>str::split\<close> at a character, and \<open>trim\<close> of ASCII white space.\<close>

fun split_char :: "char \<Rightarrow> string \<Rightarrow> string list" where
  "split_char sep [] = [[]]"
| "split_char sep (c # s) =
     (if c = sep then [] # split_char sep s
      else (case split_char sep s of [] \<Rightarrow> [[c]] | w # ws \<Rightarrow> (c # w) # ws))"

lemma split_char_Nil [simp]: "split_char sep s \<noteq> []"
  by (induction s) (auto split: list.splits)

lemma split_char_hd: "hd (split_char sep s) = takeWhile (\<lambda>c. c \<noteq> sep) s"
  by (induction s) (auto split: list.splits)

definition is_space :: "char \<Rightarrow> bool" where
  "is_space c \<longleftrightarrow> c = CHR '' '' \<or> (let n = of_char c :: nat in 9 \<le> n \<and> n \<le> 13)"

definition trim :: "string \<Rightarrow> string" where
  "trim s = rev (dropWhile is_space (rev (dropWhile is_space s)))"

text \<open>\<open>str::to_lowercase\<close> on ASCII. Where the sources use it, the result is only searched
  for, or compared with, ASCII words; no other character lowers to a string through which such
  a word could match (the Kelvin sign gives k, which is in none of the words, and the dotted I
  gives i followed by a combining dot).\<close>

definition lower_char :: "char \<Rightarrow> char" where
  "lower_char c =
     (let n = of_char c :: nat in if 65 \<le> n \<and> n \<le> 90 then char_of (n + 32) else c)"

definition to_lowercase :: "string \<Rightarrow> string" where
  "to_lowercase s = map lower_char s"

lemma length_to_lowercase [simp]: "length (to_lowercase s) = length s"
  by (simp add: to_lowercase_def)

section \<open>Hexadecimal\<close>

text \<open>The crate \<open>hex\<close> is not part of the sources: where they print or parse hex, the
  definitions take it as a parameter with the law below. The functions of this section are an
  instance of the law, for the witnesses.\<close>

type_synonym hex_printer = "u8 list \<Rightarrow> string"
type_synonym hex_parser = "string \<Rightarrow> u8 list option"

definition hex_law :: "hex_printer \<Rightarrow> hex_parser \<Rightarrow> bool" where
  "hex_law hex unhex \<longleftrightarrow> (\<forall>bs. unhex (hex bs) = Some bs \<and> length (hex bs) = 2 * length bs) \<and>
     (\<forall>n. hex (replicate n 0) = replicate (2 * n) (CHR ''0''))"

definition hex_digits :: "string" where
  "hex_digits = ''0123456789abcdef''"

definition hex_byte :: "u8 \<Rightarrow> string" where
  "hex_byte b = [hex_digits ! (unat b div 16), hex_digits ! (unat b mod 16)]"

definition hex_encode :: "u8 list \<Rightarrow> string" where
  "hex_encode bs = concat (map hex_byte bs)"

lemma length_hex_encode [simp]: "length (hex_encode bs) = 2 * length bs"
  by (induction bs) (auto simp: hex_encode_def hex_byte_def)

lemma hex_digits_distinct: "distinct hex_digits" "length hex_digits = 16"
  by (simp_all add: hex_digits_def)

lemma unat_byte: "unat (b::u8) < 256"
  by (rule order.strict_trans2 [OF unsigned_less]) simp

lemma hex_byte_inj: "hex_byte a = hex_byte b \<longleftrightarrow> a = b"
proof
  assume eq: "hex_byte a = hex_byte b"
  have bound: "unat a div 16 < 16" "unat b div 16 < 16"
    using unat_byte [of a] unat_byte [of b] by (simp_all add: less_mult_imp_div_less)
  have "unat a div 16 = unat b div 16" "unat a mod 16 = unat b mod 16"
    using eq bound hex_digits_distinct by (simp_all add: hex_byte_def nth_eq_iff_index_eq)
  then show "a = b" by (metis div_mult_mod_eq word_unat_eq_iff)
qed simp

lemma hex_encode_inj [simp]: "hex_encode xs = hex_encode ys \<longleftrightarrow> xs = ys"
proof
  assume eq: "hex_encode xs = hex_encode ys"
  then have "length (hex_encode xs) = length (hex_encode ys)" by simp
  then have "length xs = length ys" by simp
  then show "xs = ys" using eq
  proof (induction xs ys rule: list_induct2)
    case (Cons x xs y ys)
    then have "hex_byte x = hex_byte y \<and> hex_encode xs = hex_encode ys"
      by (simp add: hex_encode_def hex_byte_def)
    with Cons.IH show ?case by (simp add: hex_byte_inj)
  qed simp
qed simp

definition nibble :: "char \<Rightarrow> nat option" where
  "nibble c = map_option fst (find (\<lambda>(i, d). d = c) (enumerate 0 hex_digits))"

fun hex_decode :: "string \<Rightarrow> u8 list option" where
  "hex_decode [] = Some []"
| "hex_decode [c] = None"
| "hex_decode (c # d # cs) =
     (case (nibble c, nibble d, hex_decode cs) of
        (Some i, Some j, Some bs) \<Rightarrow> Some (of_nat (16 * i + j) # bs)
      | _ \<Rightarrow> None)"

lemma nibble_digit: "i < 16 \<Longrightarrow> nibble (hex_digits ! i) = Some i"
proof -
  have "\<forall>i\<in>set [0..<16]. nibble (hex_digits ! i) = Some i" by code_simp
  then show "i < 16 \<Longrightarrow> nibble (hex_digits ! i) = Some i" by simp
qed

lemma hex_decode_encode: "hex_decode (hex_encode bs) = Some bs"
proof (induction bs)
  case (Cons b bs)
  have "unat b div 16 < 16" using unat_byte [of b] by (simp add: less_mult_imp_div_less)
  moreover have "(of_nat (16 * (unat b div 16) + unat b mod 16) :: u8) = b"
    by (simp add: mult_div_mod_eq del: of_nat_add of_nat_mult)
  ultimately show ?case using Cons
    by (simp add: hex_encode_def hex_byte_def nibble_digit del: of_nat_add of_nat_mult)
qed (simp add: hex_encode_def)

lemma hex_law_instance: "hex_law hex_encode hex_decode"
proof -
  have "hex_encode (replicate n 0) = replicate (2 * n) (CHR ''0'')" for n
    by (induction n) (simp_all add: hex_encode_def hex_byte_def hex_digits_def)
  then show ?thesis by (simp add: hex_law_def hex_decode_encode)
qed

section \<open>Decimal\<close>

text \<open>\<open>u64::to_string\<close>.\<close>

fun decimal :: "nat \<Rightarrow> string" where
  "decimal n = (if n < 10 then [hex_digits ! n] else decimal (n div 10) @ [hex_digits ! (n mod 10)])"

declare decimal.simps [simp del]

lemma decimal_inj: "decimal m = decimal n \<Longrightarrow> m = n"
proof (induction m arbitrary: n rule: decimal.induct)
  case (1 m)
  have ne: "decimal k \<noteq> []" for k by (subst decimal.simps) simp
  have digit: "hex_digits ! i = hex_digits ! j \<longleftrightarrow> i = j" if "i < 10" "j < 10" for i j
    using that hex_digits_distinct by (simp add: nth_eq_iff_index_eq)
  show ?case
  proof (cases "m < 10")
    case True
    then show ?thesis using "1.prems" ne [of "n div 10"] digit [of m n]
      by (simp add: decimal.simps [of m] decimal.simps [of n] split: if_splits)
  next
    case False
    then have "\<not> n < 10" using "1.prems" ne [of "m div 10"]
      by (auto simp: decimal.simps [of m] decimal.simps [of n])
    with False "1.prems" have "decimal (m div 10) = decimal (n div 10)"
      and "hex_digits ! (m mod 10) = hex_digits ! (n mod 10)"
      by (simp_all add: decimal.simps [of m] decimal.simps [of n])
    then have "m div 10 = n div 10" and "m mod 10 = n mod 10"
      using "1.IH" [OF False] digit [of "m mod 10" "n mod 10"] by simp_all
    then show ?thesis by (metis div_mult_mod_eq)
  qed
qed

text \<open>\<open>str::parse\<close> at an unsigned type with values below \<open>lim\<close>: an optional plus sign and
  at least one digit.\<close>

definition digit_val :: "char \<Rightarrow> nat option" where
  "digit_val c = (let n = of_char c :: nat in if 48 \<le> n \<and> n \<le> 57 then Some (n - 48) else None)"

fun parse_digits :: "nat \<Rightarrow> string \<Rightarrow> nat \<Rightarrow> nat option" where
  "parse_digits lim [] acc = Some acc"
| "parse_digits lim (c # cs) acc =
     (case digit_val c of
        None \<Rightarrow> None
      | Some d \<Rightarrow> if 10 * acc + d < lim then parse_digits lim cs (10 * acc + d) else None)"

definition parse_unsigned :: "nat \<Rightarrow> string \<Rightarrow> nat option" where
  "parse_unsigned lim s =
     (let ds = (case s of [] \<Rightarrow> [] | c # cs \<Rightarrow> if c = CHR ''+'' then cs else s) in
      if ds = [] then None else parse_digits lim ds 0)"

definition parse_bool :: "string \<Rightarrow> bool option" where
  "parse_bool s = (if s = ''true'' then Some True else if s = ''false'' then Some False else None)"

lemma parse_digits_lt: "parse_digits lim s acc = Some n \<Longrightarrow> acc < lim \<Longrightarrow> n < lim"
  by (induction lim s acc rule: parse_digits.induct) (auto split: option.splits if_splits)

lemma parse_unsigned_lt: "parse_unsigned lim s = Some n \<Longrightarrow> 0 < lim \<Longrightarrow> n < lim"
  by (auto simp: parse_unsigned_def Let_def simp del: parse_digits.simps
      split: if_splits list.splits dest: parse_digits_lt)

lemma digit_val_hex: "d < 10 \<Longrightarrow> digit_val (hex_digits ! d) = Some d \<and> hex_digits ! d \<noteq> CHR ''+''"
  by (auto simp: hex_digits_def digit_val_def less_Suc_eq eval_nat_numeral)

lemma parse_digits_append:
  "parse_digits lim (s @ t) acc = Option.bind (parse_digits lim s acc) (parse_digits lim t)"
  by (induction lim s acc rule: parse_digits.induct) (auto split: option.splits)

lemma parse_digits_decimal: "n < lim \<Longrightarrow> parse_digits lim (decimal n) 0 = Some n"
proof (induction n rule: decimal.induct)
  case (1 n)
  show ?case
  proof (cases "n < 10")
    case True
    with 1 digit_val_hex [of n] show ?thesis by (simp add: decimal.simps [of n])
  next
    case False
    then have "parse_digits lim (decimal (n div 10)) 0 = Some (n div 10)" using 1 by simp
    with False 1 digit_val_hex [of "n mod 10"] show ?thesis
      by (simp add: decimal.simps [of n] parse_digits_append)
  qed
qed

lemma hd_decimal: "hd (decimal n) \<noteq> CHR ''+'' \<and> decimal n \<noteq> []"
proof (induction n rule: decimal.induct)
  case (1 n)
  then show ?case using digit_val_hex [of n]
    by (cases "n < 10") (simp_all add: decimal.simps [of n])
qed

text \<open>Printing and parsing an unsigned number round-trip.\<close>

lemma parse_decimal: "n < lim \<Longrightarrow> parse_unsigned lim (decimal n) = Some n"
  using parse_digits_decimal [of n lim] hd_decimal [of n]
  by (cases "decimal n") (auto simp: parse_unsigned_def)

lemma trim_hd: "trim s \<noteq> [] \<Longrightarrow> \<not> is_space (last (trim s)) \<and> \<not> is_space (hd (trim s))"
proof -
  let ?t = "dropWhile is_space s" and ?u = "dropWhile is_space (rev (dropWhile is_space s))"
  assume "trim s \<noteq> []"
  then have u: "?u \<noteq> []" by (simp add: trim_def)
  then have "\<not> is_space (hd ?u)" by (rule hd_dropWhile)
  moreover have "last (trim s) = hd ?u" using u by (simp add: trim_def last_rev)
  moreover have "hd (trim s) = last ?u" using u by (simp add: trim_def hd_rev)
  moreover have "last ?u = last (rev ?t)"
    by (metis u dropWhile_eq_drop last_drop length_dropWhile_le drop_eq_Nil not_le)
  moreover have "?t \<noteq> []" using u by fastforce
  then have "\<not> is_space (last (rev ?t))" using hd_dropWhile [of is_space s] by (simp add: last_rev)
  ultimately show ?thesis by simp
qed

end
