(* ===== verification/Program_State.thy ===== *)
theory Program_State
  imports Rust_Text
begin

text \<open>
  The on-chain program's data (\<open>sns-program/programs/sns-program/src/lib.rs\<close>): the account
  types \<open>NodeAccount\<close>, \<open>BatchRecord\<close> and \<open>ProgramState\<close>, the events and errors,
  and the ledger an instruction runs on. The Solana runtime, the System and SPL Token programs
  and Anchor's account creation are not code of this repository: the record \<open>chain\<close> holds
  them as functions, and the predicates at the end state what the program relies on.
\<close>

section \<open>Account data\<close>

type_synonym pubkey = "u8 list"
type_synonym bytes32 = "u8 list"

record node_account =
  nd_owner :: pubkey
  nd_endpoint :: string
  nd_stake_amount :: u64
  nd_reputation :: u8
  nd_registered_at :: i64
  nd_requests_served :: u64
  nd_is_initialized :: bool
  nd_locked :: bool
  nd_last_receipt_nonce :: u64

record batch_record =
  br_node :: pubkey
  br_merkle_root :: bytes32
  br_total_lamports :: u64
  br_receipt_count :: u64
  br_settled_at :: i64

record program_state =
  ps_admin :: pubkey
  ps_solnet_mint :: pubkey
  ps_mint_authority_bump :: u8
  ps_global_request_count :: u64

text \<open>A freshly created account is all zeros.\<close>

definition zero_key :: pubkey where
  "zero_key = replicate 32 0"

definition node_account_zero :: node_account where
  "node_account_zero = \<lparr>nd_owner = zero_key, nd_endpoint = [], nd_stake_amount = 0,
     nd_reputation = 0, nd_registered_at = 0, nd_requests_served = 0,
     nd_is_initialized = False, nd_locked = False, nd_last_receipt_nonce = 0\<rparr>"

text \<open>
  The space an account is created with, and the size of a node account as stored: an 8-byte
  discriminator and the fields, a key in 32 bytes and the string with its 4-byte length.
\<close>

definition NodeAccount_SPACE :: nat where
  "NodeAccount_SPACE = 8 + 32 + (4 + 100) + 8 + 1 + 8 + 8 + 1 + 1 + 8"

definition BatchRecord_SPACE :: nat where
  "BatchRecord_SPACE = 8 + (32 + 32 + 8 + 8 + 8)"

definition ProgramState_SPACE :: nat where
  "ProgramState_SPACE = 8 + (32 + 32 + 1 + 8)"

definition node_account_size :: "node_account \<Rightarrow> nat" where
  "node_account_size n =
     8 + 32 + (4 + length (nd_endpoint n)) + 8 + 1 + 8 + 8 + 1 + 1 + 8"

section \<open>Events and errors\<close>

datatype event =
    EvNodeRegistered pubkey string u64 i64
  | EvBatchSettled pubkey bytes32 u64 u64 u64
  | EvNodeSlashed pubkey string u8 u8 i64

datatype sns_error =
    NodeAlreadyRegistered
  | InsufficientStake
  | InvalidReceipt
  | Unauthorized
  | NodeNotFound
  | InvalidEndpoint
  | Overflow
  | Reentrancy
  | ReplayAttack
  | NonceAlreadyUsed
  | InsufficientEscrow
  | NodeSlashed
  | TimestampExpired
  | InvalidSignature
  | AccountFrozen

text \<open>
  Beside the program's own errors an instruction fails when Anchor refuses its accounts, when a
  call into another program fails, or when an overflow check panics. Each of them makes the
  runtime discard every change of the instruction.
\<close>

datatype program_error =
    Sns sns_error
  | AccountsError
  | CpiError
  | Panic

section \<open>Ledger\<close>

record token_account =
  ta_mint :: pubkey
  ta_owner :: pubkey
  ta_amount :: u64

record token_state =
  mints :: "pubkey \<rightharpoonup> u64"
  token_accounts :: "pubkey \<rightharpoonup> token_account"

record ledger =
  lamports :: "pubkey \<Rightarrow> u64"
  node_accounts :: "pubkey \<rightharpoonup> node_account"
  batch_records :: "pubkey \<rightharpoonup> batch_record"
  program_states :: "pubkey \<rightharpoonup> program_state"
  tokens :: token_state
  events :: "event list"

text \<open>\<open>mints\<close> maps a mint to its supply.\<close>

section \<open>The chain the program runs on\<close>

type_synonym seeds = "u8 list list"

text \<open>
  \<open>find_pda\<close> is the canonical program address of some seeds, \<open>pda_with_bump\<close> the address a
  signer with an explicit bump stands for. \<open>sys_transfer\<close>, \<open>spl_mint_to\<close> and
  \<open>spl_transfer\<close> are the calls into the System and Token programs, each with the keys that
  signed; \<open>create_account\<close> is Anchor's \<open>init\<close>: payer, new account, space.
\<close>

record chain =
  find_pda :: "seeds \<Rightarrow> pubkey"
  pda_with_bump :: "seeds \<Rightarrow> u8 \<Rightarrow> pubkey option"
  sys_transfer :: "pubkey list \<Rightarrow> (pubkey \<Rightarrow> u64) \<Rightarrow> pubkey \<Rightarrow> pubkey \<Rightarrow> u64 \<Rightarrow> (pubkey \<Rightarrow> u64) option"
  create_account :: "(pubkey \<Rightarrow> u64) \<Rightarrow> pubkey \<Rightarrow> pubkey \<Rightarrow> nat \<Rightarrow> (pubkey \<Rightarrow> u64) option"
  spl_mint_to :: "pubkey list \<Rightarrow> token_state \<Rightarrow> pubkey \<Rightarrow> pubkey \<Rightarrow> pubkey \<Rightarrow> u64 \<Rightarrow> token_state option"
  spl_transfer :: "pubkey list \<Rightarrow> token_state \<Rightarrow> pubkey \<Rightarrow> pubkey \<Rightarrow> pubkey \<Rightarrow> u64 \<Rightarrow> token_state option"

text \<open>The program's own addresses.\<close>

definition node_pda :: "chain \<Rightarrow> pubkey \<Rightarrow> pubkey" where
  "node_pda ch owner = find_pda ch [bytes_of ''node'', owner]"

definition escrow_pda :: "chain \<Rightarrow> pubkey \<Rightarrow> pubkey" where
  "escrow_pda ch owner = find_pda ch [bytes_of ''escrow'', owner]"

definition batch_pda :: "chain \<Rightarrow> bytes32 \<Rightarrow> pubkey" where
  "batch_pda ch batch_id = find_pda ch [bytes_of ''batch'', batch_id]"

definition mint_authority_pda :: "chain \<Rightarrow> pubkey" where
  "mint_authority_pda ch = find_pda ch [bytes_of ''solnet-mint-authority'']"

definition protocol_state_pda :: "chain \<Rightarrow> pubkey" where
  "protocol_state_pda ch = find_pda ch [bytes_of ''protocol-state'']"

text \<open>The key \<open>Admins1111111111111111111111111111111111111\<close>, decoded.\<close>

definition ADMIN_KEY :: pubkey where
  "ADMIN_KEY = [2, 119, 205, 239, 86, 68, 67, 73, 168, 169, 117, 84, 82, 96, 149, 113,
     226, 5, 83, 76, 229, 84, 125, 200, 235, 92, 153, 0, 0, 0, 0, 0]"

section \<open>What the program relies on\<close>

text \<open>
  A System transfer that succeeds moves exactly the amount; it fails when the sender holds less.
  Creating an account moves rent from the payer to the new account.
\<close>

definition moved :: "(pubkey \<Rightarrow> u64) \<Rightarrow> pubkey \<Rightarrow> pubkey \<Rightarrow> u64 \<Rightarrow> (pubkey \<Rightarrow> u64) \<Rightarrow> bool" where
  "moved l from to amt l' \<longleftrightarrow>
     amt \<le> l from \<and>
     (if from = to then l' = l
      else unat (l to) + unat amt < 2 ^ 64 \<and>
           l' = l(from := l from - amt, to := l to + amt))"

definition transfer_law :: "chain \<Rightarrow> bool" where
  "transfer_law ch \<longleftrightarrow>
     (\<forall>sg l from to amt l'. sys_transfer ch sg l from to amt = Some l' \<longrightarrow> moved l from to amt l')"

definition creation_law :: "chain \<Rightarrow> bool" where
  "creation_law ch \<longleftrightarrow>
     (\<forall>l payer new space l'. create_account ch l payer new space = Some l' \<longrightarrow>
        (\<exists>rent. moved l payer new rent l'))"

text \<open>
  Program addresses of different seeds differ, and none is the address of a key pair. The second
  part is used for one wallet at a time.
\<close>

definition pda_law :: "chain \<Rightarrow> bool" where
  "pda_law ch \<longleftrightarrow> inj (find_pda ch)"

lemma transfer_lawD:
  "transfer_law ch \<Longrightarrow> sys_transfer ch sg l from to amt = Some l' \<Longrightarrow> moved l from to amt l'"
  by (auto simp: transfer_law_def)

lemma creation_lawD:
  "creation_law ch \<Longrightarrow> create_account ch l payer new space = Some l' \<Longrightarrow>
     \<exists>rent. moved l payer new rent l'"
  by (auto simp: creation_law_def)

lemma transfer_insufficient:
  "transfer_law ch \<Longrightarrow> l from < amt \<Longrightarrow> sys_transfer ch sg l from to amt = None"
  by (cases "sys_transfer ch sg l from to amt") (auto dest!: transfer_lawD simp: moved_def)

lemma pda_inj: "pda_law ch \<Longrightarrow> find_pda ch a = find_pda ch b \<longleftrightarrow> a = b"
  by (auto simp: pda_law_def inj_eq)

lemma pda_simps:
  assumes "pda_law ch"
  shows "node_pda ch a = node_pda ch b \<longleftrightarrow> a = b"
    and "escrow_pda ch a = escrow_pda ch b \<longleftrightarrow> a = b"
    and "batch_pda ch i = batch_pda ch j \<longleftrightarrow> i = j"
    and "node_pda ch a \<noteq> escrow_pda ch b"
    and "batch_pda ch i \<noteq> escrow_pda ch b"
    and "node_pda ch a \<noteq> batch_pda ch i"
  using assms
  by (simp_all add: node_pda_def escrow_pda_def batch_pda_def pda_inj bytes_of_inj)

section \<open>Lamports of a set of accounts\<close>

definition lamport_sum :: "pubkey set \<Rightarrow> (pubkey \<Rightarrow> u64) \<Rightarrow> nat" where
  "lamport_sum A l = (\<Sum>a\<in>A. unat (l a))"

lemma sum_two_updates:
  fixes f g :: "'a \<Rightarrow> nat"
  assumes "finite A" "x \<in> A" "y \<in> A" "x \<noteq> y"
    and "\<And>a. a \<noteq> x \<Longrightarrow> a \<noteq> y \<Longrightarrow> g a = f a" and "g x + g y = f x + f y"
  shows "sum g A = sum f A"
proof -
  have split: "sum h A = h x + h y + sum h (A - {x, y})" for h :: "'a \<Rightarrow> nat"
  proof -
    have "sum h A = h x + sum h (A - {x})"
      using assms(1,2) by (rule sum.remove)
    also have "sum h (A - {x}) = h y + sum h (A - {x} - {y})"
      using assms(1,3,4) by (intro sum.remove) auto
    also have "A - {x} - {y} = A - {x, y}" by auto
    finally show ?thesis by simp
  qed
  have "sum g (A - {x, y}) = sum f (A - {x, y})"
    by (rule sum.cong) (use assms(5) in auto)
  then show ?thesis using split [of f] split [of g] assms(6) by simp
qed

lemma moved_sum:
  assumes "moved l from to amt l'" and "finite A" and "from \<in> A" and "to \<in> A"
  shows "lamport_sum A l' = lamport_sum A l"
proof (cases "from = to")
  case True
  with assms(1) show ?thesis by (simp add: moved_def)
next
  case False
  with assms show ?thesis
    unfolding lamport_sum_def
    by (intro sum_two_updates [where x = "from" and y = "to"])
      (auto simp: moved_def unat_add_exact unat_sub_exact word_le_nat_alt)
qed

end
