(* ===== verification/Program_Rewards.thy ===== *)
theory Program_Rewards
  imports Program_State
begin

text \<open>
  The SOLNET reward of \<open>settle_compressed_batch\<close>: the loop that pays the receipts of a batch
  era by era, its termination, its closed form as a sum over the requests, and the bound that
  makes its overflow checks unreachable.
\<close>

section \<open>The loop of the source\<close>

definition initial_reward :: u64 where
  "initial_reward = 10 * 1000000000"

definition halving_interval :: u64 where
  "halving_interval = 100000000"

definition era_reward :: "u64 \<Rightarrow> u64" where
  "era_reward era = (if 64 \<le> era then 0 else drop_bit (unat era) initial_reward)"

lemma and_then_cong [fundef_cong]:
  "m = m' \<Longrightarrow> (\<And>x. m' = Inr x \<Longrightarrow> f x = g x) \<Longrightarrow> and_then m f = and_then m' g"
  by (cases m') auto

lemma halving_window:
  assumes "checked_add (current div halving_interval) 1 = Some e1"
    and "checked_mul e1 halving_interval = Some nh"
    and "checked_sub nh current = Some can_fill"
  shows "unat nh = (unat current div 100000000 + 1) * 100000000"
    and "unat can_fill = unat nh - unat current" and "0 < unat can_fill"
proof -
  have e1: "unat e1 = unat current div 100000000 + 1"
    using checked_add_unat [OF assms(1)]
    by (simp add: halving_interval_def unat_div)
  then show n: "unat nh = (unat current div 100000000 + 1) * 100000000"
    using checked_mul_unat [OF assms(2)] by (simp add: halving_interval_def)
  show c: "unat can_fill = unat nh - unat current"
    using assms(3) by (rule checked_sub_unat)
  have "unat current < (unat current div 100000000 + 1) * 100000000"
    using dividend_less_div_times [of 100000000 "unat current"] by simp
  with n c show "0 < unat can_fill" by simp
qed

text \<open>
  The \<open>while remaining > 0\<close> loop over \<open>remaining\<close>, \<open>current_global\<close> and
  \<open>total_reward\<close>. The two \<open>checked\<close> operations on the reward return the program's
  \<open>Overflow\<close>; every other operator panics on overflow.
\<close>

function (sequential) reward_loop ::
  "u64 \<Rightarrow> u64 \<Rightarrow> u64 \<Rightarrow> program_error + (u64 \<times> u64)" where
  "reward_loop remaining current_global total_reward =
     (if remaining = 0 then Inr (total_reward, current_global)
      else
        let era = current_global div halving_interval in
        and_then (ok_or (checked_add era 1) Panic) (\<lambda>era1.
        and_then (ok_or (checked_mul era1 halving_interval) Panic) (\<lambda>next_halving.
        and_then (ok_or (checked_sub next_halving current_global) Panic) (\<lambda>can_fill.
        let to_process = min can_fill remaining in
        and_then (ok_or (checked_mul to_process (era_reward era)) (Sns Overflow)) (\<lambda>part.
        and_then (ok_or (checked_add total_reward part) (Sns Overflow)) (\<lambda>tot'.
        and_then (ok_or (checked_add current_global to_process) Panic) (\<lambda>current'.
        and_then (ok_or (checked_sub remaining to_process) Panic) (\<lambda>remaining'.
          reward_loop remaining' current' tot'))))))))"
  by pat_completeness auto
termination
proof (relation "measure (\<lambda>(remaining, current, tot). unat remaining)", goal_cases)
  case 1
  then show ?case by simp
next
  case (2 remaining current tot era e1 nh can_fill to_process part tot' current' remaining')
  then have "0 < unat can_fill"
    using halving_window(3) by auto
  moreover have "0 < unat remaining"
    using 2(1) by (simp add: unat_gt_0)
  moreover have "unat to_process = min (unat can_fill) (unat remaining)"
    using 2 by (simp add: min_def word_le_nat_alt)
  moreover have "unat remaining' = unat remaining - unat to_process"
    using 2 by (auto dest: checked_sub_unat)
  ultimately show ?case by auto
qed

declare reward_loop.simps [simp del]

section \<open>The reward as a sum\<close>

text \<open>What the request with global number \<open>g\<close> earns, and what \<open>n\<close> requests from
  number \<open>g\<close> on earn together.\<close>

definition request_reward :: "nat \<Rightarrow> nat" where
  "request_reward g =
     (let era = g div 100000000 in if 64 \<le> era then 0 else 10000000000 div 2 ^ era)"

definition reward_sum :: "nat \<Rightarrow> nat \<Rightarrow> nat" where
  "reward_sum g n = (\<Sum>i = g ..< g + n. request_reward i)"

lemma reward_sum_0 [simp]: "reward_sum g 0 = 0"
  by (simp add: reward_sum_def)

lemma reward_sum_split: "reward_sum g (m + n) = reward_sum g m + reward_sum (g + m) n"
  unfolding reward_sum_def
  using sum.atLeastLessThan_concat [of g "g + m" "g + m + n" request_reward]
  by (simp add: add.assoc)

lemma reward_sum_mono: "m \<le> n \<Longrightarrow> reward_sum g m \<le> reward_sum g n"
  unfolding reward_sum_def by (rule sum_mono2) auto

lemma reward_sum_within_era:
  assumes "g + n \<le> (g div 100000000 + 1) * 100000000"
  shows "reward_sum g n = n * request_reward g"
proof -
  have "request_reward i = request_reward g" if "i \<in> {g ..< g + n}" for i
  proof -
    have "i div 100000000 = g div 100000000"
    proof (rule div_nat_eqI)
      show "100000000 * (g div 100000000) \<le> i"
        using that by (meson atLeastLessThan_iff order_trans times_div_less_eq_dividend)
      show "i < 100000000 * Suc (g div 100000000)"
        using that assms by (simp add: algebra_simps)
    qed
    then show ?thesis by (simp add: request_reward_def)
  qed
  then have "reward_sum g n = (\<Sum>i = g ..< g + n. request_reward g)"
    unfolding reward_sum_def by (rule sum.cong [OF refl])
  then show ?thesis by simp
qed

lemma unat_era_reward: "unat (era_reward (g div halving_interval)) = request_reward (unat g)"
proof -
  have "unat (g div halving_interval) = unat g div 100000000"
    by (simp add: halving_interval_def unat_div)
  moreover have "unat (drop_bit k initial_reward) = 10000000000 div 2 ^ k" for k
  proof -
    have "unat initial_reward = 10000000000" by (simp add: initial_reward_def)
    then show ?thesis using unat_drop_bit_eq [of k initial_reward] by (simp add: drop_bit_eq_div)
  qed
  ultimately show ?thesis
    by (simp add: era_reward_def request_reward_def word_le_nat_alt Let_def)
qed

text \<open>Grouped by eras, the requests of the first 64 eras earn less than two billion tokens.\<close>

lemma reward_sum_eras:
  "(\<Sum>i < E * 100000000. request_reward i) =
     100000000 * (\<Sum>e < E. if 64 \<le> e then 0 else 10000000000 div 2 ^ e)"
proof -
  have era: "(\<Sum>i = e * 100000000 ..< e * 100000000 + 100000000. request_reward i) =
      100000000 * (if 64 \<le> e then 0 else 10000000000 div 2 ^ e)" for e
    using reward_sum_within_era [of "e * 100000000" 100000000]
    by (simp add: reward_sum_def request_reward_def algebra_simps)
  have "(\<Sum>i < E * 100000000. request_reward i) =
      (\<Sum>e < E. \<Sum>i = e * 100000000 ..< e * 100000000 + 100000000. request_reward i)"
    by (rule sum.nat_group [symmetric])
  also have "\<dots> = (\<Sum>e < E. 100000000 * (if 64 \<le> e then 0 else 10000000000 div 2 ^ e))"
    by (rule sum.cong) (use era in auto)
  finally show ?thesis by (simp only: sum_distrib_left)
qed

lemma era_sum_bound: "(\<Sum>e < E. if 64 \<le> e then 0 else 10000000000 div 2 ^ e) \<le> (20000000000::nat)"
proof -
  have "(\<Sum>e < E. if 64 \<le> e then 0 else 10000000000 div 2 ^ e) \<le>
      (\<Sum>e < E + 64. if 64 \<le> e then 0 else 10000000000 div 2 ^ e :: nat)"
    by (rule sum_mono2) auto
  also have "\<dots> = (\<Sum>e < 64. 10000000000 div 2 ^ e)"
    by (rule sum.mono_neutral_cong_right) auto
  also have "\<dots> \<le> 20000000000"
    by (simp add: lessThan_nat_numeral lessThan_Suc)
  finally show ?thesis .
qed

lemma reward_sum_bound: "reward_sum g n \<le> 2000000000000000000"
proof -
  have "reward_sum g n \<le> (\<Sum>i < (g + n) * 100000000. request_reward i)"
    unfolding reward_sum_def by (rule sum_mono2) auto
  also have "\<dots> \<le> 100000000 * 20000000000"
    unfolding reward_sum_eras by (rule mult_le_mono2) (rule era_sum_bound)
  finally show ?thesis by simp
qed

section \<open>The loop computes the sum\<close>

text \<open>Beyond this request count the next halving point does not fit 64 bits.\<close>

definition request_cap :: nat where
  "request_cap = 184467440737 * 100000000"

lemma reward_loop_0 [simp]: "reward_loop 0 current tot = Inr (tot, current)"
  by (subst reward_loop.simps) simp

text \<open>
  One iteration: the chunk that is paid, and the values the next iteration starts from. It
  succeeds below the cap when the running total fits.
\<close>

lemma reward_loop_step:
  fixes remaining current tot :: u64
  defines "g \<equiv> unat current"
  defines "k \<equiv> min ((g div 100000000 + 1) * 100000000 - g) (unat remaining)"
  assumes rem: "remaining \<noteq> 0" and cap: "g + unat remaining \<le> request_cap"
    and fits: "unat tot + reward_sum g k < 2 ^ 64"
  shows "\<exists>remaining' current' tot'.
      reward_loop remaining current tot = reward_loop remaining' current' tot' \<and>
      unat remaining' = unat remaining - k \<and> unat current' = g + k \<and>
      unat tot' = unat tot + reward_sum g k"
    and "0 < k" and "k \<le> unat remaining"
proof -
  let ?era = "current div halving_interval"
  have era: "unat ?era = g div 100000000"
    by (simp add: halving_interval_def unat_div g_def)
  have pos: "0 < unat remaining" using rem by (simp add: unat_gt_0)
  have "g < 184467440737 * 100000000" using cap pos by (simp add: request_cap_def)
  then have e_lt: "g div 100000000 < 184467440737" by (simp add: less_mult_imp_div_less)
  obtain e1 where e1: "checked_add ?era 1 = Some e1" "unat e1 = g div 100000000 + 1"
    using e_lt era by (simp add: checked_add_SomeI unat_add_exact)
  obtain nh where nh: "checked_mul e1 halving_interval = Some nh"
      "unat nh = (g div 100000000 + 1) * 100000000"
    using e_lt e1 by (simp add: checked_mul_SomeI unat_mul_exact halving_interval_def)
  have g_lt: "g < (g div 100000000 + 1) * 100000000"
    using dividend_less_div_times [of 100000000 g] by simp
  obtain cf where cf: "checked_sub nh current = Some cf" "unat cf = unat nh - g"
    using nh(2) g_lt by (simp add: checked_sub_SomeI word_le_nat_alt g_def unat_sub_exact)
  let ?tp = "min cf remaining"
  have tp: "unat ?tp = k"
    using cf nh by (simp add: min_def word_le_nat_alt k_def)
  show kpos: "0 < k" and kle: "k \<le> unat remaining"
    using g_lt pos by (auto simp: k_def)
  have "g + k \<le> (g div 100000000 + 1) * 100000000" using g_lt by (simp add: k_def)
  then have rs: "reward_sum g k = k * request_reward g" by (rule reward_sum_within_era)
  obtain part where part: "checked_mul ?tp (era_reward ?era) = Some part"
      "unat part = reward_sum g k"
    using fits tp rs unat_era_reward [of current]
    by (simp add: checked_mul_SomeI unat_mul_exact g_def)
  obtain tot' where tot': "checked_add tot part = Some tot'"
      "unat tot' = unat tot + reward_sum g k"
    using fits part by (simp add: checked_add_SomeI unat_add_exact)
  obtain current' where current': "checked_add current ?tp = Some current'" "unat current' = g + k"
    using cap kle tp by (simp add: checked_add_SomeI unat_add_exact g_def request_cap_def)
  obtain remaining' where remaining': "checked_sub remaining ?tp = Some remaining'"
      "unat remaining' = unat remaining - k"
    using kle tp by (simp add: checked_sub_SomeI word_le_nat_alt unat_sub_exact)
  have "reward_loop remaining current tot = reward_loop remaining' current' tot'"
    by (subst reward_loop.simps)
      (simp add: rem Let_def e1(1) nh(1) cf(1) part(1) tot'(1) current'(1) remaining'(1))
  with tot'(2) current'(2) remaining'(2) show "\<exists>remaining' current' tot'.
      reward_loop remaining current tot = reward_loop remaining' current' tot' \<and>
      unat remaining' = unat remaining - k \<and> unat current' = g + k \<and>
      unat tot' = unat tot + reward_sum g k"
    by blast
qed

lemma reward_loop_sum:
  assumes "unat current + unat remaining \<le> request_cap"
    and "unat tot + reward_sum (unat current) (unat remaining) < 2 ^ 64"
  shows "reward_loop remaining current tot =
     Inr (of_nat (unat tot + reward_sum (unat current) (unat remaining)), current + remaining)"
  using assms
proof (induction "unat remaining" arbitrary: remaining current tot rule: less_induct)
  case less
  show ?case
  proof (cases "remaining = 0")
    case True
    then show ?thesis by simp
  next
    case False
    let ?g = "unat current"
    define k where "k = min ((?g div 100000000 + 1) * 100000000 - ?g) (unat remaining)"
    have kle: "k \<le> unat remaining" by (simp add: k_def)
    have split: "reward_sum ?g (unat remaining) = reward_sum ?g k + reward_sum (?g + k) (unat remaining - k)"
      using reward_sum_split [of ?g k "unat remaining - k"] kle by simp
    then have fits: "unat tot + reward_sum ?g k < 2 ^ 64" using less.prems(2) by simp
    note step = reward_loop_step [OF False less.prems(1) fits [unfolded k_def], folded k_def]
    obtain remaining' current' tot' where
        eq: "reward_loop remaining current tot = reward_loop remaining' current' tot'" and
        r: "unat remaining' = unat remaining - k" and c: "unat current' = ?g + k" and
        t: "unat tot' = unat tot + reward_sum ?g k"
      using step(1) by blast
    have rc: "current' + remaining' = current + remaining"
      using less.prems(1) kle r c
      by (intro word_unat_eq_iff [THEN iffD2]) (simp add: unat_add_exact request_cap_def)
    have "reward_loop remaining' current' tot' =
        Inr (of_nat (unat tot' + reward_sum (unat current') (unat remaining')), current' + remaining')"
      by (rule less.hyps) (use less.prems kle r c t split step(2) in simp_all)
    with eq rc r c t split show ?thesis by (simp add: add.assoc)
  qed
qed

text \<open>Starting a batch with a total of zero, the overflow checks on the reward never fire.\<close>

lemma reward_loop_total:
  assumes "unat current + unat remaining \<le> request_cap"
  shows "reward_loop remaining current 0 =
     Inr (of_nat (reward_sum (unat current) (unat remaining)), current + remaining)"
  using reward_loop_sum [OF assms, of 0] reward_sum_bound [of "unat current" "unat remaining"]
  by simp

end
