(* ===== verification/Program_Instructions.thy ===== *)
theory Program_Instructions
  imports Program_Rewards
begin

text \<open>
  The five instructions of the on-chain program. Each is the accounts it is given (the
  \<open>#[derive(Accounts)]\<close> struct: keys, signatures and constraints), the body of its function,
  and Anchor's exit, which writes an account back when its field is marked \<open>mut\<close> or created
  by \<open>init\<close>. An error anywhere discards the whole instruction.
\<close>

section \<open>Account lists\<close>

record register_accounts =
  ra_owner :: pubkey
  ra_owner_signed :: bool
  ra_node_account :: pubkey
  ra_escrow_account :: pubkey

record settle_accounts =
  sa_owner :: pubkey
  sa_owner_signed :: bool
  sa_node_account :: pubkey
  sa_escrow_account :: pubkey
  sa_batch_record :: pubkey
  sa_mint_authority :: pubkey
  sa_solnet_mint :: pubkey
  sa_node_token_account :: pubkey
  sa_program_state :: pubkey

record init_accounts =
  ia_admin :: pubkey
  ia_admin_signed :: bool
  ia_program_state :: pubkey
  ia_solnet_mint :: pubkey

record stake_accounts =
  ka_user :: pubkey
  ka_user_signed :: bool
  ka_node_account :: pubkey
  ka_user_token_account :: pubkey
  ka_stake_vault :: pubkey

record slash_accounts =
  la_authority :: pubkey
  la_authority_signed :: bool
  la_owner :: pubkey
  la_program_authority :: pubkey
  la_node_account :: pubkey
  la_escrow_account :: pubkey

section \<open>Anchor\<close>

text \<open>Loading an account that must exist, and the write-back at the exit.\<close>

definition load :: "('k \<rightharpoonup> 'v) \<Rightarrow> 'k \<Rightarrow> program_error + 'v" where
  "load m k = ok_or (m k) AccountsError"

definition write_back :: "bool \<Rightarrow> 'k \<Rightarrow> 'v \<Rightarrow> ('k \<rightharpoonup> 'v) \<Rightarrow> ('k \<rightharpoonup> 'v)" where
  "write_back is_mut k v m = (if is_mut then m(k \<mapsto> v) else m)"

section \<open>register_node\<close>

text \<open>
  \<open>node_account\<close> is \<open>init_if_needed\<close>: created with the owner paying when it does not
  exist, loaded otherwise.
\<close>

definition register_node ::
  "chain \<Rightarrow> i64 \<Rightarrow> register_accounts \<Rightarrow> string \<Rightarrow> u64 \<Rightarrow> ledger \<Rightarrow> program_error + ledger" where
  "register_node ch now acc endpoint stake_amount s =
    (let owner = ra_owner acc in
     and_then (require (ra_owner_signed acc \<and>
         ra_node_account acc = node_pda ch owner \<and>
         ra_escrow_account acc = escrow_pda ch owner) AccountsError) (\<lambda>_.
     and_then (case node_accounts s (ra_node_account acc) of
         Some n \<Rightarrow> Inr (n, lamports s)
       | None \<Rightarrow> and_then
           (ok_or (create_account ch (lamports s) owner (ra_node_account acc) NodeAccount_SPACE)
             AccountsError) (\<lambda>l. Inr (node_account_zero, l))) (\<lambda>(node, l).
     and_then (require (length endpoint \<le> 100) (Sns InvalidEndpoint)) (\<lambda>_.
     and_then (require (100000000 \<le> stake_amount) (Sns InsufficientStake)) (\<lambda>_.
     and_then (require (\<not> nd_is_initialized node) (Sns NodeAlreadyRegistered)) (\<lambda>_.
     let node' = node\<lparr>
           nd_owner := owner,
           nd_endpoint := endpoint,
           nd_stake_amount := stake_amount,
           nd_reputation := 100,
           nd_registered_at := now,
           nd_requests_served := 0,
           nd_is_initialized := True,
           nd_locked := False\<rparr> in
     and_then (ok_or (sys_transfer ch [owner] l owner (ra_escrow_account acc) stake_amount)
         CpiError) (\<lambda>l'.
     Inr (s\<lparr>
       lamports := l',
       node_accounts := write_back True (ra_node_account acc) node' (node_accounts s),
       events := events s @ [EvNodeRegistered owner endpoint stake_amount now]\<rparr>))))))))"

section \<open>settle_compressed_batch\<close>

text \<open>
  The field \<open>program_state\<close> of the accounts struct carries seeds and bump but no \<open>mut\<close>,
  so the new request count is computed and then not written back.
\<close>

definition settle_program_state_mut :: bool where
  "settle_program_state_mut = False"

definition settle_accounts_ok :: "chain \<Rightarrow> settle_accounts \<Rightarrow> bytes32 \<Rightarrow> ledger \<Rightarrow> bool" where
  "settle_accounts_ok ch acc batch_id s \<longleftrightarrow>
     sa_owner_signed acc \<and>
     sa_node_account acc = node_pda ch (sa_owner acc) \<and>
     sa_escrow_account acc = escrow_pda ch (sa_owner acc) \<and>
     sa_batch_record acc = batch_pda ch batch_id \<and>
     batch_records s (sa_batch_record acc) = None \<and>
     sa_mint_authority acc = mint_authority_pda ch \<and>
     mints (tokens s) (sa_solnet_mint acc) \<noteq> None \<and>
     (case token_accounts (tokens s) (sa_node_token_account acc) of
        None \<Rightarrow> False
      | Some ta \<Rightarrow> ta_mint ta = sa_solnet_mint acc \<and> ta_owner ta = sa_owner acc) \<and>
     sa_program_state acc = protocol_state_pda ch"

definition settle_compressed_batch ::
  "chain \<Rightarrow> i64 \<Rightarrow> settle_accounts \<Rightarrow> bytes32 \<Rightarrow> u64 \<Rightarrow> u64 \<Rightarrow> bytes32 \<Rightarrow> ledger \<Rightarrow>
   program_error + ledger" where
  "settle_compressed_batch ch now acc merkle_root total_lamports receipt_count batch_id s =
    (let owner = sa_owner acc; escrow = sa_escrow_account acc in
     and_then (require (settle_accounts_ok ch acc batch_id s) AccountsError) (\<lambda>_.
     and_then (load (node_accounts s) (sa_node_account acc)) (\<lambda>node.
     and_then (load (program_states s) (sa_program_state acc)) (\<lambda>global_state.
     and_then (ok_or (create_account ch (lamports s) owner (sa_batch_record acc) BatchRecord_SPACE)
         AccountsError) (\<lambda>l.
     and_then (require (0 < nd_reputation node) (Sns NodeSlashed)) (\<lambda>_.
     let escrow_balance = l escrow in
     and_then (require (total_lamports \<le> escrow_balance) (Sns InsufficientEscrow)) (\<lambda>_.
     and_then (ok_or (sys_transfer ch [escrow] l escrow owner total_lamports) CpiError) (\<lambda>l'.
     and_then (reward_loop receipt_count (ps_global_request_count global_state) 0)
       (\<lambda>(reward_amount, current_global).
     let global_state' = global_state\<lparr>ps_global_request_count := current_global\<rparr> in
     and_then (ok_or (case pda_with_bump ch [bytes_of ''solnet-mint-authority'']
           (ps_mint_authority_bump global_state) of
         None \<Rightarrow> None
       | Some signer \<Rightarrow> spl_mint_to ch [signer] (tokens s) (sa_solnet_mint acc)
           (sa_node_token_account acc) (sa_mint_authority acc) reward_amount) CpiError) (\<lambda>tok.
     let batch = \<lparr>br_node = sa_node_account acc, br_merkle_root = merkle_root,
           br_total_lamports = total_lamports, br_receipt_count = receipt_count,
           br_settled_at = now\<rparr> in
     and_then (ok_or (checked_add (nd_requests_served node) receipt_count) (Sns Overflow))
       (\<lambda>served.
     let node' = node\<lparr>nd_requests_served := served\<rparr> in
     Inr (s\<lparr>
       lamports := l',
       node_accounts := write_back True (sa_node_account acc) node' (node_accounts s),
       batch_records := write_back True (sa_batch_record acc) batch (batch_records s),
       program_states := write_back settle_program_state_mut (sa_program_state acc)
         global_state' (program_states s),
       tokens := tok,
       events := events s @ [EvBatchSettled (sa_node_account acc) merkle_root total_lamports
         receipt_count reward_amount]\<rparr>))))))))))))"

section \<open>initialize_protocol\<close>

definition initialize_protocol ::
  "chain \<Rightarrow> init_accounts \<Rightarrow> u8 \<Rightarrow> ledger \<Rightarrow> program_error + ledger" where
  "initialize_protocol ch acc mint_authority_bump s =
    (let admin = ia_admin acc; key = ia_program_state acc in
     and_then (require (ia_admin_signed acc \<and> key = protocol_state_pda ch \<and>
         program_states s key = None \<and> mints (tokens s) (ia_solnet_mint acc) \<noteq> None)
         AccountsError) (\<lambda>_.
     and_then (ok_or (create_account ch (lamports s) admin key ProgramState_SPACE)
         AccountsError) (\<lambda>l.
     let state = \<lparr>ps_admin = admin, ps_solnet_mint = ia_solnet_mint acc,
           ps_mint_authority_bump = mint_authority_bump, ps_global_request_count = 0\<rparr> in
     Inr (s\<lparr>lamports := l,
       program_states := write_back True key state (program_states s)\<rparr>))))"

section \<open>stake_for_priority\<close>

definition min_priority_stake :: u64 where
  "min_priority_stake = 1000 * 10 ^ 9"

definition stake_for_priority ::
  "chain \<Rightarrow> stake_accounts \<Rightarrow> u64 \<Rightarrow> ledger \<Rightarrow> program_error + ledger" where
  "stake_for_priority ch acc amount s =
    (let user = ka_user acc in
     and_then (require (ka_user_signed acc \<and> ka_node_account acc = node_pda ch user)
         AccountsError) (\<lambda>_.
     and_then (load (node_accounts s) (ka_node_account acc)) (\<lambda>node.
     and_then (load (token_accounts (tokens s)) (ka_user_token_account acc)) (\<lambda>uta.
     and_then (load (token_accounts (tokens s)) (ka_stake_vault acc)) (\<lambda>vault.
     and_then (require (ta_mint vault = ta_mint uta \<and> ta_owner vault = ka_node_account acc)
         AccountsError) (\<lambda>_.
     and_then (require (min_priority_stake \<le> amount) (Sns InsufficientStake)) (\<lambda>_.
     and_then (require (nd_is_initialized node) (Sns NodeNotFound)) (\<lambda>_.
     and_then (ok_or (spl_transfer ch [user] (tokens s) (ka_user_token_account acc)
         (ka_stake_vault acc) user amount) CpiError) (\<lambda>tok.
     and_then (ok_or (checked_add (nd_stake_amount node) amount) (Sns Overflow)) (\<lambda>stake'.
     let node' = node\<lparr>nd_stake_amount := stake'\<rparr> in
     Inr (s\<lparr>tokens := tok,
       node_accounts := write_back True (ka_node_account acc) node' (node_accounts s)\<rparr>)))))))))))"

section \<open>slash_node\<close>

text \<open>
  The ejection branch of the body: half of the recorded stake goes back to the owner, the rest
  stays in the escrow.
\<close>

definition slash_eject ::
  "chain \<Rightarrow> slash_accounts \<Rightarrow> node_account \<Rightarrow> (pubkey \<Rightarrow> u64) \<Rightarrow>
   program_error + (node_account \<times> (pubkey \<Rightarrow> u64))" where
  "slash_eject ch acc node l =
    (let return_amt = nd_stake_amount node div 2;
         node' = node\<lparr>nd_is_initialized := False, nd_stake_amount := 0\<rparr> in
     if 0 < return_amt
     then and_then (ok_or (sys_transfer ch [la_escrow_account acc] l (la_escrow_account acc)
            (la_owner acc) return_amt) CpiError) (\<lambda>l'. Inr (node', l'))
     else Inr (node', l))"

definition slash_node ::
  "chain \<Rightarrow> i64 \<Rightarrow> slash_accounts \<Rightarrow> string \<Rightarrow> ledger \<Rightarrow> program_error + ledger" where
  "slash_node ch now acc reason s =
    (let owner = la_owner acc in
     and_then (require (la_authority_signed acc \<and>
         la_node_account acc = node_pda ch owner \<and>
         la_escrow_account acc = escrow_pda ch owner) AccountsError) (\<lambda>_.
     and_then (load (node_accounts s) (la_node_account acc)) (\<lambda>node.
     and_then (require (la_authority acc = ADMIN_KEY \<or> la_authority acc = owner)
         (Sns Unauthorized)) (\<lambda>_.
     and_then (require (nd_is_initialized node) (Sns NodeNotFound)) (\<lambda>_.
     and_then (require (\<not> nd_locked node) (Sns Reentrancy)) (\<lambda>_.
     let locked_node = node\<lparr>nd_locked := True\<rparr>;
         prev_rep = nd_reputation locked_node;
         new_rep = saturating_sub prev_rep 20;
         slashed = locked_node\<lparr>nd_reputation := new_rep\<rparr> in
     and_then (if new_rep < 20 then slash_eject ch acc slashed (lamports s)
         else Inr (slashed, lamports s)) (\<lambda>(node', l).
     let node'' = node'\<lparr>nd_locked := False\<rparr> in
     Inr (s\<lparr>lamports := l,
       node_accounts := write_back True (la_node_account acc) node'' (node_accounts s),
       events := events s @ [EvNodeSlashed owner reason prev_rep new_rep now]\<rparr>))))))))"

section \<open>The program as a transition system\<close>

datatype instruction =
    RegisterNode register_accounts string u64
  | SettleCompressedBatch settle_accounts bytes32 u64 u64 bytes32
  | InitializeProtocol init_accounts u8
  | StakeForPriority stake_accounts u64
  | SlashNode slash_accounts string

fun process_instruction :: "chain \<Rightarrow> i64 \<Rightarrow> instruction \<Rightarrow> ledger \<Rightarrow> program_error + ledger" where
  "process_instruction ch now (RegisterNode acc endpoint stake) s =
     register_node ch now acc endpoint stake s"
| "process_instruction ch now (SettleCompressedBatch acc root lam cnt bid) s =
     settle_compressed_batch ch now acc root lam cnt bid s"
| "process_instruction ch now (InitializeProtocol acc bump) s = initialize_protocol ch acc bump s"
| "process_instruction ch now (StakeForPriority acc amount) s = stake_for_priority ch acc amount s"
| "process_instruction ch now (SlashNode acc reason) s = slash_node ch now acc reason s"

text \<open>A failed instruction leaves the ledger as it was.\<close>

definition execute :: "chain \<Rightarrow> (i64 \<times> instruction) \<Rightarrow> ledger \<Rightarrow> ledger" where
  "execute ch tx s = (case process_instruction ch (fst tx) (snd tx) s of Inl e \<Rightarrow> s | Inr s' \<Rightarrow> s')"

abbreviation execute_all :: "chain \<Rightarrow> (i64 \<times> instruction) list \<Rightarrow> ledger \<Rightarrow> ledger" where
  "execute_all ch \<equiv> fold (execute ch)"

text \<open>One successful instruction, as a step relation.\<close>

inductive program_step :: "chain \<Rightarrow> ledger \<Rightarrow> ledger \<Rightarrow> bool" for ch where
  register: "register_node ch now acc endpoint stake s = Inr s' \<Longrightarrow> program_step ch s s'"
| settle: "settle_compressed_batch ch now acc root lam cnt bid s = Inr s' \<Longrightarrow> program_step ch s s'"
| initialize: "initialize_protocol ch acc bump s = Inr s' \<Longrightarrow> program_step ch s s'"
| stake: "stake_for_priority ch acc amount s = Inr s' \<Longrightarrow> program_step ch s s'"
| slash: "slash_node ch now acc reason s = Inr s' \<Longrightarrow> program_step ch s s'"

lemma process_program_step: "process_instruction ch now i s = Inr s' \<Longrightarrow> program_step ch s s'"
  by (cases i) (auto intro: program_step.intros)

lemma execute_step: "execute ch tx s = s \<or> program_step ch s (execute ch tx s)"
  by (auto simp: execute_def process_program_step split: sum.splits)

text \<open>Facts of one successful instruction are facts of \<open>execute\<close>.\<close>

lemma execute_keeps:
  "(\<And>s s'. program_step ch s s' \<Longrightarrow> P s \<Longrightarrow> P s') \<Longrightarrow> P s \<Longrightarrow> P (execute ch tx s)"
  using execute_step [of ch tx s] by auto

lemma execute_rel:
  "(\<And>s. R s s) \<Longrightarrow> (\<And>s s'. program_step ch s s' \<Longrightarrow> R s s') \<Longrightarrow> R s (execute ch tx s)"
  using execute_step [of ch tx s] by auto

end
