(* ===== verification/Program_Safety.thy ===== *)
theory Program_Safety
  imports Program_Instructions
begin

text \<open>
  What the on-chain program guarantees. First what a successful call of each instruction did,
  then the facts over all instructions: lamports are conserved, the node records keep their
  invariant, a batch is settled once, and the request counter that drives the halving is never
  stored.
\<close>

section \<open>What a successful instruction did\<close>

lemmas instruction_defs = and_then_Inr Let_def load_def

lemma register_okE:
  assumes "register_node ch now acc endpoint stake s = Inr s'"
  obtains node l l' where
    "ra_owner_signed acc" "ra_node_account acc = node_pda ch (ra_owner acc)"
    "ra_escrow_account acc = escrow_pda ch (ra_owner acc)"
    "node_accounts s (ra_node_account acc) = Some node \<and> l = lamports s \<or>
     node_accounts s (ra_node_account acc) = None \<and> node = node_account_zero \<and>
     create_account ch (lamports s) (ra_owner acc) (ra_node_account acc) NodeAccount_SPACE = Some l"
    "length endpoint \<le> 100" "100000000 \<le> stake" "\<not> nd_is_initialized node"
    "sys_transfer ch [ra_owner acc] l (ra_owner acc) (ra_escrow_account acc) stake = Some l'"
    "s' = s\<lparr>lamports := l', node_accounts := (node_accounts s)(ra_node_account acc \<mapsto>
       node\<lparr>nd_owner := ra_owner acc, nd_endpoint := endpoint, nd_stake_amount := stake,
         nd_reputation := 100, nd_registered_at := now, nd_requests_served := 0,
         nd_is_initialized := True, nd_locked := False\<rparr>),
       events := events s @ [EvNodeRegistered (ra_owner acc) endpoint stake now]\<rparr>"
  using assms
  by (auto simp: register_node_def instruction_defs write_back_def split: option.splits)

lemma settle_okE:
  assumes "settle_compressed_batch ch now acc root lam cnt bid s = Inr s'"
  obtains node gs l l' reward count' tok served where
    "settle_accounts_ok ch acc bid s"
    "node_accounts s (sa_node_account acc) = Some node"
    "program_states s (sa_program_state acc) = Some gs"
    "create_account ch (lamports s) (sa_owner acc) (sa_batch_record acc) BatchRecord_SPACE = Some l"
    "0 < nd_reputation node" "lam \<le> l (sa_escrow_account acc)"
    "sys_transfer ch [sa_escrow_account acc] l (sa_escrow_account acc) (sa_owner acc) lam = Some l'"
    "reward_loop cnt (ps_global_request_count gs) 0 = Inr (reward, count')"
    "checked_add (nd_requests_served node) cnt = Some served"
    "s' = s\<lparr>lamports := l',
       node_accounts := (node_accounts s)(sa_node_account acc \<mapsto> node\<lparr>nd_requests_served := served\<rparr>),
       batch_records := (batch_records s)(sa_batch_record acc \<mapsto>
         \<lparr>br_node = sa_node_account acc, br_merkle_root = root, br_total_lamports = lam,
           br_receipt_count = cnt, br_settled_at = now\<rparr>),
       tokens := tok,
       events := events s @ [EvBatchSettled (sa_node_account acc) root lam cnt reward]\<rparr>"
  using assms
  by (auto simp: settle_compressed_batch_def instruction_defs write_back_def
      settle_program_state_mut_def)

lemma initialize_okE:
  assumes "initialize_protocol ch acc bump s = Inr s'"
  obtains l where
    "ia_program_state acc = protocol_state_pda ch" "program_states s (ia_program_state acc) = None"
    "create_account ch (lamports s) (ia_admin acc) (ia_program_state acc) ProgramState_SPACE = Some l"
    "s' = s\<lparr>lamports := l, program_states := (program_states s)(ia_program_state acc \<mapsto>
       \<lparr>ps_admin = ia_admin acc, ps_solnet_mint = ia_solnet_mint acc,
         ps_mint_authority_bump = bump, ps_global_request_count = 0\<rparr>)\<rparr>"
  using assms by (auto simp: initialize_protocol_def instruction_defs write_back_def)

lemma stake_okE:
  assumes "stake_for_priority ch acc amount s = Inr s'"
  obtains node tok stake' where
    "ka_user_signed acc" "ka_node_account acc = node_pda ch (ka_user acc)"
    "node_accounts s (ka_node_account acc) = Some node" "min_priority_stake \<le> amount"
    "nd_is_initialized node" "checked_add (nd_stake_amount node) amount = Some stake'"
    "s' = s\<lparr>tokens := tok, node_accounts := (node_accounts s)(ka_node_account acc \<mapsto>
       node\<lparr>nd_stake_amount := stake'\<rparr>)\<rparr>"
  using assms by (auto simp: stake_for_priority_def instruction_defs write_back_def)

text \<open>The node a slash leaves behind, and the lamports of the ejection.\<close>

definition slashed_node :: "node_account \<Rightarrow> node_account" where
  "slashed_node n =
     (let rep = saturating_sub (nd_reputation n) 20 in
      if rep < 20
      then n\<lparr>nd_reputation := rep, nd_is_initialized := False, nd_stake_amount := 0, nd_locked := False\<rparr>
      else n\<lparr>nd_reputation := rep, nd_locked := False\<rparr>)"

lemma slash_okE:
  assumes "slash_node ch now acc reason s = Inr s'"
  obtains node l where
    "la_authority_signed acc" "la_authority acc = ADMIN_KEY \<or> la_authority acc = la_owner acc"
    "la_node_account acc = node_pda ch (la_owner acc)"
    "la_escrow_account acc = escrow_pda ch (la_owner acc)"
    "node_accounts s (la_node_account acc) = Some node"
    "nd_is_initialized node" "\<not> nd_locked node"
    "l = lamports s \<or> sys_transfer ch [la_escrow_account acc] (lamports s) (la_escrow_account acc)
       (la_owner acc) (nd_stake_amount node div 2) = Some l"
    "s' = s\<lparr>lamports := l,
       node_accounts := (node_accounts s)(la_node_account acc \<mapsto> slashed_node node),
       events := events s @ [EvNodeSlashed (la_owner acc) reason (nd_reputation node)
         (saturating_sub (nd_reputation node) 20) now]\<rparr>"
proof -
  obtain node node' l where
    ok: "la_authority_signed acc" "la_authority acc = ADMIN_KEY \<or> la_authority acc = la_owner acc"
      "la_node_account acc = node_pda ch (la_owner acc)"
      "la_escrow_account acc = escrow_pda ch (la_owner acc)"
      "node_accounts s (la_node_account acc) = Some node"
      "nd_is_initialized node" "\<not> nd_locked node" and
    body: "(if saturating_sub (nd_reputation node) 20 < 20
        then slash_eject ch acc (node\<lparr>nd_locked := True, nd_reputation := saturating_sub (nd_reputation node) 20\<rparr>)
          (lamports s)
        else Inr (node\<lparr>nd_locked := True, nd_reputation := saturating_sub (nd_reputation node) 20\<rparr>,
          lamports s)) = Inr (node', l)" and
    s': "s' = s\<lparr>lamports := l,
       node_accounts := (node_accounts s)(la_node_account acc \<mapsto> node'\<lparr>nd_locked := False\<rparr>),
       events := events s @ [EvNodeSlashed (la_owner acc) reason (nd_reputation node)
         (saturating_sub (nd_reputation node) 20) now]\<rparr>"
    using assms by (auto simp: slash_node_def instruction_defs write_back_def cong: if_cong)
  have "node'\<lparr>nd_locked := False\<rparr> = slashed_node node"
    and "l = lamports s \<or> sys_transfer ch [la_escrow_account acc] (lamports s) (la_escrow_account acc)
       (la_owner acc) (nd_stake_amount node div 2) = Some l"
    using body by (auto simp: slash_eject_def slashed_node_def Let_def and_then_Inr split: if_splits)
  with ok s' that show thesis by simp
qed

section \<open>Lamports\<close>

text \<open>The accounts whose lamports an instruction may change.\<close>

fun lamport_keys :: "instruction \<Rightarrow> pubkey set" where
  "lamport_keys (RegisterNode acc _ _) = {ra_owner acc, ra_node_account acc, ra_escrow_account acc}"
| "lamport_keys (SettleCompressedBatch acc _ _ _ _) =
     {sa_owner acc, sa_escrow_account acc, sa_batch_record acc}"
| "lamport_keys (InitializeProtocol acc _) = {ia_admin acc, ia_program_state acc}"
| "lamport_keys (StakeForPriority _ _) = {}"
| "lamport_keys (SlashNode acc _) = {la_owner acc, la_escrow_account acc}"

lemma transfer_sum:
  "transfer_law ch \<Longrightarrow> sys_transfer ch sg l from to amt = Some l' \<Longrightarrow> finite A \<Longrightarrow>
   from \<in> A \<Longrightarrow> to \<in> A \<Longrightarrow> lamport_sum A l' = lamport_sum A l"
  by (rule moved_sum [OF transfer_lawD])

lemma create_sum:
  "creation_law ch \<Longrightarrow> create_account ch l payer new space = Some l' \<Longrightarrow> finite A \<Longrightarrow>
   payer \<in> A \<Longrightarrow> new \<in> A \<Longrightarrow> lamport_sum A l' = lamport_sum A l"
  by (auto dest: creation_lawD intro: moved_sum)

lemma process_lamports:
  assumes "transfer_law ch" "creation_law ch" "process_instruction ch now i s = Inr s'"
    and "finite A" "lamport_keys i \<subseteq> A"
  shows "lamport_sum A (lamports s') = lamport_sum A (lamports s)"
proof (cases i)
  case (RegisterNode acc endpoint stake)
  with assms(3) have "register_node ch now acc endpoint stake s = Inr s'" by simp
  then show ?thesis
    by (rule register_okE) (use assms RegisterNode in \<open>auto simp: transfer_sum create_sum\<close>)
next
  case (SettleCompressedBatch acc root lam cnt bid)
  with assms(3) have "settle_compressed_batch ch now acc root lam cnt bid s = Inr s'" by simp
  then show ?thesis
    by (rule settle_okE) (use assms SettleCompressedBatch in \<open>auto simp: transfer_sum create_sum\<close>)
next
  case (InitializeProtocol acc bump)
  with assms(3) have "initialize_protocol ch acc bump s = Inr s'" by simp
  then show ?thesis
    by (rule initialize_okE) (use assms InitializeProtocol in \<open>auto simp: create_sum\<close>)
next
  case (StakeForPriority acc amount)
  with assms(3) have "stake_for_priority ch acc amount s = Inr s'" by simp
  then show ?thesis by (rule stake_okE) simp
next
  case (SlashNode acc reason)
  with assms(3) have "slash_node ch now acc reason s = Inr s'" by simp
  then show ?thesis
    by (rule slash_okE) (use assms SlashNode in \<open>auto simp: transfer_sum\<close>)
qed

section \<open>Node records\<close>

text \<open>
  Reputation moves in steps of 20 between 0 and 100; a record is initialised exactly when its
  reputation is positive, only then holds a stake, never stays locked, and its endpoint fits.
\<close>

definition node_ok :: "node_account \<Rightarrow> bool" where
  "node_ok n \<longleftrightarrow>
     nd_reputation n \<in> {0, 20, 40, 60, 80, 100} \<and>
     (nd_is_initialized n \<longleftrightarrow> 0 < nd_reputation n) \<and>
     (\<not> nd_is_initialized n \<longrightarrow> nd_stake_amount n = 0) \<and>
     (nd_is_initialized n \<longrightarrow> 100000000 \<le> nd_stake_amount n) \<and>
     \<not> nd_locked n \<and> length (nd_endpoint n) \<le> 100"

definition nodes_ok :: "ledger \<Rightarrow> bool" where
  "nodes_ok s \<longleftrightarrow> (\<forall>k n. node_accounts s k = Some n \<longrightarrow> node_ok n)"

lemma slashed_node_ok: "node_ok n \<Longrightarrow> nd_is_initialized n \<Longrightarrow> node_ok (slashed_node n)"
  by (auto simp: node_ok_def slashed_node_def saturating_sub_def Let_def)

lemma staked_node_ok:
  "node_ok n \<Longrightarrow> nd_is_initialized n \<Longrightarrow> checked_add (nd_stake_amount n) a = Some st \<Longrightarrow>
   node_ok (n\<lparr>nd_stake_amount := st\<rparr>)"
  by (auto simp: node_ok_def word_le_nat_alt dest!: checked_add_unat)

lemma program_step_nodes_ok: "program_step ch s s' \<Longrightarrow> nodes_ok s \<Longrightarrow> nodes_ok s'"
proof (induction rule: program_step.induct)
  case (register now acc endpoint stake s s')
  from register(1) show ?case
    by (rule register_okE) (use register(2) in \<open>auto simp: nodes_ok_def node_ok_def\<close>)
next
  case (settle now acc root lam cnt bid s s')
  from settle(1) show ?case
    by (rule settle_okE) (use settle(2) in \<open>auto simp: nodes_ok_def node_ok_def\<close>)
next
  case (initialize acc bump s s')
  from initialize(1) show ?case
    by (rule initialize_okE) (use initialize(2) in \<open>auto simp: nodes_ok_def\<close>)
next
  case (stake acc amount s s')
  from stake(1) show ?case
    by (rule stake_okE)
      (use stake(2) in \<open>auto simp: nodes_ok_def staked_node_ok\<close>)
next
  case (slash now acc reason s s')
  from slash(1) show ?case
    by (rule slash_okE) (use slash(2) in \<open>auto simp: nodes_ok_def slashed_node_ok\<close>)
qed

interpretation node_records: step_invariant "execute ch" nodes_ok for ch
  by unfold_locales (blast intro: execute_keeps program_step_nodes_ok)

lemma node_ok_size: "node_ok n \<Longrightarrow> node_account_size n \<le> NodeAccount_SPACE"
  by (simp add: node_ok_def node_account_size_def NodeAccount_SPACE_def)

section \<open>Batches\<close>

text \<open>A batch record, once written, is never changed or removed.\<close>

definition batches_kept :: "ledger \<Rightarrow> ledger \<Rightarrow> bool" where
  "batches_kept s t \<longleftrightarrow> (\<forall>k b. batch_records s k = Some b \<longrightarrow> batch_records t k = Some b)"

lemma program_step_batches: "program_step ch s s' \<Longrightarrow> batches_kept s s'"
proof (induction rule: program_step.induct)
  case (settle now acc root lam cnt bid s s')
  then show ?case by (rule settle_okE) (auto simp: batches_kept_def settle_accounts_ok_def)
qed (auto simp: batches_kept_def elim!: register_okE initialize_okE stake_okE slash_okE)

interpretation batch_log: step_monotone "execute ch" batches_kept for ch
proof unfold_locales
  show "batches_kept s s" for s by (simp add: batches_kept_def)
  show "batches_kept s t \<Longrightarrow> batches_kept t u \<Longrightarrow> batches_kept s u" for s t u
    by (auto simp: batches_kept_def)
  show "batches_kept s (execute ch e s)" for s e
    by (rule execute_rel) (auto simp: batches_kept_def dest: program_step_batches)
qed

lemma settle_twice_fails:
  "batch_records s (batch_pda ch bid) \<noteq> None \<Longrightarrow>
   settle_compressed_batch ch now acc root lam cnt bid s = Inl AccountsError"
  by (auto simp: settle_compressed_batch_def settle_accounts_ok_def require_def Let_def)

section \<open>The request counter\<close>

text \<open>\<open>program_state\<close> is not written back, so a stored counter never leaves zero.\<close>

definition counters_zero :: "ledger \<Rightarrow> bool" where
  "counters_zero s \<longleftrightarrow> (\<forall>k ps. program_states s k = Some ps \<longrightarrow> ps_global_request_count ps = 0)"

lemma program_step_counters: "program_step ch s s' \<Longrightarrow> counters_zero s \<Longrightarrow> counters_zero s'"
  by (induction rule: program_step.induct)
    (auto simp: counters_zero_def elim!: register_okE settle_okE initialize_okE stake_okE slash_okE
      split: if_splits)

interpretation request_counter: step_invariant "execute ch" counters_zero for ch
  by unfold_locales (blast intro: execute_keeps program_step_counters)

end
