(* ===== verification/Program_Chain_Example.thy ===== *)
theory Program_Chain_Example
  imports Program_Safety
begin

text \<open>
  A concrete chain that satisfies the laws of \<open>Program_State\<close>: program addresses are an
  injective encoding of their seeds, transfers and mints check signatures and balances, and an
  account costs a rent of 10 lamports. The witnesses run the program on it.
\<close>

fun encode_seeds :: "seeds \<Rightarrow> pubkey" where
  "encode_seeds [] = []"
| "encode_seeds ([] # ss) = 0 # encode_seeds ss"
| "encode_seeds ((b # bs) # ss) = 1 # b # encode_seeds (bs # ss)"

lemma encode_seeds_inj: "encode_seeds a = encode_seeds b \<Longrightarrow> a = b"
proof (induction a arbitrary: b rule: encode_seeds.induct)
  case 1
  then show ?case by (cases b rule: encode_seeds.cases) auto
next
  case (2 ss)
  then show ?case by (cases b rule: encode_seeds.cases) auto
next
  case (3 c cs ss)
  then show ?case by (cases b rule: encode_seeds.cases) auto
qed

definition example_move :: "(pubkey \<Rightarrow> u64) \<Rightarrow> pubkey \<Rightarrow> pubkey \<Rightarrow> u64 \<Rightarrow> (pubkey \<Rightarrow> u64) option" where
  "example_move l from to amt =
     (if l from < amt then None
      else if from = to then Some l
      else if 2 ^ 64 \<le> unat (l to) + unat amt then None
      else Some (l(from := l from - amt, to := l to + amt)))"

definition example_transfer ::
  "pubkey list \<Rightarrow> (pubkey \<Rightarrow> u64) \<Rightarrow> pubkey \<Rightarrow> pubkey \<Rightarrow> u64 \<Rightarrow> (pubkey \<Rightarrow> u64) option" where
  "example_transfer signers l from to amt =
     (if from \<in> set signers then example_move l from to amt else None)"

definition example_mint_to ::
  "pubkey list \<Rightarrow> token_state \<Rightarrow> pubkey \<Rightarrow> pubkey \<Rightarrow> pubkey \<Rightarrow> u64 \<Rightarrow> token_state option" where
  "example_mint_to signers t mint to authority amt =
     (if authority \<notin> set signers then None
      else case (mints t mint, token_accounts t to) of
        (Some supply, Some ta) \<Rightarrow>
          (if ta_mint ta \<noteq> mint \<or> 2 ^ 64 \<le> unat supply + unat amt then None
           else Some (t\<lparr>mints := (mints t)(mint \<mapsto> supply + amt),
             token_accounts := (token_accounts t)(to \<mapsto> ta\<lparr>ta_amount := ta_amount ta + amt\<rparr>)\<rparr>))
      | _ \<Rightarrow> None)"

definition example_spl_transfer ::
  "pubkey list \<Rightarrow> token_state \<Rightarrow> pubkey \<Rightarrow> pubkey \<Rightarrow> pubkey \<Rightarrow> u64 \<Rightarrow> token_state option" where
  "example_spl_transfer signers t from to authority amt =
     (case (token_accounts t from, token_accounts t to) of
        (Some a, Some b) \<Rightarrow>
          (if authority \<notin> set signers \<or> ta_owner a \<noteq> authority \<or> ta_amount a < amt \<or> from = to
           then None
           else Some (t\<lparr>token_accounts := (token_accounts t)(
             from \<mapsto> a\<lparr>ta_amount := ta_amount a - amt\<rparr>,
             to \<mapsto> b\<lparr>ta_amount := ta_amount b + amt\<rparr>)\<rparr>))
      | _ \<Rightarrow> None)"

definition example_chain :: chain where
  "example_chain = \<lparr>
     find_pda = encode_seeds,
     pda_with_bump = (\<lambda>ss bump. if bump = 254 then Some (encode_seeds ss) else None),
     sys_transfer = example_transfer,
     create_account = (\<lambda>l payer new space. example_move l payer new 10),
     spl_mint_to = example_mint_to,
     spl_transfer = example_spl_transfer\<rparr>"

lemma example_move_moved: "example_move l from to amt = Some l' \<Longrightarrow> moved l from to amt l'"
  by (auto simp: example_move_def moved_def split: if_splits)

lemma example_transfer_law: "transfer_law example_chain"
  by (auto simp: transfer_law_def example_chain_def example_transfer_def example_move_moved
      split: if_splits)

lemma example_creation_law: "creation_law example_chain"
  unfolding creation_law_def example_chain_def by (auto dest: example_move_moved)

lemma example_pda_law: "pda_law example_chain"
  by (auto simp: pda_law_def example_chain_def intro: injI encode_seeds_inj)

text \<open>A wallet with ten SOL, the mint and the wallet's token account.\<close>

definition alice :: pubkey where "alice = [7]"
definition the_mint :: pubkey where "the_mint = [8]"
definition alice_tokens :: pubkey where "alice_tokens = [9]"

text \<open>The program's addresses for that wallet, kept as constants that differ.\<close>

definition k_node :: pubkey where "k_node = node_pda example_chain alice"
definition k_escrow :: pubkey where "k_escrow = escrow_pda example_chain alice"
definition k_batch :: "bytes32 \<Rightarrow> pubkey" where "k_batch bid = batch_pda example_chain bid"
definition k_auth :: pubkey where "k_auth = mint_authority_pda example_chain"
definition k_state :: pubkey where "k_state = protocol_state_pda example_chain"

lemmas k_fold = k_node_def [symmetric] k_escrow_def [symmetric] k_batch_def [symmetric]
  k_auth_def [symmetric] k_state_def [symmetric]

lemmas pda_defs = node_pda_def escrow_pda_def batch_pda_def mint_authority_pda_def
  protocol_state_pda_def bytes_of_def

lemma k_distinct [simp]:
  "k_node \<noteq> k_escrow" "k_escrow \<noteq> k_node" "k_node \<noteq> k_batch b" "k_batch b \<noteq> k_node"
  "k_escrow \<noteq> k_batch b" "k_batch b \<noteq> k_escrow" "k_state \<noteq> k_node" "k_node \<noteq> k_state"
  "k_state \<noteq> k_escrow" "k_escrow \<noteq> k_state" "k_state \<noteq> k_batch b" "k_batch b \<noteq> k_state"
  "alice \<noteq> k_node" "k_node \<noteq> alice" "alice \<noteq> k_escrow" "k_escrow \<noteq> alice"
  "alice \<noteq> k_batch b" "k_batch b \<noteq> alice" "alice \<noteq> k_state" "k_state \<noteq> alice"
  "the_mint \<noteq> alice_tokens" "alice_tokens \<noteq> the_mint"
  by (simp_all add: k_node_def k_escrow_def k_batch_def k_state_def pda_defs example_chain_def
      alice_def the_mint_def alice_tokens_def)

lemma k_batch_eq [simp]: "k_batch b = k_batch c \<longleftrightarrow> b = c"
  by (simp add: k_batch_def pda_simps [OF example_pda_law])

lemma example_pda_with_bump:
  "pda_with_bump example_chain [bytes_of ''solnet-mint-authority''] 254 = Some k_auth"
  by (simp add: example_chain_def k_auth_def mint_authority_pda_def)

lemma example_chain_calls:
  "sys_transfer example_chain = example_transfer"
  "create_account example_chain = (\<lambda>l payer new space. example_move l payer new 10)"
  "spl_mint_to example_chain = example_mint_to"
  by (simp_all add: example_chain_def)

definition genesis :: ledger where
  "genesis = \<lparr>
     lamports = (\<lambda>k. if k = alice then 10000000000 else 0),
     node_accounts = Map.empty, batch_records = Map.empty, program_states = Map.empty,
     tokens = \<lparr>mints = [the_mint \<mapsto> 0],
       token_accounts = [alice_tokens \<mapsto> \<lparr>ta_mint = the_mint, ta_owner = alice, ta_amount = 0\<rparr>]\<rparr>,
     events = []\<rparr>"

definition tx_initialize :: "i64 \<times> instruction" where
  "tx_initialize = (1, InitializeProtocol
     \<lparr>ia_admin = alice, ia_admin_signed = True,
      ia_program_state = protocol_state_pda example_chain, ia_solnet_mint = the_mint\<rparr> 254)"

definition tx_register :: "i64 \<times> instruction" where
  "tx_register = (2, RegisterNode
     \<lparr>ra_owner = alice, ra_owner_signed = True, ra_node_account = node_pda example_chain alice,
      ra_escrow_account = escrow_pda example_chain alice\<rparr> ''http://n'' 200000000)"

definition settle_acc :: "bytes32 \<Rightarrow> settle_accounts" where
  "settle_acc bid = \<lparr>sa_owner = alice, sa_owner_signed = True,
     sa_node_account = node_pda example_chain alice,
     sa_escrow_account = escrow_pda example_chain alice,
     sa_batch_record = batch_pda example_chain bid,
     sa_mint_authority = mint_authority_pda example_chain,
     sa_solnet_mint = the_mint, sa_node_token_account = alice_tokens,
     sa_program_state = protocol_state_pda example_chain\<rparr>"

definition tx_settle :: "bytes32 \<Rightarrow> u64 \<Rightarrow> u64 \<Rightarrow> i64 \<times> instruction" where
  "tx_settle bid lam cnt = (3, SettleCompressedBatch (settle_acc bid) [1] lam cnt bid)"

definition slash_acc :: slash_accounts where
  "slash_acc = \<lparr>la_authority = ADMIN_KEY, la_authority_signed = True, la_owner = alice,
     la_program_authority = [0], la_node_account = node_pda example_chain alice,
     la_escrow_account = escrow_pda example_chain alice\<rparr>"

definition tx_slash :: "i64 \<times> instruction" where
  "tx_slash = (4, SlashNode slash_acc ''offline'')"

lemmas example_defs = example_transfer_def example_move_def example_mint_to_def
  genesis_def tx_initialize_def tx_register_def
  settle_acc_def tx_settle_def slash_acc_def tx_slash_def

lemmas run_defs = execute_def initialize_protocol_def register_node_def
  settle_compressed_batch_def settle_accounts_ok_def slash_node_def slash_eject_def
  NodeAccount_SPACE_def BatchRecord_SPACE_def ProgramState_SPACE_def write_back_def load_def
  node_account_zero_def settle_program_state_mut_def saturating_sub_def checked_add_def
  Let_def example_defs k_fold example_chain_calls example_pda_with_bump

definition example_node :: node_account where
  "example_node = \<lparr>nd_owner = alice, nd_endpoint = ''http://n'', nd_stake_amount = 200000000,
     nd_reputation = 100, nd_registered_at = 2, nd_requests_served = 0,
     nd_is_initialized = True, nd_locked = False, nd_last_receipt_nonce = 0\<rparr>"

text \<open>The ledger once the protocol is initialised and the wallet's node registered.\<close>

definition registered_ledger :: ledger where
  "registered_ledger = \<lparr>
     lamports = ((lamports genesis)(alice := 9799999980, k_state := 10, k_node := 10,
       k_escrow := 200000000)),
     node_accounts = [k_node \<mapsto> example_node], batch_records = Map.empty,
     program_states = [k_state \<mapsto> \<lparr>ps_admin = alice, ps_solnet_mint = the_mint,
       ps_mint_authority_bump = 254, ps_global_request_count = 0\<rparr>],
     tokens = tokens genesis,
     events = [EvNodeRegistered alice ''http://n'' 200000000 2]\<rparr>"

lemma example_registered:
  "execute_all example_chain [tx_initialize, tx_register] genesis = registered_ledger"
  by (simp add: run_defs registered_ledger_def example_node_def fun_upd_twist)

end
