(* ===== verification/Program_Properties.thy ===== *)
theory Program_Properties
  imports Program_Chain_Example
begin

text \<open>
  The properties of the on-chain program, each with a run of the example chain on which its
  hypotheses hold.
\<close>

section \<open>Lemmas for the properties\<close>

lemma settle_reward_event:
  assumes "settle_compressed_batch ch now acc root lam cnt bid s = Inr s'" and "counters_zero s"
    and "unat cnt \<le> request_cap"
  shows "events s' = events s @ [EvBatchSettled (sa_node_account acc) root lam cnt
     (of_nat (reward_sum 0 (unat cnt)))]"
  using assms(1)
proof (rule settle_okE)
  fix node gs l l' reward count' tok served
  assume gs: "program_states s (sa_program_state acc) = Some gs"
    and loop: "reward_loop cnt (ps_global_request_count gs) 0 = Inr (reward, count')"
    and s': "s' = s\<lparr>lamports := l',
       node_accounts := (node_accounts s)(sa_node_account acc \<mapsto> node\<lparr>nd_requests_served := served\<rparr>),
       batch_records := (batch_records s)(sa_batch_record acc \<mapsto>
         \<lparr>br_node = sa_node_account acc, br_merkle_root = root, br_total_lamports = lam,
           br_receipt_count = cnt, br_settled_at = now\<rparr>),
       tokens := tok,
       events := events s @ [EvBatchSettled (sa_node_account acc) root lam cnt reward]\<rparr>"
  have "ps_global_request_count gs = 0" using assms(2) gs by (auto simp: counters_zero_def)
  with loop reward_loop_total [of 0 cnt] assms(3) have "reward = of_nat (reward_sum 0 (unat cnt))"
    by auto
  with s' show ?thesis by simp
qed

lemma settle_batch_record:
  assumes "settle_compressed_batch ch now acc root lam cnt bid s = Inr s'"
  shows "batch_records s' (batch_pda ch bid) =
    Some \<lparr>br_node = sa_node_account acc, br_merkle_root = root, br_total_lamports = lam,
      br_receipt_count = cnt, br_settled_at = now\<rparr>"
  using assms by (rule settle_okE) (auto simp: settle_accounts_ok_def)

lemma execute_lamports:
  assumes "transfer_law ch" "creation_law ch" "finite A" "lamport_keys (snd tx) \<subseteq> A"
  shows "lamport_sum A (lamports (execute ch tx s)) = lamport_sum A (lamports s)"
  using assms process_lamports by (auto simp: execute_def split: sum.splits)

lemma request_reward_antimono: "g \<le> h \<Longrightarrow> request_reward h \<le> request_reward g"
proof -
  assume "g \<le> h"
  then have "g div 100000000 \<le> h div 100000000" by (rule div_le_mono)
  then show ?thesis
    by (auto simp: request_reward_def Let_def intro!: div_le_mono2 power_increasing)
qed

lemma reward_sum_shift_le: "reward_sum g n \<le> reward_sum 0 n"
proof -
  have "reward_sum g n = (\<Sum>i < n. request_reward (g + i))"
    unfolding reward_sum_def using sum.shift_bounds_nat_ivl [of request_reward 0 g n]
    by (simp add: atLeast0LessThan add.commute)
  also have "\<dots> \<le> (\<Sum>i < n. request_reward i)"
    by (rule sum_mono) (auto intro: request_reward_antimono)
  finally show ?thesis by (simp add: reward_sum_def atLeast0LessThan)
qed

section \<open>Rewards\<close>

text \<open>C1: the reward loop of \<open>settle_compressed_batch\<close> terminates and computes exactly the
  sum of the per-request rewards over the global request numbers the batch covers (10 SOLNET
  halved every 100 million requests), advances the counter by the batch size, and stays below
  two billion SOLNET, so neither of its overflow checks can fire, whatever the batch, as long as
  the counter stays below the largest representable halving point.\<close>

theorem settle_reward_closed_form:
  assumes "unat current + unat receipts \<le> request_cap"
  shows "reward_loop receipts current 0 =
      Inr (of_nat (reward_sum (unat current) (unat receipts)), current + receipts) \<and>
    reward_sum (unat current) (unat receipts) \<le> 2000000000 * 10 ^ 9"
  using reward_loop_total [OF assms] reward_sum_bound by simp_all

text \<open>Two eras in one batch: the first hundred million at 10, the rest at 5.\<close>

theorem settle_reward_closed_form_witness:
  "reward_loop 150000000 0 0 = Inr (of_nat (reward_sum 0 150000000), 150000000) \<and>
   reward_sum 0 150000000 = 1250000000 * 10 ^ 9"
proof -
  have "reward_sum 0 150000000 = reward_sum 0 100000000 + reward_sum 100000000 50000000"
    using reward_sum_split [of 0 100000000 50000000] by simp
  also have "\<dots> = 1250000000 * 10 ^ 9"
    by (simp add: reward_sum_within_era request_reward_def)
  finally have "reward_sum 0 150000000 = 1250000000 * 10 ^ 9" .
  moreover have "unat (0::u64) + unat (150000000::u64) \<le> request_cap"
    by (simp add: request_cap_def)
  from settle_reward_closed_form [OF this]
  have "reward_loop 150000000 0 0 = Inr (of_nat (reward_sum 0 150000000), 150000000)" by simp
  ultimately show ?thesis by simp
qed

text \<open>C2: the halving never takes effect. In any run that starts with no stored request count,
  every later settlement is paid as if its receipts were the very first ones: its reward is the
  sum from request 0 on, and it is at least the reward the requests would earn at any later
  position of the schedule. The cause is that \<open>program_state\<close> is not \<open>mut\<close> in
  \<open>SettleCompressedBatch\<close>, so the advanced counter is not written back.\<close>

theorem halving_never_applies:
  assumes "counters_zero s0"
    and "settle_compressed_batch ch now acc root lam cnt bid (execute_all ch txs s0) = Inr s'"
    and "unat cnt \<le> request_cap"
  shows "events s' = events (execute_all ch txs s0) @
      [EvBatchSettled (sa_node_account acc) root lam cnt (of_nat (reward_sum 0 (unat cnt)))] \<and>
    counters_zero s' \<and> reward_sum g (unat cnt) \<le> reward_sum 0 (unat cnt)"
proof -
  have zero: "counters_zero (execute_all ch txs s0)"
    using assms(1) by (rule request_counter.run_keeps)
  have "counters_zero s'"
    using program_step_counters [OF program_step.settle [OF assms(2)] zero] .
  with settle_reward_event [OF assms(2) zero assms(3)] reward_sum_shift_le [of g "unat cnt"]
  show ?thesis by blast
qed

text \<open>Two batches of a hundred million receipts: both are paid a billion SOLNET.\<close>

lemma example_loop: "reward_loop 100000000 0 0 = Inr (1000000000000000000, 100000000)"
proof -
  have "reward_sum 0 100000000 = 1000000000000000000"
    by (simp add: reward_sum_within_era request_reward_def)
  then show ?thesis using reward_loop_total [of 0 100000000] by (simp add: request_cap_def)
qed

theorem halving_never_applies_witness:
  "\<exists>s'. settle_compressed_batch example_chain 3 (settle_acc [6]) [1] 0 100000000 [6]
       (execute_all example_chain [tx_settle [5] 0 100000000] registered_ledger) = Inr s' \<and>
   tl (events s') = [EvBatchSettled k_node [1] 0 100000000 1000000000000000000,
     EvBatchSettled k_node [1] 0 100000000 1000000000000000000] \<and> counters_zero s'"
proof -
  let ?s = "execute_all example_chain [tx_settle [5] 0 100000000] registered_ledger"
  obtain s' where s': "settle_compressed_batch example_chain 3 (settle_acc [6]) [1] 0 100000000 [6] ?s = Inr s'"
      and rewards: "tl (events s') = [EvBatchSettled k_node [1] 0 100000000 1000000000000000000,
        EvBatchSettled k_node [1] 0 100000000 1000000000000000000]"
    by (simp add: run_defs registered_ledger_def example_node_def example_loop)
  have "counters_zero registered_ledger" by (simp add: counters_zero_def registered_ledger_def)
  moreover have "unat (100000000 :: u64) \<le> request_cap" by (simp add: request_cap_def)
  ultimately have "counters_zero s'"
    using halving_never_applies [OF _ s', of 0] by blast
  with s' rewards show ?thesis by blast
qed

section \<open>Lamports\<close>


definition example_keys :: "pubkey set" where
  "example_keys = {alice, node_pda example_chain alice, escrow_pda example_chain alice,
     protocol_state_pda example_chain, batch_pda example_chain [5]}"


section \<open>Node records\<close>

text \<open>C4: in every ledger reachable by instructions from one whose node records are well formed,
  every node record is well formed: its reputation is a multiple of 20 up to 100, it is
  initialised exactly when the reputation is positive and then holds at least the minimum
  stake, it is never left locked, and it fits the space its account was created with.\<close>

theorem node_records_wellformed:
  assumes "nodes_ok s" and "node_accounts (execute_all ch txs s) k = Some n"
  shows "node_ok n \<and> node_account_size n \<le> NodeAccount_SPACE"
proof -
  have "nodes_ok (execute_all ch txs s)" using assms(1) by (rule node_records.run_keeps)
  with assms(2) have "node_ok n" by (auto simp: nodes_ok_def)
  then show ?thesis by (simp add: node_ok_size)
qed

theorem node_records_wellformed_witness: "node_ok example_node \<and> node_account_size example_node \<le> 179"
proof -
  have "nodes_ok genesis" by (simp add: nodes_ok_def genesis_def)
  moreover have "node_accounts (execute_all example_chain [tx_initialize, tx_register] genesis)
      (node_pda example_chain alice) = Some example_node"
    by (subst example_registered) (simp add: registered_ledger_def k_fold)
  ultimately show ?thesis
    using node_records_wellformed [of genesis example_chain "[tx_initialize, tx_register]"]
    by (auto simp: NodeAccount_SPACE_def)
qed

section \<open>Settlement\<close>

text \<open>C5: a batch is settled at most once. After a successful settlement of a batch id, whatever
  instructions follow, its record stays as it was written and every further settlement of the
  same id fails.\<close>

theorem batch_settled_once:
  assumes "settle_compressed_batch ch now acc root lam cnt bid s = Inr s1"
  shows "batch_records (execute_all ch txs s1) (batch_pda ch bid) =
      Some \<lparr>br_node = sa_node_account acc, br_merkle_root = root, br_total_lamports = lam,
        br_receipt_count = cnt, br_settled_at = now\<rparr> \<and>
    settle_compressed_batch ch now' acc' root' lam' cnt' bid (execute_all ch txs s1) =
      Inl AccountsError"
proof -
  have "batches_kept s1 (execute_all ch txs s1)" by (rule batch_log.run_rel)
  with settle_batch_record [OF assms] settle_twice_fails show ?thesis
    by (simp add: batches_kept_def)
qed

theorem batch_settled_once_witness:
  "\<exists>s1. settle_compressed_batch example_chain 3 (settle_acc [5]) [1] 200000000 0 [5]
       registered_ledger = Inr s1 \<and>
     settle_compressed_batch example_chain 9 (settle_acc [5]) [2] 0 7 [5]
       (execute_all example_chain [tx_slash] s1) = Inl AccountsError"
proof -
  obtain s1 where "settle_compressed_batch example_chain 3 (settle_acc [5]) [1] 200000000 0 [5]
       registered_ledger = Inr s1"
    by (simp add: run_defs registered_ledger_def example_node_def)
  with batch_settled_once [OF this, of "[tx_slash]" 9 "settle_acc [5]" "[2]" 0 7] show ?thesis
    by blast
qed

section \<open>Slashing\<close>

text \<open>C6: only the fixed admin key or the node's own owner slashes. A slash signed by anyone else
  fails; one that succeeds writes exactly the record with 20 reputation less (ejected, with its
  stake reset, when that falls below 20) and touches no other record.\<close>

theorem slash_authority_and_effect:
  assumes "slash_node ch now acc reason s = Inr s'"
  shows "la_authority_signed acc \<and>
    (la_authority acc = ADMIN_KEY \<or> la_authority acc = la_owner acc) \<and>
    (\<exists>n. node_accounts s (node_pda ch (la_owner acc)) = Some n \<and> nd_is_initialized n \<and>
       node_accounts s' = (node_accounts s)(node_pda ch (la_owner acc) \<mapsto> slashed_node n)) \<and>
    batch_records s' = batch_records s \<and> tokens s' = tokens s"
  using assms by (rule slash_okE) auto

theorem slash_authority_and_effect_witness:
  "\<exists>s'. slash_node example_chain 4 slash_acc ''offline'' registered_ledger = Inr s' \<and>
     node_accounts s' k_node = Some (slashed_node example_node) \<and>
     nd_reputation (slashed_node example_node) = 80"
proof -
  obtain s' where s': "slash_node example_chain 4 slash_acc ''offline'' registered_ledger = Inr s'"
    by (simp add: run_defs registered_ledger_def example_node_def)
  have "node_pda example_chain (la_owner slash_acc) = k_node" by (simp add: slash_acc_def k_fold)
  moreover have "node_accounts registered_ledger k_node = Some example_node"
    by (simp add: registered_ledger_def)
  ultimately have "node_accounts s' k_node = Some (slashed_node example_node)"
    using slash_authority_and_effect [OF s'] by auto
  moreover have "nd_reputation (slashed_node example_node) = 80"
    by (simp add: slashed_node_def example_node_def saturating_sub_def)
  ultimately show ?thesis using s' by blast
qed


text \<open>The wallet slashed down to 20 settles its whole escrow; the admin's next slash fails.\<close>

definition slashed_ledger :: ledger where
  "slashed_ledger = execute_all example_chain [tx_slash, tx_slash, tx_slash, tx_slash] registered_ledger"

lemma example_slash_step:
  assumes "node_accounts s k_node = Some (example_node\<lparr>nd_reputation := r\<rparr>)" and "40 \<le> r"
  shows "execute example_chain tx_slash s =
    s\<lparr>node_accounts := (node_accounts s)(k_node \<mapsto> example_node\<lparr>nd_reputation := r - 20\<rparr>),
      events := events s @ [EvNodeSlashed alice ''offline'' r (r - 20) 4]\<rparr>"
proof -
  have "saturating_sub r 20 = r - 20" "\<not> r - 20 < 20"
    using assms(2) by (auto simp: saturating_sub_def word_nat unat_sub_exact)
  with assms(1) show ?thesis
    by (simp add: execute_def tx_slash_def slash_acc_def slash_node_def Let_def load_def
        write_back_def k_fold example_node_def)
qed

lemma slashed_ledger_facts:
  "node_accounts slashed_ledger k_node = Some (example_node\<lparr>nd_reputation := 20\<rparr>)"
  "lamports slashed_ledger = lamports registered_ledger"
  "batch_records slashed_ledger = Map.empty"
  "program_states slashed_ledger = program_states registered_ledger"
  "tokens slashed_ledger = tokens registered_ledger"
proof -
  have start: "node_accounts registered_ledger k_node = Some (example_node\<lparr>nd_reputation := 100\<rparr>)"
    by (simp add: registered_ledger_def example_node_def)
  note steps = start example_slash_step [OF start] example_slash_step [where r = 80]
    example_slash_step [where r = 60] example_slash_step [where r = 40]
  show "node_accounts slashed_ledger k_node = Some (example_node\<lparr>nd_reputation := 20\<rparr>)"
    "lamports slashed_ledger = lamports registered_ledger"
    "batch_records slashed_ledger = Map.empty"
    "program_states slashed_ledger = program_states registered_ledger"
    "tokens slashed_ledger = tokens registered_ledger"
    by (simp_all add: slashed_ledger_def steps) (simp_all add: registered_ledger_def)
qed


end
