(* ===== verification/Guard_Interfaces.thy ===== *)
theory Guard_Interfaces
  imports Prelude
begin

text \<open>
  Two contracts that several guards of the daemon share: a table of fixed-window request
  counters (\<open>RateLimiter\<close>, \<open>AttackPrevention\<close>), and a table of expiring bans
  (\<open>AttackPrevention\<close>, \<open>PeerGuard\<close>). What they promise is proved here once, from
  the laws of their operations, and used through an interpretation in each guard's theory.
\<close>

section \<open>Fixed-window counters\<close>

datatype 'k limiter_event = Hit 'k | Sweep

text \<open>A run of a limiter: timed requests and clean-ups in the order they happen; the result is
  the log of the accepted requests. A panic of an operation ends the run with \<open>None\<close>.\<close>

fun run_limiter ::
  "(u64 \<Rightarrow> 'k \<Rightarrow> 's \<Rightarrow> ('s \<times> bool) option) \<Rightarrow> (u64 \<Rightarrow> 's \<Rightarrow> 's option) \<Rightarrow>
   (u64 \<times> 'k limiter_event) list \<Rightarrow> 's \<Rightarrow> ((u64 \<times> 'k) list \<times> 's) option" where
  "run_limiter check sweep [] s = Some ([], s)"
| "run_limiter check sweep ((t, Sweep) # es) s =
     (case sweep t s of None \<Rightarrow> None | Some s' \<Rightarrow> run_limiter check sweep es s')"
| "run_limiter check sweep ((t, Hit k) # es) s =
     (case check t k s of
        None \<Rightarrow> None
      | Some (s', ok) \<Rightarrow>
          (case run_limiter check sweep es s' of
             None \<Rightarrow> None
           | Some (log, s'') \<Rightarrow> Some ((if ok then [(t, k)] else []) @ log, s'')))"

lemma run_limiter_append:
  "run_limiter check sweep (es @ fs) s =
     (case run_limiter check sweep es s of
        None \<Rightarrow> None
      | Some (log, s') \<Rightarrow>
          (case run_limiter check sweep fs s' of
             None \<Rightarrow> None
           | Some (log', s'') \<Rightarrow> Some (log @ log', s'')))"
  by (induction check sweep es s rule: run_limiter.induct) (auto split: option.splits)

text \<open>Accepted requests of a key in the minute from \<open>a\<close> on.\<close>

definition accepted_from :: "'k \<Rightarrow> u64 \<Rightarrow> (u64 \<times> 'k) list \<Rightarrow> nat" where
  "accepted_from k a log =
     length (filter (\<lambda>(t, k'). k' = k \<and> unat a \<le> unat t \<and> unat t \<le> unat a + 60) log)"

lemma accepted_from_simps [simp]:
  "accepted_from k a [] = 0"
  "accepted_from k a ((t, k') # log) =
     (if k' = k \<and> unat a \<le> unat t \<and> unat t \<le> unat a + 60 then 1 else 0) + accepted_from k a log"
  by (simp_all add: accepted_from_def)

lemma accepted_from_append [simp]:
  "accepted_from k a (log @ log') = accepted_from k a log + accepted_from k a log'"
  by (simp add: accepted_from_def)

lemma accepted_from_replicate [simp]:
  "accepted_from k a (replicate n (t, k')) =
     (if k' = k \<and> unat a \<le> unat t \<and> unat t \<le> unat a + 60 then n else 0)"
  by (induction n) auto

text \<open>The times of a run: in order, not before \<open>lo\<close>, and before the horizon up to which the
  clock can be added to without overflow.\<close>

fun ordered_from :: "nat \<Rightarrow> nat \<Rightarrow> (u64 \<times> 'e) list \<Rightarrow> bool" where
  "ordered_from hz lo [] \<longleftrightarrow> True"
| "ordered_from hz lo ((t, e) # es) \<longleftrightarrow> lo \<le> unat t \<and> unat t < hz \<and> ordered_from hz (unat t) es"

lemma ordered_from_mono: "ordered_from hz lo' es \<Longrightarrow> lo \<le> lo' \<Longrightarrow> ordered_from hz lo es"
  by (cases es) auto

lemma ordered_from_replicate:
  "ordered_from hz lo (replicate n (t, e) @ es) \<longleftrightarrow>
     (if n = 0 then ordered_from hz lo es else lo \<le> unat t \<and> unat t < hz \<and> ordered_from hz (unat t) es)"
  by (induction n arbitrary: lo) auto

locale fixed_window =
  fixes check :: "u64 \<Rightarrow> 'k \<Rightarrow> 's \<Rightarrow> ('s \<times> bool) option"
    and sweep :: "u64 \<Rightarrow> 's \<Rightarrow> 's option"
    and window :: "'s \<Rightarrow> 'k \<Rightarrow> (nat \<times> nat) option"
    and limit :: nat
    and horizon :: nat
    and tracked :: "nat \<Rightarrow> nat \<Rightarrow> 's \<Rightarrow> bool"
  assumes tracked_window: "tracked now n s \<Longrightarrow> window s k = Some (c, w) \<Longrightarrow> w \<le> now"
    and check_new: "tracked now (Suc n) s \<Longrightarrow> now \<le> unat t \<Longrightarrow> unat t < horizon \<Longrightarrow> window s k = None \<Longrightarrow>
      \<exists>s'. check t k s = Some (s', 1 \<le> limit) \<and> tracked (unat t) n s' \<and>
        window s' = (window s)(k \<mapsto> (1, unat t))"
    and check_same: "tracked now (Suc n) s \<Longrightarrow> now \<le> unat t \<Longrightarrow> unat t < horizon \<Longrightarrow> window s k = Some (c, w) \<Longrightarrow>
      unat t \<le> w + 60 \<Longrightarrow>
      \<exists>s'. check t k s = Some (s', c + 1 \<le> limit) \<and> tracked (unat t) n s' \<and>
        window s' = (window s)(k \<mapsto> (c + 1, w))"
    and check_next: "tracked now (Suc n) s \<Longrightarrow> now \<le> unat t \<Longrightarrow> unat t < horizon \<Longrightarrow> window s k = Some (c, w) \<Longrightarrow>
      w + 60 < unat t \<Longrightarrow>
      \<exists>s'. check t k s = Some (s', 1 \<le> limit) \<and> tracked (unat t) n s' \<and>
        window s' = (window s)(k \<mapsto> (1, unat t))"
    and sweep_old: "tracked now (Suc n) s \<Longrightarrow> now \<le> unat t \<Longrightarrow> unat t < horizon \<Longrightarrow>
      \<exists>s'. sweep t s = Some s' \<and> tracked (unat t) n s' \<and>
        (\<forall>k. window s' k = window s k \<or>
             (window s' k = None \<and> (\<exists>c w. window s k = Some (c, w) \<and> w + 60 < unat t)))"
    and limit_pos: "1 \<le> limit"
begin

text \<open>One step of a run on the window of one key.\<close>

lemma check_cases:
  assumes "tracked now (Suc n) s" and "now \<le> unat t" and "unat t < horizon"
  obtains s' c w where "check t k s = Some (s', c \<le> limit)" "tracked (unat t) n s'"
    "window s' = (window s)(k \<mapsto> (c, w))" "w \<le> unat t"
    "(c = 1 \<and> w = unat t \<and> (\<forall>c0 w0. window s k = Some (c0, w0) \<longrightarrow> w0 + 60 < unat t)) \<or>
     (\<exists>c0. window s k = Some (c0, w) \<and> c = c0 + 1 \<and> unat t \<le> w + 60)"
proof (cases "window s k")
  case None
  then show thesis using check_new [OF assms None] that by fastforce
next
  case (Some cw)
  obtain c w where cw: "cw = (c, w)" by (cases cw)
  note win = Some [unfolded cw]
  have "w \<le> now" using tracked_window [OF assms(1) win] .
  show thesis
  proof (cases "unat t \<le> w + 60")
    case True
    with check_same [OF assms win True] win \<open>w \<le> now\<close> assms(2) show thesis
      by (auto intro: that)
  next
    case False
    then have "w + 60 < unat t" by simp
    from check_next [OF assms win this] win this show thesis by (auto intro!: that)
  qed
qed

lemma run_total:
  assumes "tracked now (length es) s" and "ordered_from horizon now es"
  shows "\<exists>log s'. run_limiter check sweep es s = Some (log, s')"
  using assms
proof (induction es arbitrary: now s)
  case Nil
  then show ?case by simp
next
  case (Cons e es)
  obtain t ev where e: "e = (t, ev)" by (cases e)
  have tr: "tracked now (Suc (length es)) s" and ord: "now \<le> unat t" "unat t < horizon" "ordered_from horizon (unat t) es"
    using Cons.prems e by simp_all
  show ?case
  proof (cases ev)
    case (Hit k)
    obtain s' c w where "check t k s = Some (s', c \<le> limit)" "tracked (unat t) (length es) s'"
      using check_cases [OF tr ord(1,2)] by metis
    with Cons.IH [OF _ ord(3)] e Hit show ?thesis by fastforce
  next
    case Sweep
    then show ?thesis using sweep_old [OF tr ord(1,2)] Cons.IH [OF _ ord(3)] e
      by fastforce
  qed
qed

text \<open>Requests of one key at one time are all accepted while the limit is not reached.\<close>

lemma run_burst:
  assumes "tracked now (n + m) s" and "now \<le> unat t" "unat t < horizon"
    and "window s k = Some (c, w)" "unat t \<le> w + 60" "c + n \<le> limit"
  shows "\<exists>s' now'. run_limiter check sweep (replicate n (t, Hit k)) s = Some (replicate n (t, k), s') \<and>
    now' \<le> unat t \<and> tracked now' m s' \<and> window s' k = Some (c + n, w)"
  using assms
proof (induction n arbitrary: now s c)
  case 0
  then show ?case by auto
next
  case (Suc n)
  have "tracked now (Suc (n + m)) s" using Suc.prems(1) by simp
  from check_same [OF this Suc.prems(2-5)] Suc.prems(6) obtain s1 where
    s1: "check t k s = Some (s1, True)" "tracked (unat t) (n + m) s1" "window s1 k = Some (c + 1, w)"
    by auto
  from Suc.IH [OF s1(2) order.refl Suc.prems(3) s1(3) Suc.prems(5)] Suc.prems(6) obtain s' now' where
    "run_limiter check sweep (replicate n (t, Hit k)) s1 = Some (replicate n (t, k), s')"
    "now' \<le> unat t" "tracked now' m s'" "window s' k = Some (c + Suc n, w)" by auto
  with s1(1) show ?case by auto
qed

lemma run_late:
  assumes "run_limiter check sweep es s = Some (log, s')" and "ordered_from horizon (unat a + 61) es"
  shows "accepted_from k a log = 0"
  using assms
proof (induction es arbitrary: s log)
  case Nil
  then show ?case by simp
next
  case (Cons e es)
  obtain t ev where e: "e = (t, ev)" by (cases e)
  have "ordered_from horizon (unat a + 61) es" "unat a + 61 \<le> unat t"
    using Cons.prems(2) e ordered_from_mono by auto
  with Cons e show ?case
    by (cases ev) (auto split: option.splits prod.splits)
qed

text \<open>What a key may still get accepted in the minute from \<open>a\<close> on.\<close>

lemma run_budget:
  assumes "tracked now (length es) s" and "ordered_from horizon now es" and "ordered_from horizon (unat a) es"
    and "run_limiter check sweep es s = Some (log, s')"
  shows "accepted_from k a log \<le> (case window s k of None \<Rightarrow> limit
    | Some (c, w) \<Rightarrow> (limit - c) + (if unat a \<le> w then 0 else limit))"
  using assms
proof (induction es arbitrary: now s log)
  case Nil
  then show ?case by simp
next
  case (Cons e es)
  obtain t ev where e: "e = (t, ev)" by (cases e)
  have tr: "tracked now (Suc (length es)) s" and now: "now \<le> unat t" "unat t < horizon" "ordered_from horizon (unat t) es"
    and a: "unat a \<le> unat t" "ordered_from horizon (unat a) es"
    using Cons.prems e ordered_from_mono by auto
  show ?case
  proof (cases "unat t \<le> unat a + 60")
    case False
    then have "ordered_from horizon (unat a + 61) (e # es)" using now e by auto
    with run_late [OF Cons.prems(4)] show ?thesis by simp
  next
    case soon: True
    show ?thesis
    proof (cases ev)
      case Sweep
      from sweep_old [OF tr now(1,2)] obtain s1 where s1: "sweep t s = Some s1"
          "tracked (unat t) (length es) s1"
        and win: "window s1 k = window s k \<or>
          (window s1 k = None \<and> (\<exists>c w. window s k = Some (c, w) \<and> w + 60 < unat t))" by blast
      with Cons.prems(4) e Sweep have "run_limiter check sweep es s1 = Some (log, s')" by simp
      from Cons.IH [OF s1(2) now(3) a(2) this] win soon show ?thesis by auto
    next
      case (Hit k')
      obtain s1 c w where s1: "check t k' s = Some (s1, c \<le> limit)" "tracked (unat t) (length es) s1"
        and win: "window s1 = (window s)(k' \<mapsto> (c, w))" "w \<le> unat t"
          "(c = 1 \<and> w = unat t \<and> (\<forall>c0 w0. window s k' = Some (c0, w0) \<longrightarrow> w0 + 60 < unat t)) \<or>
           (\<exists>c0. window s k' = Some (c0, w) \<and> c = c0 + 1 \<and> unat t \<le> w + 60)"
        by (rule check_cases [OF tr now(1,2), of k'])
      with Cons.prems(4) e Hit obtain log1 where log1: "run_limiter check sweep es s1 = Some (log1, s')"
        and log: "log = (if c \<le> limit then [(t, k')] else []) @ log1"
        by (auto split: option.splits)
      note IH = Cons.IH [OF s1(2) now(3) a(2) log1]
      show ?thesis
      proof (cases "k' = k")
        case False
        with IH log win(1) show ?thesis by simp
      next
        case True
        have "accepted_from k a log = (if c \<le> limit then 1 else 0) + accepted_from k a log1"
          using log True soon a(1) by simp
        moreover consider (fresh) "c = 1" "w = unat t"
            "\<forall>c0 w0. window s k = Some (c0, w0) \<longrightarrow> w0 + 60 < unat t"
          | (same) c0 where "window s k = Some (c0, w)" "c = c0 + 1"
          using win(3) True by blast
        then have "(if c \<le> limit then 1 else 0) + accepted_from k a log1 \<le>
          (case window s k of None \<Rightarrow> limit
           | Some (c, w) \<Rightarrow> (limit - c) + (if unat a \<le> w then 0 else limit))"
        proof cases
          case fresh
          then have "accepted_from k a log1 \<le> limit - 1" using IH True win(1) a(1) by simp
          then have le: "(if c \<le> limit then 1 else 0) + accepted_from k a log1 \<le> limit"
            using limit_pos by (cases "c \<le> limit") auto
          have "\<not> unat a \<le> w0" if "window s k = Some (c0, w0)" for c0 w0
            using fresh(3) that soon by fastforce
          with le show ?thesis by (cases "window s k") auto
        next
          case same
          then show ?thesis using IH True win(1) by auto
        qed
        ultimately show ?thesis by simp
      qed
    qed
  qed
qed

text \<open>At most twice the limit passes in any minute, whatever the other keys do.\<close>

lemma minute_bound:
  assumes "tracked now (length es) s" and "ordered_from horizon now es"
    and "run_limiter check sweep es s = Some (log, s')"
  shows "accepted_from k a log \<le> 2 * limit"
  using assms
proof (induction es arbitrary: now s log)
  case Nil
  then show ?case by simp
next
  case (Cons e es)
  obtain t ev where e: "e = (t, ev)" by (cases e)
  have tr: "tracked now (Suc (length es)) s" and now: "now \<le> unat t" "unat t < horizon" "ordered_from horizon (unat t) es"
    using Cons.prems e by auto
  show ?case
  proof (cases "unat a \<le> unat t")
    case True
    then have "ordered_from horizon (unat a) (e # es)" using now e by simp
    from run_budget [OF Cons.prems(1,2) this Cons.prems(3)] show ?thesis
      by (rule order_trans) (auto split: option.split)
  next
    case early: False
    show ?thesis
    proof (cases ev)
      case Sweep
      with sweep_old [OF tr now(1,2)] Cons.prems(3) e obtain s1 where
        "tracked (unat t) (length es) s1" "run_limiter check sweep es s1 = Some (log, s')" by auto
      with Cons.IH now(3) show ?thesis by blast
    next
      case (Hit k')
      obtain s1 c where s1: "check t k' s = Some (s1, c \<le> limit)" "tracked (unat t) (length es) s1"
        using check_cases [OF tr now(1,2)] by metis
      with Cons.prems(3) e Hit obtain log1 where log1: "run_limiter check sweep es s1 = Some (log1, s')"
        and log: "log = (if c \<le> limit then [(t, k')] else []) @ log1"
        by (auto split: option.splits)
      from Cons.IH [OF s1(2) now(3) log1] log early show ?thesis by auto
    qed
  qed
qed

end

section \<open>Expiring bans\<close>

text \<open>A ban has an expiry time, or none when it is permanent.\<close>

definition ban_active :: "u64 \<Rightarrow> u64 option option \<Rightarrow> bool" where
  "ban_active now e = (case e of None \<Rightarrow> False | Some None \<Rightarrow> True | Some (Some t) \<Rightarrow> now < t)"

text \<open>The housekeeping of a ban table: the check of one key, which drops its ban when that has
  expired, and the sweep over all of them.\<close>

datatype 'k ban_event = CheckBan 'k | SweepBans

fun ban_step ::
  "(u64 \<Rightarrow> 'k \<Rightarrow> 's \<Rightarrow> bool \<times> 's) \<Rightarrow> (u64 \<Rightarrow> 's \<Rightarrow> 's) \<Rightarrow> u64 \<times> 'k ban_event \<Rightarrow> 's \<Rightarrow> 's" where
  "ban_step check sweep (t, CheckBan k) s = snd (check t k s)"
| "ban_step check sweep (t, SweepBans) s = sweep t s"

locale ban_table =
  fixes check :: "u64 \<Rightarrow> 'k \<Rightarrow> 's \<Rightarrow> bool \<times> 's"
    and sweep :: "u64 \<Rightarrow> 's \<Rightarrow> 's"
    and expiry :: "'s \<Rightarrow> 'k \<Rightarrow> u64 option option"
  assumes check_verdict: "fst (check t k s) = ban_active t (expiry s k)"
    and check_keeps: "ban_active t (expiry s k') \<Longrightarrow> expiry (snd (check t k s)) k' = expiry s k'"
    and check_clears: "\<not> ban_active t (expiry s k') \<Longrightarrow>
      expiry (snd (check t k s)) k' = expiry s k' \<or> expiry (snd (check t k s)) k' = None"
    and sweep_expiry: "expiry (sweep t s) k =
      (if ban_active t (expiry s k) then expiry s k else None)"
begin

lemma ban_active_mono: "ban_active u e \<Longrightarrow> t \<le> u \<Longrightarrow> ban_active t e"
  by (auto simp: ban_active_def split: option.splits)

lemma step_verdict:
  assumes "fst ev \<le> u"
  shows "ban_active u (expiry (ban_step check sweep ev s) k) = ban_active u (expiry s k)"
proof -
  obtain t e where ev: "ev = (t, e)" by (cases ev)
  show ?thesis
  proof (cases "ban_active t (expiry s k)")
    case True
    then show ?thesis by (cases e) (simp_all add: ev check_keeps sweep_expiry)
  next
    case False
    with assms ev ban_active_mono have "\<not> ban_active u (expiry s k)" by auto
    moreover have "\<not> ban_active u None" by (simp add: ban_active_def)
    moreover have "expiry (ban_step check sweep (t, e) s) k = expiry s k \<or>
        expiry (ban_step check sweep (t, e) s) k = None"
      using False check_clears [of t s k] by (cases e) (simp_all add: sweep_expiry)
    ultimately show ?thesis unfolding ev by metis
  qed
qed

text \<open>Housekeeping never changes a later verdict.\<close>

lemma verdict_after:
  assumes "\<forall>ev\<in>set evs. fst ev \<le> u"
  shows "fst (check u k (fold (ban_step check sweep) evs s)) = ban_active u (expiry s k)"
proof -
  have "ban_active u (expiry (fold (ban_step check sweep) evs s) k) = ban_active u (expiry s k)"
    using assms by (induction evs arbitrary: s) (auto simp: step_verdict)
  then show ?thesis by (simp add: check_verdict)
qed

end

end
