(* ===== verification/Security.thy ===== *)
theory Security
  imports Json Guard_Interfaces
begin

text \<open>
  \<open>sns-daemon/src/security.rs\<close>: the request signer, the rate limiter, the input sanitizer
  and the circuit breaker. HMAC-SHA256, the hex printer and the JSON printer are parameters. \<open>now\<close> is the
  reading of \<open>now_secs()\<close>.
\<close>

section \<open>RequestSigner\<close>

record request_signer =
  secret_key :: string

type_synonym hmac = "u8 list \<Rightarrow> u8 list \<Rightarrow> u8 list"

definition sign :: "hmac \<Rightarrow> hex_printer \<Rightarrow> request_signer \<Rightarrow> string \<Rightarrow> u64 \<Rightarrow> string" where
  "sign mac hex rs payload timestamp =
     hex (mac (bytes_of (secret_key rs)) (bytes_of (payload @ decimal (unat timestamp))))"

definition constant_time_eq :: "string \<Rightarrow> string \<Rightarrow> bool" where
  "constant_time_eq a b \<longleftrightarrow>
     (if length a \<noteq> length b then False else diff_fold 0 (zip (bytes_of a) (bytes_of b)) = 0)"

definition verify :: "hmac \<Rightarrow> hex_printer \<Rightarrow> request_signer \<Rightarrow> u64 \<Rightarrow> string \<Rightarrow> u64 \<Rightarrow> string \<Rightarrow> bool" where
  "verify mac hex rs now payload timestamp signature \<longleftrightarrow>
     (if 30 < saturating_sub now timestamp then False
      else constant_time_eq (sign mac hex rs payload timestamp) signature)"

lemma constant_time_eq_iff [simp]: "constant_time_eq a b \<longleftrightarrow> a = b"
  by (auto simp: constant_time_eq_def diff_fold_eq)

lemma verify_iff:
  "verify mac hex rs now payload ts sig \<longleftrightarrow>
     unat now - unat ts \<le> 30 \<and> sig = sign mac hex rs payload ts"
  by (auto simp: verify_def word_nat unat_saturating_sub)

text \<open>The signed text is the payload with the decimal timestamp appended and nothing between.\<close>

lemma length_decimal_pos: "0 < length (decimal n)"
  by (subst decimal.simps) simp

lemma decimal_shift:
  assumes "0 < d" "d < 10"
  shows "decimal (d * 10 ^ length (decimal n) + n) = hex_digits ! d # decimal n"
proof (induction n rule: decimal.induct)
  case (1 n)
  show ?case
  proof (cases "n < 10")
    case True
    then have "decimal n = [hex_digits ! n]" by (simp add: decimal.simps [of n])
    moreover have "decimal d = [hex_digits ! d]" using assms by (simp add: decimal.simps [of d])
    moreover have "(d * 10 + n) div 10 = d" "(d * 10 + n) mod 10 = n" "\<not> d * 10 + n < 10"
      using True assms by auto
    ultimately show ?thesis by (simp add: decimal.simps [of "d * 10 + n"])
  next
    case False
    define k where "k = length (decimal (n div 10))"
    have n: "decimal n = decimal (n div 10) @ [hex_digits ! (n mod 10)]"
      using False by (simp add: decimal.simps [of n])
    let ?m = "d * 10 ^ length (decimal n) + n"
    have m: "?m = 10 * (d * 10 ^ k + n div 10) + n mod 10"
      using n by (simp add: k_def algebra_simps)
    have "?m div 10 = d * 10 ^ k + n div 10" "?m mod 10 = n mod 10" "\<not> ?m < 10"
      using False unfolding m by auto
    then have "decimal ?m = decimal (d * 10 ^ k + n div 10) @ [hex_digits ! (n mod 10)]"
      by (simp add: decimal.simps [of ?m])
    with "1.IH" [OF False] n show ?thesis by (simp add: k_def)
  qed
qed

lemma sign_shift:
  assumes "0 < d" "d < 10" and "d * 10 ^ length (decimal (unat ts)) + unat ts < 2 ^ 64"
  shows "sign mac hex rs (p @ [hex_digits ! d]) ts =
    sign mac hex rs p (of_nat (d * 10 ^ length (decimal (unat ts)) + unat ts))"
  using decimal_shift [OF assms(1,2), of "unat ts"] assms(3)
  by (simp add: sign_def unat_of_nat64 del: of_nat_add of_nat_mult)

section \<open>RateLimiter\<close>

text \<open>Per key the request count and the start of the current window.\<close>

type_synonym rate_limiter = "(string, u64 \<times> u64) dashmap"

definition rate_limiter_new :: rate_limiter where
  "rate_limiter_new = dm_new"

definition rl_check :: "u64 \<Rightarrow> string \<Rightarrow> rate_limiter \<Rightarrow> (rate_limiter \<times> bool) option" where
  "rl_check now ip m =
     (let (count, start) = dm_or_insert m ip (0, now);
          (count, start) = (if 60 < saturating_sub now start then (0, now) else (count, start)) in
      case checked_add count 1 of
        None \<Rightarrow> None
      | Some count' \<Rightarrow> Some (dm_insert ip (count', start) m, count' \<le> 100))"

definition rl_cleanup :: "u64 \<Rightarrow> rate_limiter \<Rightarrow> rate_limiter" where
  "rl_cleanup now m = dm_retain (\<lambda>_ (_, start). saturating_sub now start < 300) m"

definition rl_window :: "rate_limiter \<Rightarrow> string \<Rightarrow> (nat \<times> nat) option" where
  "rl_window m ip = map_option (\<lambda>(c, w). (unat c, unat w)) (dm_get m ip)"

definition rl_tracked :: "nat \<Rightarrow> nat \<Rightarrow> rate_limiter \<Rightarrow> bool" where
  "rl_tracked now n m \<longleftrightarrow> n < 2 ^ 64 \<and>
     (\<forall>ip c w. dm_get m ip = Some (c, w) \<longrightarrow> unat w \<le> now \<and> unat c + n < 2 ^ 64)"

lemma rl_window_insert [simp]:
  "rl_window (dm_insert ip (c, w) m) = (rl_window m)(ip \<mapsto> (unat c, unat w))"
  by (auto simp: rl_window_def lookup_update)

lemma rl_check_step:
  assumes "rl_tracked now (Suc n) m" "now \<le> unat t"
    and "dm_or_insert m ip (0, t) = (c0, w0)"
    and "(c, w) = (if 60 < saturating_sub t w0 then (0, t) else (c0, w0))"
  shows "rl_check t ip m = Some (dm_insert ip (c + 1, w) m, unat c + 1 \<le> 100) \<and>
    rl_tracked (unat t) n (dm_insert ip (c + 1, w) m) \<and> unat (c + 1) = unat c + 1"
proof -
  have "unat c0 + Suc n < 2 ^ 64 \<and> unat w0 \<le> unat t"
    using assms(1-3) by (cases "dm_get m ip") (auto simp: rl_tracked_def dm_or_insert_def
        dest!: spec [of _ ip] intro: order_trans)
  then have "unat c + Suc n < 2 ^ 64" "unat w \<le> unat t"
    using assms(4) by (auto split: if_splits)
  then have add: "checked_add c 1 = Some (c + 1)" and c: "unat (c + 1) = unat c + 1"
    by (simp_all add: checked_add_SomeI unat_add_exact)
  have "rl_tracked (unat t) n (dm_insert ip (c + 1, w) m)"
    using assms(1,2) c \<open>unat c + Suc n < 2 ^ 64\<close> \<open>unat w \<le> unat t\<close>
    by (fastforce simp: rl_tracked_def lookup_update split: if_splits)
  with add c assms(3,4) show ?thesis
    by (auto simp: rl_check_def Let_def word_le_nat_alt split: if_splits)
qed

lemma rl_window_Some:
  "rl_window m ip = Some (c, w) \<longleftrightarrow> (\<exists>c' w'. dm_get m ip = Some (c', w') \<and> c = unat c' \<and> w = unat w')"
  by (auto simp: rl_window_def)

lemma rl_window_None: "rl_window m ip = None \<longleftrightarrow> dm_get m ip = None"
  by (simp add: rl_window_def)

interpretation rate_window: fixed_window rl_check "\<lambda>t m. Some (rl_cleanup t m)" rl_window 100 "2 ^ 64" rl_tracked
proof unfold_locales
  fix now n s k c w
  assume "rl_tracked now n s" "rl_window s k = Some (c, w)"
  then show "w \<le> now" by (auto simp: rl_tracked_def rl_window_Some)
next
  fix now n s k and t :: u64
  assume tr: "rl_tracked now (Suc n) s" "now \<le> unat t" and "rl_window s k = None"
  then have "dm_or_insert s k (0, t) = (0, t)" by (simp add: rl_window_None dm_or_insert_def)
  from rl_check_step [OF tr this, of 0 t]
  show "\<exists>s'. rl_check t k s = Some (s', 1 \<le> (100::nat)) \<and> rl_tracked (unat t) n s' \<and>
      rl_window s' = (rl_window s)(k \<mapsto> (1, unat t))" by auto
next
  fix now n s k c w and t :: u64
  assume tr: "rl_tracked now (Suc n) s" "now \<le> unat t" and win: "rl_window s k = Some (c, w)"
    and same: "unat t \<le> w + 60"
  obtain c' w' where cw: "dm_or_insert s k (0, t) = (c', w')" "c = unat c'" "w = unat w'"
    using win by (auto simp: rl_window_Some dm_or_insert_def)
  have "(c', w') = (if 60 < saturating_sub t w' then (0, t) else (c', w'))"
    using same cw(3) by (auto simp add: word_less_nat_alt unat_saturating_sub)
  from rl_check_step [OF tr cw(1) this] cw(2,3)
  show "\<exists>s'. rl_check t k s = Some (s', c + 1 \<le> 100) \<and> rl_tracked (unat t) n s' \<and>
      rl_window s' = (rl_window s)(k \<mapsto> (c + 1, w))" by auto
next
  fix now n s k c w and t :: u64
  assume tr: "rl_tracked now (Suc n) s" "now \<le> unat t" and win: "rl_window s k = Some (c, w)"
    and late: "w + 60 < unat t"
  obtain c' w' where cw: "dm_or_insert s k (0, t) = (c', w')" "w = unat w'"
    using win by (auto simp: rl_window_Some dm_or_insert_def)
  have "(0, t) = (if 60 < saturating_sub t w' then (0, t) else (c', w'))"
    using late cw(2) by (auto simp add: word_less_nat_alt unat_saturating_sub)
  from rl_check_step [OF tr cw(1) this]
  show "\<exists>s'. rl_check t k s = Some (s', 1 \<le> (100::nat)) \<and> rl_tracked (unat t) n s' \<and>
      rl_window s' = (rl_window s)(k \<mapsto> (1, unat t))" by auto
next
  fix now n s t
  assume tr: "rl_tracked now (Suc n) s" "now \<le> unat (t::u64)"
  have "rl_tracked (unat t) n (rl_cleanup t s)"
    using tr by (fastforce simp: rl_tracked_def rl_cleanup_def split: option.splits if_splits)
  moreover have "rl_window (rl_cleanup t s) k = rl_window s k \<or>
      rl_window (rl_cleanup t s) k = None \<and> (\<exists>c w. rl_window s k = Some (c, w) \<and> w + 60 < unat t)" for k
    by (auto simp: rl_window_def rl_cleanup_def word_less_nat_alt unat_saturating_sub split: option.splits)
  ultimately show "\<exists>s'. Some (rl_cleanup t s) = Some s' \<and> rl_tracked (unat t) n s' \<and>
      (\<forall>k. rl_window s' k = rl_window s k \<or>
        rl_window s' k = None \<and> (\<exists>c w. rl_window s k = Some (c, w) \<and> w + 60 < unat t))" by blast
qed simp

lemma rl_tracked_new: "n < 2 ^ 64 \<Longrightarrow> rl_tracked 0 n rate_limiter_new"
  by (simp add: rl_tracked_def rate_limiter_new_def)

section \<open>InputSanitizer\<close>

definition ALLOWED_METHODS :: "string list" where
  "ALLOWED_METHODS =
    [''getAccountInfo'', ''getBalance'', ''getBlock'', ''getBlockHeight'', ''getBlockProduction'',
     ''getBlockCommitment'', ''getBlocks'', ''getBlockTime'', ''getClusterNodes'',
     ''getEpochInfo'', ''getEpochSchedule'', ''getFeeForMessage'', ''getFirstAvailableBlock'',
     ''getGenesisHash'', ''getHealth'', ''getHighestSnapshotSlot'', ''getIdentity'',
     ''getInflationGovernor'', ''getInflationRate'', ''getInflationReward'',
     ''getLargestAccounts'', ''getLatestBlockhash'', ''getLeaderSchedule'',
     ''getMaxRetransmitSlot'', ''getMaxShredInsertSlot'', ''getMinimumBalanceForRentExemption'',
     ''getMultipleAccounts'', ''getProgramAccounts'', ''getRecentPerformanceSamples'',
     ''getRecentPrioritizationFees'', ''getSignaturesForAddress'', ''getSignatureStatuses'',
     ''getSlot'', ''getSlotLeader'', ''getSlotLeaders'', ''getStakeActivation'',
     ''getStakeMinimumDelegation'', ''getSupply'', ''getTokenAccountBalance'',
     ''getTokenAccountsByDelegate'', ''getTokenAccountsByOwner'', ''getTokenLargestAccounts'',
     ''getTokenSupply'', ''getTransaction'', ''getTransactionCount'', ''getVersion'',
     ''getVoteAccounts'', ''isBlockhashValid'', ''minimumLedgerSlot'', ''requestAirdrop'',
     ''sendTransaction'', ''simulateTransaction'']"

text \<open>The nesting depth of a payload.\<close>

fun depth :: "json \<Rightarrow> nat" where
  "depth (JObj m) = 1 + fold max (map (depth \<circ> snd) m) 0"
| "depth (JArr vs) = 1 + fold max (map depth vs) 0"
| "depth _ = 0"

definition sanitizer_validate :: "(json \<Rightarrow> string) \<Rightarrow> json \<Rightarrow> string + unit" where
  "sanitizer_validate to_str payload =
     and_then (require (json_get payload ''jsonrpc'' \<noteq> None) ''missing jsonrpc field'') (\<lambda>_.
     and_then (ok_or (Option.bind (json_get payload ''method'') as_str)
       ''missing or invalid method'') (\<lambda>meth.
     and_then (require (meth \<in> set ALLOWED_METHODS) (''method not allowed: '' @ meth)) (\<lambda>_.
     and_then (require (length (to_str payload) \<le> 102400) ''payload too large'') (\<lambda>_.
     require (depth payload \<le> 5) ''payload too deeply nested''))))"

text \<open>A path of nested containers inside a value, as an independent reading of depth.\<close>

inductive nested :: "nat \<Rightarrow> json \<Rightarrow> bool" where
  nested_0: "nested 0 v"
| nested_obj_here: "nested 1 (JObj m)"
| nested_arr_here: "nested 1 (JArr vs)"
| nested_obj: "(k, v) \<in> set m \<Longrightarrow> nested n v \<Longrightarrow> nested (Suc n) (JObj m)"
| nested_arr: "v \<in> set vs \<Longrightarrow> nested n v \<Longrightarrow> nested (Suc n) (JArr vs)"

inductive_cases nested_SucE: "nested (Suc n) v"

lemma fold_max_ge:
  fixes a :: nat
  shows "a \<le> fold max xs a \<and> (\<forall>x\<in>set xs. x \<le> fold max xs a)"
proof (induction xs arbitrary: a)
  case (Cons x xs)
  from Cons [of "max x a"] show ?case by simp
qed simp

lemma fold_max_mem:
  fixes a :: nat
  shows "fold max xs a = a \<or> fold max xs a \<in> set xs"
proof (induction xs arbitrary: a)
  case (Cons x xs)
  from Cons [of "max x a"] show ?case by (auto simp: max_def split: if_splits)
qed simp

lemma nested_le_depth: "nested n v \<Longrightarrow> n \<le> depth v"
proof (induction rule: nested.induct)
  case (nested_obj k v m n)
  then have "depth v \<le> fold max (map (depth \<circ> snd) m) 0"
    using fold_max_ge [of 0 "map (depth \<circ> snd) m"] by force
  with nested_obj show ?case by simp
next
  case (nested_arr v vs n)
  then have "depth v \<le> fold max (map depth vs) 0"
    using fold_max_ge [of 0 "map depth vs"] by force
  with nested_arr show ?case by simp
qed auto

lemma nested_depth: "nested (depth v) v"
proof (induction v rule: depth.induct)
  case (1 m)
  show ?case
  proof (cases "fold max (map (depth \<circ> snd) m) 0 = 0")
    case True
    then show ?thesis by (simp add: nested_obj_here [simplified])
  next
    case False
    then obtain kv where "kv \<in> set m" "fold max (map (depth \<circ> snd) m) 0 = depth (snd kv)"
      using fold_max_mem [of "map (depth \<circ> snd) m" 0] by auto
    moreover from this have "nested (depth (snd kv)) (snd kv)" by (auto intro: 1)
    ultimately show ?thesis using nested_obj [of "fst kv" "snd kv" m] by simp
  qed
next
  case (2 vs)
  show ?case
  proof (cases "fold max (map depth vs) 0 = 0")
    case True
    then show ?thesis by (simp add: nested_arr_here [simplified])
  next
    case False
    then obtain v where "v \<in> set vs" "fold max (map depth vs) 0 = depth v"
      using fold_max_mem [of "map depth vs" 0] by auto
    with 2 nested_arr [of v vs] show ?thesis by simp
  qed
qed (auto intro: nested_0)

lemma depth_le_iff: "depth v \<le> n \<longleftrightarrow> (\<forall>k. nested k v \<longrightarrow> k \<le> n)"
  using nested_le_depth nested_depth order_trans by blast

lemma sanitizer_ok_iff:
  "sanitizer_validate to_str v = Inr () \<longleftrightarrow>
     json_get v ''jsonrpc'' \<noteq> None \<and>
     (\<exists>meth. json_get v ''method'' = Some (JStr meth) \<and> meth \<in> set ALLOWED_METHODS) \<and>
     length (to_str v) \<le> 102400 \<and> (\<forall>k. nested k v \<longrightarrow> k \<le> 5)"
proof -
  have "Option.bind (json_get v ''method'') as_str = Some meth \<longleftrightarrow>
      json_get v ''method'' = Some (JStr meth)" for meth
    by (auto simp: bind_eq_Some_conv elim: as_str.elims)
  then show ?thesis
    by (auto simp: sanitizer_validate_def and_then_Inr depth_le_iff [symmetric])
qed

section \<open>CircuitBreaker\<close>

record circuit_breaker =
  cb_failures :: u32
  cb_last_failure :: u64
  cb_threshold :: u32
  cb_recovery_secs :: u64

definition cb_new :: circuit_breaker where
  "cb_new = \<lparr>cb_failures = 0, cb_last_failure = 0, cb_threshold = 5, cb_recovery_secs = 30\<rparr>"

definition cb_is_open :: "u64 \<Rightarrow> circuit_breaker \<Rightarrow> bool" where
  "cb_is_open now cb \<longleftrightarrow>
     (if cb_failures cb < cb_threshold cb then False
      else saturating_sub now (cb_last_failure cb) < cb_recovery_secs cb)"

definition cb_record_failure :: "u64 \<Rightarrow> circuit_breaker \<Rightarrow> circuit_breaker" where
  "cb_record_failure now cb = cb\<lparr>cb_failures := cb_failures cb + 1, cb_last_failure := now\<rparr>"

definition cb_record_success :: "circuit_breaker \<Rightarrow> circuit_breaker" where
  "cb_record_success cb = cb\<lparr>cb_failures := 0\<rparr>"

text \<open>The upstream's history, newest outcome last: a failure with its time, or a success.\<close>

datatype outcome = Failed u64 | Succeeded

fun cb_step :: "outcome \<Rightarrow> circuit_breaker \<Rightarrow> circuit_breaker" where
  "cb_step (Failed t) cb = cb_record_failure t cb"
| "cb_step Succeeded cb = cb_record_success cb"

definition failure_streak :: "outcome list \<Rightarrow> u64 list" where
  "failure_streak h = map (\<lambda>e. case e of Failed t \<Rightarrow> t | Succeeded \<Rightarrow> 0)
     (takeWhile (\<lambda>e. e \<noteq> Succeeded) (rev h))"

lemma failure_streak_snoc [simp]:
  "failure_streak [] = []"
  "failure_streak (h @ [Failed t]) = t # failure_streak h"
  "failure_streak (h @ [Succeeded]) = []"
  by (simp_all add: failure_streak_def)

text \<open>The counter refines the history: it is the streak's length modulo \<open>2 ^ 32\<close>.\<close>

lemma cb_refines:
  "cb_failures (fold cb_step h cb_new) = of_nat (length (failure_streak h)) \<and>
   (failure_streak h \<noteq> [] \<longrightarrow> cb_last_failure (fold cb_step h cb_new) = hd (failure_streak h)) \<and>
   cb_threshold (fold cb_step h cb_new) = 5 \<and> cb_recovery_secs (fold cb_step h cb_new) = 30"
proof (induction h rule: rev_induct)
  case Nil
  then show ?case by (simp add: cb_new_def)
next
  case (snoc e h)
  then show ?case by (cases e) (auto simp: cb_record_failure_def cb_record_success_def)
qed

lemma cb_open_iff:
  assumes "length (failure_streak h) < 2 ^ 32"
  shows "cb_is_open now (fold cb_step h cb_new) \<longleftrightarrow>
    5 \<le> length (failure_streak h) \<and> unat now - unat (hd (failure_streak h)) < 30"
proof -
  have "unat (of_nat (length (failure_streak h)) :: u32) = length (failure_streak h)"
    using assms by (simp add: unat_of_nat take_bit_nat_eq_self_iff)
  with cb_refines [of h] show ?thesis
    by (auto simp: cb_is_open_def word_nat unat_saturating_sub)
qed

section \<open>Properties\<close>

text \<open>The rate limiter never panics, and in no minute does it accept more than twice its
  limit for an address, whatever else is requested and however clean-ups interleave. Twice the
  limit is as good as a fixed window gets: the documented sliding window of 100 per minute is
  not what it implements (the witness accepts 199 requests within two seconds).\<close>

theorem rate_limiter_minute_bound:
  assumes "length es < 2 ^ 64" and "ordered_from (2 ^ 64) 0 es"
  shows "\<exists>log s'. run_limiter rl_check (\<lambda>t m. Some (rl_cleanup t m)) es rate_limiter_new = Some (log, s') \<and>
    accepted_from ip a log \<le> 200"
proof -
  have tr: "rl_tracked 0 (length es) rate_limiter_new" using assms(1) by (rule rl_tracked_new)
  from rate_window.run_total [OF tr assms(2)] obtain log s' where
    run: "run_limiter rl_check (\<lambda>t m. Some (rl_cleanup t m)) es rate_limiter_new = Some (log, s')"
    by blast
  from rate_window.minute_bound [OF tr assms(2) run] run show ?thesis by auto
qed

definition burst :: "(u64 \<times> string limiter_event) list" where
  "burst = (0, Hit ''ip'') # replicate 99 (60, Hit ''ip'') @ (61, Hit ''ip'') #
     replicate 99 (61, Hit ''ip'')"

lemma burst_log:
  "\<exists>s'. run_limiter rl_check (\<lambda>t m. Some (rl_cleanup t m)) burst rate_limiter_new =
     Some ((0, ''ip'') # replicate 99 (60, ''ip'') @ (61, ''ip'') # replicate 99 (61, ''ip''), s')"
proof -
  let ?run = "run_limiter rl_check (\<lambda>t m. Some (rl_cleanup t m))"
  have "rl_window rate_limiter_new ''ip'' = None" by (simp add: rl_window_def rate_limiter_new_def)
  from rate_window.check_new [OF rl_tracked_new [of "Suc 199"] _ _ this, of 0] obtain s1 where
    s1: "rl_check 0 ''ip'' rate_limiter_new = Some (s1, True)" "rl_tracked 0 (99 + 100) s1"
      "rl_window s1 ''ip'' = Some (1, 0)" by auto
  from rate_window.run_burst [OF s1(2) _ _ s1(3), of 60] obtain s2 n2 where
    s2: "?run (replicate 99 (60, Hit ''ip'')) s1 = Some (replicate 99 (60, ''ip''), s2)"
      "n2 \<le> 60" "rl_tracked n2 (Suc 99) s2" "rl_window s2 ''ip'' = Some (100, 0)" by auto
  from rate_window.check_next [OF s2(3) _ _ s2(4), of 61] obtain s3 where
    s3: "rl_check 61 ''ip'' s2 = Some (s3, True)" "rl_tracked 61 (99 + 0) s3"
      "rl_window s3 ''ip'' = Some (1, 61)" using s2(2) by auto
  from rate_window.run_burst [OF s3(2) _ _ s3(3), of 61] obtain s4 where
    s4: "?run (replicate 99 (61, Hit ''ip'')) s3 = Some (replicate 99 (61, ''ip''), s4)" by auto
  show ?thesis unfolding burst_def
    using s1(1) s2(1) s3(1) s4 by (simp add: run_limiter_append)
qed

theorem rate_limiter_minute_bound_witness:
  "\<exists>log s'. run_limiter rl_check (\<lambda>t m. Some (rl_cleanup t m)) burst rate_limiter_new = Some (log, s') \<and>
     accepted_from ''ip'' 1 log = 199 \<and> accepted_from ''ip'' 0 log \<le> 200"
proof -
  have "length burst < 2 ^ 64" by (simp add: burst_def)
  moreover have "ordered_from (2 ^ 64) 0 burst"
    using ordered_from_replicate [of "2 ^ 64" 61 99 61 "Hit ''ip''" "[]"]
    by (simp add: burst_def ordered_from_replicate)
  ultimately obtain log s' where run: "run_limiter rl_check (\<lambda>t m. Some (rl_cleanup t m)) burst
      rate_limiter_new = Some (log, s')" "accepted_from ''ip'' 0 log \<le> 200"
    using rate_limiter_minute_bound by blast
  with burst_log have "accepted_from ''ip'' 1 log = 199" by auto
  with run show ?thesis by blast
qed

text \<open>The circuit breaker implements its history. It is open exactly while the last five or
  more upstream calls all failed and the newest failure is less than 30 seconds old.\<close>

theorem circuit_breaker_history:
  assumes "length (failure_streak h) < 2 ^ 32"
  shows "cb_is_open now (fold cb_step h cb_new) \<longleftrightarrow>
    5 \<le> length (failure_streak h) \<and> unat now - unat (hd (failure_streak h)) < 30"
  using assms by (rule cb_open_iff)

definition example_outcomes :: "outcome list" where
  "example_outcomes = [Failed 1, Succeeded, Failed 20, Failed 20, Failed 20, Failed 20, Failed 20]"

theorem circuit_breaker_history_witness:
  "cb_is_open 40 (fold cb_step example_outcomes cb_new) \<and>
   \<not> cb_is_open 50 (fold cb_step example_outcomes cb_new)"
proof -
  have "failure_streak example_outcomes = [20, 20, 20, 20, 20]"
    by (simp add: failure_streak_def example_outcomes_def)
  with circuit_breaker_history [of example_outcomes 40] circuit_breaker_history [of example_outcomes 50]
  show ?thesis by simp
qed

text \<open>The signer accepts exactly the signature of the payload and timestamp within the
  freshness window, but it signs their concatenation: a signature of a payload that ends in a
  digit is also one of the shorter payload at a later timestamp, and is accepted there at any
  time before that timestamp, so the replay protection does not hold.\<close>

theorem signature_replayed_later:
  assumes "verify mac hex rs now (p @ [hex_digits ! d]) ts sig" and "0 < d" "d < 10"
    and "d * 10 ^ length (decimal (unat ts)) + unat ts < 2 ^ 64"
    and "unat later \<le> d * 10 ^ length (decimal (unat ts)) + unat ts"
  shows "sig = sign mac hex rs (p @ [hex_digits ! d]) ts \<and> unat now - unat ts \<le> 30 \<and>
    verify mac hex rs later p (of_nat (d * 10 ^ length (decimal (unat ts)) + unat ts)) sig"
  using assms sign_shift [OF assms(2-4)]
  by (simp add: verify_iff unat_of_nat64 del: of_nat_add of_nat_mult)

text \<open>A request of 2024 signed for the payload id=7, accepted 30 years later for id=.\<close>

lemma decimal_1700000000: "decimal 1700000000 = ''1700000000''"
  by (simp add: decimal.simps hex_digits_def)

theorem signature_replayed_later_witness:
  "verify (\<lambda>k m. m) hex_encode \<lparr>secret_key = ''k''\<rparr> 1700000010 ''id=7'' 1700000000
     (sign (\<lambda>k m. m) hex_encode \<lparr>secret_key = ''k''\<rparr> ''id=7'' 1700000000) \<and>
   verify (\<lambda>k m. m) hex_encode \<lparr>secret_key = ''k''\<rparr> 2646684800 ''id='' 71700000000
     (sign (\<lambda>k m. m) hex_encode \<lparr>secret_key = ''k''\<rparr> ''id=7'' 1700000000)"
proof -
  let ?rs = "\<lparr>secret_key = ''k''\<rparr>" and ?mac = "\<lambda>k m. m"
  have d: "''id='' @ [hex_digits ! 7] = ''id=7''" by (simp add: hex_digits_def)
  have first: "verify ?mac hex_encode ?rs 1700000010 ''id=7'' 1700000000 (sign ?mac hex_encode ?rs ''id=7'' 1700000000)"
    by (simp add: verify_iff)
  then have "verify ?mac hex_encode ?rs 1700000010 (''id='' @ [hex_digits ! 7]) 1700000000
      (sign ?mac hex_encode ?rs ''id=7'' 1700000000)" by (simp only: d)
  note replay = signature_replayed_later [OF this, of 2646684800, unfolded d]
  have "verify ?mac hex_encode ?rs 2646684800 ''id='' 71700000000 (sign ?mac hex_encode ?rs ''id=7'' 1700000000)"
    using replay by (simp add: decimal_1700000000)
  with first show ?thesis by blast
qed

text \<open>The input sanitizer lets a payload through exactly when it has a \<open>jsonrpc\<close> entry and
  a method of the whitelist, prints to at most 100 KB, and contains no chain of more than five
  nested containers.\<close>

theorem sanitizer_accepts_iff:
  "sanitizer_validate to_str v = Inr () \<longleftrightarrow>
     json_get v ''jsonrpc'' \<noteq> None \<and>
     (\<exists>meth. json_get v ''method'' = Some (JStr meth) \<and> meth \<in> set ALLOWED_METHODS) \<and>
     length (to_str v) \<le> 102400 \<and> \<not> nested 6 v"
proof -
  have down: "nested m v" if "nested n v" "m \<le> n" for m n v
    using that
  proof (induction arbitrary: m rule: nested.induct)
    case (nested_obj k v ms n)
    then show ?case by (cases m) (auto intro: nested.intros)
  next
    case (nested_arr v vs n)
    then show ?case by (cases m) (auto intro: nested.intros)
  qed (auto intro: nested.intros nested_obj_here [simplified] nested_arr_here [simplified]
      simp: le_Suc_eq)
  have "(\<forall>k. nested k v \<longrightarrow> k \<le> 5) \<longleftrightarrow> \<not> nested 6 v"
  proof
    assume "\<not> nested 6 v"
    then have "\<not> 6 \<le> k" if "nested k v" for k using down that by blast
    then show "\<forall>k. nested k v \<longrightarrow> k \<le> 5" by fastforce
  qed auto
  then show ?thesis by (simp add: sanitizer_ok_iff)
qed

end
