(* ===== verification/Sharding.thy ===== *)
theory Sharding
  imports Rust_Text
begin

text \<open>
  \<open>sns-daemon/src/sharding.rs\<close>: the three shards, the table of methods and the routing
  decisions made from it.
\<close>

datatype shard_type = DeFi | NFT | General

record shard_router =
  sr_shard_type :: shard_type
  sr_method_map :: "string \<rightharpoonup> shard_type"

definition defi_methods :: "string list" where
  "defi_methods =
    [''sendTransaction'', ''simulateTransaction'', ''getLatestBlockhash'', ''getFeeForMessage'',
     ''getRecentPrioritizationFees'', ''getTokenAccountBalance'', ''getTokenAccountsByOwner'']"

definition nft_methods :: "string list" where
  "nft_methods =
    [''getAccountInfo'', ''getMultipleAccounts'', ''getProgramAccounts'',
     ''getTokenLargestAccounts'', ''getTokenSupply'']"

definition shard_router_new :: "shard_type \<Rightarrow> shard_router" where
  "shard_router_new st =
     (let method_map = fold (\<lambda>m f. f(m \<mapsto> DeFi)) defi_methods Map.empty;
          method_map = fold (\<lambda>m f. f(m \<mapsto> NFT)) nft_methods method_map in
      \<lparr>sr_shard_type = st, sr_method_map = method_map\<rparr>)"

definition should_handle :: "shard_router \<Rightarrow> string \<Rightarrow> bool" where
  "should_handle r meth =
     (case sr_method_map r meth of
        Some required_shard \<Rightarrow> required_shard = sr_shard_type r
      | None \<Rightarrow> sr_shard_type r = General)"

definition get_shard_for_method :: "shard_router \<Rightarrow> string \<Rightarrow> shard_type" where
  "get_shard_for_method r meth =
     (case sr_method_map r meth of Some s \<Rightarrow> s | None \<Rightarrow> General)"

fun shard_index :: "shard_type \<Rightarrow> nat" where
  "shard_index DeFi = 0"
| "shard_index NFT = 1"
| "shard_index General = 2"

definition select_peer_for_shard :: "shard_type \<Rightarrow> string list \<Rightarrow> string option" where
  "select_peer_for_shard shard peers =
     (if peers = [] then None else Some (peers ! (shard_index shard mod length peers)))"

section \<open>Routing\<close>

lemma should_handle_iff: "should_handle r meth \<longleftrightarrow> get_shard_for_method r meth = sr_shard_type r"
  by (auto simp: should_handle_def get_shard_for_method_def split: option.splits)

lemma fold_upd_const: "fold (\<lambda>m f. f(m \<mapsto> v)) ms f k = (if k \<in> set ms then Some v else f k)"
  by (induction ms arbitrary: f) auto

lemma method_map_new:
  "sr_method_map (shard_router_new st) meth =
     (if meth \<in> set nft_methods then Some NFT
      else if meth \<in> set defi_methods then Some DeFi else None)"
  by (simp add: shard_router_new_def fold_upd_const)

lemma shard_type_new [simp]: "sr_shard_type (shard_router_new st) = st"
  by (simp add: shard_router_new_def)

lemma get_shard_new:
  "get_shard_for_method (shard_router_new st) meth =
     (if meth \<in> set nft_methods then NFT else if meth \<in> set defi_methods then DeFi else General)"
  by (simp add: get_shard_for_method_def method_map_new)

lemma tables_disjoint: "set nft_methods \<inter> set defi_methods = {}"
  by (simp add: nft_methods_def defi_methods_def)

lemma select_peer_mem: "select_peer_for_shard shard peers = Some p \<Longrightarrow> p \<in> set peers"
  by (auto simp: select_peer_for_shard_def split: if_splits)

section \<open>Properties\<close>

text \<open>The mesh partitions the methods. Every method is handled by routers of exactly one
  shard type, the one every router names for it: DeFi for its table, NFT for its table and
  General for everything else.\<close>

theorem methods_partitioned:
  "should_handle (shard_router_new st) meth \<longleftrightarrow>
     st = (if meth \<in> set defi_methods then DeFi else if meth \<in> set nft_methods then NFT else General)"
  using tables_disjoint by (auto simp: should_handle_iff get_shard_new)

end
