(* ===== verification/Geo_Router.thy ===== *)
theory Geo_Router
  imports Rust_Text
begin

text \<open>
  \<open>sns-daemon/src/geo_router.rs\<close>: regions, the table of mesh nodes and the choice of the
  best node for a client's region.
\<close>

datatype region =
  AsiaSouth | AsiaEast | EuropeWest | USEast | USWest | SouthAmerica | Africa | MiddleEast

definition from_env_str :: "string \<Rightarrow> region" where
  "from_env_str s =
     (let l = to_lowercase s in
      if l = ''asia-east'' then AsiaEast
      else if l = ''europe-west'' then EuropeWest
      else if l = ''us-east'' then USEast
      else if l = ''us-west'' then USWest
      else if l = ''south-america'' then SouthAmerica
      else if l = ''africa'' then Africa
      else if l = ''middle-east'' then MiddleEast
      else AsiaSouth)"

fun nearest_regions :: "region \<Rightarrow> region list" where
  "nearest_regions AsiaSouth = [AsiaEast, MiddleEast, EuropeWest]"
| "nearest_regions AsiaEast = [AsiaSouth, USWest, EuropeWest]"
| "nearest_regions EuropeWest = [USEast, MiddleEast, AsiaSouth]"
| "nearest_regions USEast = [EuropeWest, USWest, SouthAmerica]"
| "nearest_regions USWest = [AsiaEast, USEast, AsiaSouth]"
| "nearest_regions SouthAmerica = [USEast, EuropeWest, Africa]"
| "nearest_regions Africa = [EuropeWest, MiddleEast, SouthAmerica]"
| "nearest_regions MiddleEast = [EuropeWest, AsiaSouth, Africa]"

record geo_node =
  gn_peer_id :: string
  gn_endpoint :: string
  gn_region :: region
  gn_latency_ms :: u64
  gn_load_percent :: u8
  gn_alive :: bool

record geo_router =
  gr_nodes :: "(string, geo_node) dashmap"
  gr_local_region :: region

definition geo_router_new :: "region \<Rightarrow> geo_router" where
  "geo_router_new r = \<lparr>gr_nodes = dm_new, gr_local_region = r\<rparr>"

definition geo_register_node :: "geo_node \<Rightarrow> geo_router \<Rightarrow> geo_router" where
  "geo_register_node n g = g\<lparr>gr_nodes := dm_insert (gn_peer_id n) n (gr_nodes g)\<rparr>"

definition geo_values :: "geo_router \<Rightarrow> geo_node list" where
  "geo_values g = map snd (dm_entries (gr_nodes g))"

text \<open>The loop over the adjacent regions, which returns from inside.\<close>

fun find_adjacent :: "geo_node list \<Rightarrow> region list \<Rightarrow> geo_node option" where
  "find_adjacent ns [] = None"
| "find_adjacent ns (adjacent # rs) =
     (let adj_nodes =
        filter (\<lambda>n. gn_region n = adjacent \<and> gn_alive n \<and> gn_load_percent n < 90) ns in
      case min_by_key gn_latency_ms adj_nodes of
        Some best \<Rightarrow> Some best
      | None \<Rightarrow> find_adjacent ns rs)"

definition find_best_node :: "geo_router \<Rightarrow> region \<Rightarrow> geo_node option" where
  "find_best_node g client_region =
     (let ns = geo_values g;
          same =
            filter (\<lambda>n. gn_region n = client_region \<and> gn_alive n \<and> gn_load_percent n < 80) ns in
      case min_by_key gn_latency_ms same of
        Some best \<Rightarrow> Some best
      | None \<Rightarrow>
          (case find_adjacent ns (nearest_regions client_region) of
             Some best \<Rightarrow> Some best
           | None \<Rightarrow> min_by_key gn_latency_ms (filter gn_alive ns)))"

definition update_node_health :: "string \<Rightarrow> u64 \<Rightarrow> u8 \<Rightarrow> bool \<Rightarrow> geo_router \<Rightarrow> geo_router" where
  "update_node_health peer_id latency load alive g =
     (case dm_get (gr_nodes g) peer_id of
        None \<Rightarrow> g
      | Some n \<Rightarrow> g\<lparr>gr_nodes := dm_insert peer_id
          (n\<lparr>gn_latency_ms := latency, gn_load_percent := load, gn_alive := alive\<rparr>)
          (gr_nodes g)\<rparr>)"

section \<open>The choice of a node\<close>

text \<open>The abstract contract: the tiers of candidates in the order of preference; the answer is
  a fastest node of the first tier that has one.\<close>

definition tiers :: "region \<Rightarrow> (geo_node \<Rightarrow> bool) list" where
  "tiers r =
     (\<lambda>n. gn_region n = r \<and> gn_alive n \<and> gn_load_percent n < 80) #
     map (\<lambda>a n. gn_region n = a \<and> gn_alive n \<and> gn_load_percent n < 90) (nearest_regions r) @
     [gn_alive]"

fun first_tier :: "(geo_node \<Rightarrow> bool) list \<Rightarrow> geo_node list \<Rightarrow> geo_node option" where
  "first_tier [] ns = None"
| "first_tier (P # Ps) ns =
     (case min_by_key gn_latency_ms (filter P ns) of Some n \<Rightarrow> Some n | None \<Rightarrow> first_tier Ps ns)"

lemma first_tier_append:
  "first_tier (Ps @ Qs) ns =
     (case first_tier Ps ns of Some n \<Rightarrow> Some n | None \<Rightarrow> first_tier Qs ns)"
  by (induction Ps) (auto split: option.splits)

lemma find_adjacent_tiers:
  "find_adjacent ns rs =
     first_tier (map (\<lambda>a n. gn_region n = a \<and> gn_alive n \<and> gn_load_percent n < 90) rs) ns"
  by (induction rs) (simp_all split: option.splits)

lemma find_best_node_tiers: "find_best_node g r = first_tier (tiers r) (geo_values g)"
  by (simp add: find_best_node_def tiers_def first_tier_append find_adjacent_tiers
      split: option.splits)

lemma first_tier_Some:
  "first_tier Ps ns = Some n \<longleftrightarrow>
     (\<exists>i<length Ps. (\<forall>j<i. \<forall>n'\<in>set ns. \<not> (Ps ! j) n') \<and>
        min_by_key gn_latency_ms (filter (Ps ! i) ns) = Some n)"
proof (induction Ps)
  case Nil
  then show ?case by simp
next
  case (Cons P Ps)
  show ?case
  proof (cases "min_by_key gn_latency_ms (filter P ns)")
    case None
    then have none: "\<forall>n'\<in>set ns. \<not> P n'" by (simp add: filter_empty_conv)
    have "(\<exists>i<length (P # Ps). (\<forall>j<i. \<forall>n'\<in>set ns. \<not> ((P # Ps) ! j) n') \<and>
        min_by_key gn_latency_ms (filter ((P # Ps) ! i) ns) = Some n) \<longleftrightarrow>
      (\<exists>i<length Ps. (\<forall>j<i. \<forall>n'\<in>set ns. \<not> (Ps ! j) n') \<and>
        min_by_key gn_latency_ms (filter (Ps ! i) ns) = Some n)"
      using None none by (simp add: Ex_less_Suc2 All_less_Suc2)
    with Cons None show ?thesis by simp
  next
    case (Some m)
    then have "\<exists>n'\<in>set ns. P n'" using min_by_key_mem [OF Some] by auto
    with Some show ?thesis by (auto simp: Ex_less_Suc2 All_less_Suc2)
  qed
qed

lemma find_best_node_None: "find_best_node g r = None \<longleftrightarrow> (\<forall>n\<in>set (geo_values g). \<not> gn_alive n)"
proof
  assume "find_best_node g r = None"
  then show "\<forall>n\<in>set (geo_values g). \<not> gn_alive n"
    by (auto simp: find_best_node_tiers tiers_def first_tier_append filter_empty_conv
        split: option.splits)
next
  assume dead: "\<forall>n\<in>set (geo_values g). \<not> gn_alive n"
  show "find_best_node g r = None"
  proof (rule ccontr)
    assume "find_best_node g r \<noteq> None"
    then obtain n i where "i < length (tiers r)"
        "min_by_key gn_latency_ms (filter (tiers r ! i) (geo_values g)) = Some n"
      unfolding find_best_node_tiers using first_tier_Some by blast
    then have "n \<in> set (geo_values g)" and "(tiers r ! i) n" and "tiers r ! i \<in> set (tiers r)"
      using min_by_key_mem by (fastforce, fastforce, simp)
    then have "gn_alive n" by (auto simp: tiers_def)
    with dead \<open>n \<in> set (geo_values g)\<close> show False by blast
  qed
qed

section \<open>Properties\<close>

text \<open>C17: the router's answer is exactly the contract: an answer exists when some node is
  alive, and it is a fastest node of the first tier with a candidate (the client's region below
  80 percent load, then the three adjacent regions in their order below 90, then anything
  alive), whatever the iteration order of the concurrent map.\<close>

theorem best_node_contract:
  "(find_best_node g r = None \<longleftrightarrow> (\<forall>n\<in>set (geo_values g). \<not> gn_alive n)) \<and>
   (\<forall>n. find_best_node g r = Some n \<longrightarrow>
     (\<exists>i<length (tiers r). n \<in> set (geo_values g) \<and> (tiers r ! i) n \<and>
        (\<forall>n'\<in>set (geo_values g). (tiers r ! i) n' \<longrightarrow> gn_latency_ms n \<le> gn_latency_ms n') \<and>
        (\<forall>j<i. \<forall>n'\<in>set (geo_values g). \<not> (tiers r ! j) n')))"
proof (intro conjI allI impI)
  show "find_best_node g r = None \<longleftrightarrow> (\<forall>n\<in>set (geo_values g). \<not> gn_alive n)"
    by (rule find_best_node_None)
next
  fix n
  assume "find_best_node g r = Some n"
  then obtain i where "i < length (tiers r)" "\<forall>j<i. \<forall>n'\<in>set (geo_values g). \<not> (tiers r ! j) n'"
      and best: "min_by_key gn_latency_ms (filter (tiers r ! i) (geo_values g)) = Some n"
    unfolding find_best_node_tiers first_tier_Some by blast
  moreover from min_by_key_mem [OF best] min_by_key_le [OF best]
  have "n \<in> set (geo_values g)" "(tiers r ! i) n"
      "\<forall>n'\<in>set (geo_values g). (tiers r ! i) n' \<longrightarrow> gn_latency_ms n \<le> gn_latency_ms n'"
    by auto
  ultimately show "\<exists>i<length (tiers r). n \<in> set (geo_values g) \<and> (tiers r ! i) n \<and>
      (\<forall>n'\<in>set (geo_values g). (tiers r ! i) n' \<longrightarrow> gn_latency_ms n \<le> gn_latency_ms n') \<and>
      (\<forall>j<i. \<forall>n'\<in>set (geo_values g). \<not> (tiers r ! j) n')"
    by blast
qed

text \<open>A busy node at home, a fast idle one next door and a slow one elsewhere.\<close>

definition example_geo :: geo_router where
  "example_geo = fold geo_register_node
     [\<lparr>gn_peer_id = ''a'', gn_endpoint = ''http://a'', gn_region = AsiaSouth, gn_latency_ms = 1,
        gn_load_percent = 85, gn_alive = True\<rparr>,
      \<lparr>gn_peer_id = ''b'', gn_endpoint = ''http://b'', gn_region = MiddleEast, gn_latency_ms = 40,
        gn_load_percent = 85, gn_alive = True\<rparr>,
      \<lparr>gn_peer_id = ''c'', gn_endpoint = ''http://c'', gn_region = USWest, gn_latency_ms = 2,
        gn_load_percent = 5, gn_alive = True\<rparr>] (geo_router_new AsiaSouth)"

theorem best_node_contract_witness:
  "\<exists>n. find_best_node example_geo AsiaSouth = Some n \<and> gn_peer_id n = ''b'' \<and>
     n \<in> set (geo_values example_geo) \<and> gn_alive n"
proof -
  obtain n where n: "find_best_node example_geo AsiaSouth = Some n" "gn_peer_id n = ''b''"
    by (simp add: example_geo_def geo_register_node_def geo_router_new_def geo_values_def
        find_best_node_def Let_def DAList.update.rep_eq DAList.empty.rep_eq)
  from best_node_contract [of example_geo AsiaSouth] n(1)
  obtain i where "i < length (tiers AsiaSouth)" "n \<in> set (geo_values example_geo)"
      "(tiers AsiaSouth ! i) n" by blast
  moreover from this have "gn_alive n"
    using nth_mem [of i "tiers AsiaSouth"] by (auto simp: tiers_def)
  ultimately show ?thesis using n by blast
qed

end
