(* ===== verification/Config.thy ===== *)
theory Config
  imports Sharding Geo_Router
begin

text \<open>
  \<open>sns-daemon/src/config.rs\<close>: the configuration read from the environment, which is a map
  from variable names to values (\<open>env::var\<close> fails on a name that is not set).
\<close>

type_synonym environment = "string \<rightharpoonup> string"

record config =
  solana_rpc_url :: string
  http_port :: u16
  p2p_port :: u16
  node_name :: string
  log_level :: string
  cfg_shard_type :: shard_type
  cfg_region :: region
  max_concurrent_requests :: usize
  rate_limit_per_min :: u64
  node_wallet_pubkey :: string
  is_relay :: bool
  relay_max_reservations :: usize
  relay_max_circuits :: usize
  enable_dcutr :: bool
  bootstrap_nodes :: "string list"
  env_mode :: string
  whitelist_ip :: string
  telemetry_url :: string

definition var_or :: "environment \<Rightarrow> string \<Rightarrow> string \<Rightarrow> string" where
  "var_or env name d = (case env name of Some v \<Rightarrow> v | None \<Rightarrow> d)"

definition parsed_word_or :: "environment \<Rightarrow> string \<Rightarrow> 'a::len word \<Rightarrow> 'a word" where
  "parsed_word_or env name d =
     (case Option.bind (env name) (parse_unsigned (2 ^ LENGTH('a))) of Some n \<Rightarrow> of_nat n | None \<Rightarrow> d)"

definition parsed_bool_or :: "environment \<Rightarrow> string \<Rightarrow> bool \<Rightarrow> bool" where
  "parsed_bool_or env name d =
     (case Option.bind (env name) parse_bool of Some b \<Rightarrow> b | None \<Rightarrow> d)"

definition shard_from_str :: "string \<Rightarrow> shard_type" where
  "shard_from_str s =
     (let l = to_lowercase s in
      if l = ''defi'' then DeFi else if l = ''nft'' then NFT else General)"

definition bootstrap_list :: "string \<Rightarrow> string list" where
  "bootstrap_list s = map trim (filter (\<lambda>w. trim w \<noteq> []) (split_char (CHR '','') s))"

definition from_env :: "environment \<Rightarrow> config" where
  "from_env env = \<lparr>
     solana_rpc_url = var_or env ''SOLANA_RPC_URL'' ''https://api.devnet.solana.com'',
     http_port =
       (let text = (case env ''PORT'' of
            Some v \<Rightarrow> v
          | None \<Rightarrow> (case env ''HTTP_PORT'' of Some v \<Rightarrow> v | None \<Rightarrow> ''8080'')) in
        case parse_unsigned (2 ^ 16) text of Some n \<Rightarrow> of_nat n | None \<Rightarrow> 8080),
     p2p_port = parsed_word_or env ''P2P_PORT'' 9001,
     node_name = var_or env ''NODE_NAME'' ''sns-node-1'',
     log_level = var_or env ''LOG_LEVEL'' ''info'',
     cfg_shard_type = shard_from_str (var_or env ''SOLNET_SHARD'' ''general''),
     cfg_region = from_env_str (var_or env ''SOLNET_REGION'' ''asia-south''),
     max_concurrent_requests = parsed_word_or env ''MAX_CONCURRENT'' 100,
     rate_limit_per_min = max (parsed_word_or env ''RATE_LIMIT'' 100) 10,
     node_wallet_pubkey = var_or env ''NODE_WALLET_PUBKEY'' '''',
     is_relay = parsed_bool_or env ''SOLNET_IS_RELAY'' False,
     relay_max_reservations = parsed_word_or env ''RELAY_MAX_RESERVATIONS'' 128,
     relay_max_circuits = parsed_word_or env ''RELAY_MAX_CIRCUITS'' 64,
     enable_dcutr = parsed_bool_or env ''SOLNET_DCUTR'' True,
     bootstrap_nodes = bootstrap_list (var_or env ''SOLNET_BOOTSTRAP'' ''''),
     env_mode = var_or env ''SOLNET_ENV'' ''production'',
     whitelist_ip = var_or env ''SOLNET_WHITELIST_IP'' '''',
     telemetry_url = var_or env ''SOLNET_TELEMETRY_URL''
       ''https://solnet-production.up.railway.app/telemetry/ingest''\<rparr>"

section \<open>What the reader of the environment guarantees\<close>

lemma rate_limit_floor: "10 \<le> rate_limit_per_min (from_env env)"
  by (simp add: from_env_def)

lemma bootstrap_clean:
  "w \<in> set (bootstrap_nodes (from_env env)) \<Longrightarrow>
     w \<noteq> [] \<and> \<not> is_space (hd w) \<and> \<not> is_space (last w)"
  by (auto simp: from_env_def bootstrap_list_def dest: trim_hd)

text \<open>A number written in decimal is read back as it is.\<close>

lemma parsed_word_decimal:
  fixes n :: "'a::len word"
  assumes "env name = Some (decimal (unat n))"
  shows "parsed_word_or env name d = n"
proof -
  have "unat n < 2 ^ LENGTH('a)" by (rule unsigned_less)
  then show ?thesis using assms by (simp add: parsed_word_or_def parse_decimal)
qed

lemma http_port_decimal:
  assumes "env ''PORT'' = Some (decimal (unat p))"
  shows "http_port (from_env env) = p"
proof -
  have "unat p < 2 ^ 16" using unsigned_less [of p] by simp
  then show ?thesis using assms by (simp add: from_env_def parse_decimal)
qed

end
