(* ===== verification/Attack_Prevention.thy ===== *)
theory Attack_Prevention
  imports Config Guard_Interfaces
begin

text \<open>
  \<open>sns-daemon/src/attack_prevention.rs\<close>: bans, the request limit per address, the payload
  scan and the host check. \<open>now\<close> is the reading of \<open>Self::now()\<close>, taken once per call.
\<close>

record ip_record =
  ir_count :: u64
  ir_window_start :: u64
  ir_last_seen :: u64

record attack_prevention =
  ip_requests :: "(string, ip_record) dashmap"
  banned_ips :: "(string, u64) dashmap"
  total_requests :: u64

datatype rate_result = Allowed | Limited u64 | Banned

datatype scan_result = Clean | Blocked string

definition attack_patterns :: "string list" where
  "attack_patterns =
    [[CHR 0x27] @ '' OR '' @ [CHR 0x27] @ ''1'' @ [CHR 0x27] @ ''='' @ [CHR 0x27] @ ''1'',
     ''DROP TABLE'', ''<script>'', ''javascript:'', ''../'', ''..'' @ [CHR 0x5C], [CHR 0x00]]"

definition ap_new :: attack_prevention where
  "ap_new = \<lparr>ip_requests = dm_new, banned_ips = dm_new, total_requests = 0\<rparr>"

section \<open>Operations\<close>

definition is_banned :: "u64 \<Rightarrow> string \<Rightarrow> attack_prevention \<Rightarrow> bool \<times> attack_prevention" where
  "is_banned now ip s =
     (case dm_get (banned_ips s) ip of
        Some expiry \<Rightarrow>
          if now < expiry then (True, s)
          else (False, s\<lparr>banned_ips := dm_remove ip (banned_ips s)\<rparr>)
      | None \<Rightarrow> (False, s))"

definition ban_ip :: "u64 \<Rightarrow> string \<Rightarrow> u64 \<Rightarrow> attack_prevention \<Rightarrow> attack_prevention option" where
  "ban_ip now ip duration s = do {
     expiry \<leftarrow> checked_add now duration;
     Some (s\<lparr>banned_ips := dm_insert ip expiry (banned_ips s)\<rparr>)
   }"

text \<open>The record's update in \<open>check_rate_limit\<close>: a new window when the old one is over, and
  one request more.\<close>

definition touch :: "u64 \<Rightarrow> ip_record \<Rightarrow> ip_record option" where
  "touch now rec = do {
     elapsed \<leftarrow> checked_sub now (ir_window_start rec);
     let rec = (if 60 < elapsed then rec\<lparr>ir_count := 0, ir_window_start := now\<rparr> else rec);
     count \<leftarrow> checked_add (ir_count rec) 1;
     Some (rec\<lparr>ir_count := count, ir_last_seen := now\<rparr>)
   }"

definition check_rate_limit ::
  "u64 \<Rightarrow> string \<Rightarrow> attack_prevention \<Rightarrow> (attack_prevention \<times> rate_result) option" where
  "check_rate_limit now ip s = do {
     rec \<leftarrow> touch now (dm_or_insert (ip_requests s) ip
       \<lparr>ir_count = 0, ir_window_start = now, ir_last_seen = now\<rparr>);
     let s' = s\<lparr>ip_requests := dm_insert ip rec (ip_requests s)\<rparr>;
     if 1000 < ir_count rec then do {
       s'' \<leftarrow> ban_ip now ip 86400 s';
       Some (s'', Banned)
     }
     else if 100 < ir_count rec then do {
       in_window \<leftarrow> checked_sub now (ir_window_start rec);
       retry_after \<leftarrow> checked_sub 60 in_window;
       Some (s', Limited retry_after)
     }
     else Some (s', Allowed)
   }"

definition open_brackets :: "string \<Rightarrow> nat" where
  "open_brackets p = length (filter (\<lambda>c. c = CHR ''{'' \<or> c = CHR ''['') p)"

definition scan_payload :: "string \<Rightarrow> scan_result" where
  "scan_payload payload =
     (let payload_lower = to_lowercase payload in
      if 102400 < length payload then Blocked ''payload too large''
      else if \<exists>pattern\<in>set attack_patterns. contains payload_lower (to_lowercase pattern)
      then Blocked ''attack pattern detected''
      else if 20 < open_brackets payload then Blocked ''too deeply nested''
      else Clean)"

definition sweep_bans :: "u64 \<Rightarrow> attack_prevention \<Rightarrow> attack_prevention" where
  "sweep_bans now s = s\<lparr>banned_ips := dm_retain (\<lambda>_ expiry. now < expiry) (banned_ips s)\<rparr>"

text \<open>\<open>now - r.last_seen\<close> panics when an entry was seen later than the clock now reads.\<close>

definition cleanup :: "u64 \<Rightarrow> attack_prevention \<Rightarrow> attack_prevention option" where
  "cleanup now s =
     (if \<forall>(ip, r)\<in>set (dm_entries (ip_requests s)). ir_last_seen r \<le> now
      then Some (sweep_bans now
        (s\<lparr>ip_requests := dm_retain (\<lambda>_ r. now - ir_last_seen r < 300) (ip_requests s)\<rparr>))
      else None)"

definition increment_total :: "attack_prevention \<Rightarrow> attack_prevention" where
  "increment_total s = s\<lparr>total_requests := total_requests s + 1\<rparr>"

definition get_stats :: "attack_prevention \<Rightarrow> nat \<times> nat \<times> u64" where
  "get_stats s = (dm_len (ip_requests s), dm_len (banned_ips s), total_requests s)"

definition public_allowed :: "string list" where
  "public_allowed = [''solnet-production.up.railway.app'', ''up.railway.app'', ''railway.internal'']"

definition validate_host :: "string \<Rightarrow> config \<Rightarrow> bool" where
  "validate_host host cfg =
     (if host = ''localhost'' \<or> host = ''127.0.0.1'' \<or> host = ''[::1]'' \<or>
         host = ''healthcheck.railway.app'' \<or> starts_with host ''localhost:'' \<or>
         starts_with host ''127.0.0.1:'' \<or> starts_with host ''[::1]:''
      then True
      else if whitelist_ip cfg \<noteq> [] \<and>
         (host = whitelist_ip cfg \<or> starts_with host (whitelist_ip cfg @ '':''))
      then True
      else if env_mode cfg = ''development'' \<and>
         (starts_with host ''192.168.'' \<or> starts_with host ''10.'')
      then True
      else if \<exists>h\<in>set public_allowed.
         host = h \<or> ends_with host (''.'' @ h) \<or> starts_with host (h @ '':'')
      then True
      else True)"

section \<open>Bans\<close>

definition ap_expiry :: "attack_prevention \<Rightarrow> string \<Rightarrow> u64 option option" where
  "ap_expiry s ip = map_option Some (dm_get (banned_ips s) ip)"

interpretation ap_bans: ban_table is_banned sweep_bans ap_expiry
  by unfold_locales
    (auto simp: is_banned_def sweep_bans_def ap_expiry_def ban_active_def lookup_delete
      split: option.splits if_splits)

lemma banned_expiry:
  assumes "check_rate_limit t ip s = Some (s', Banned)"
  shows "ap_expiry s' ip = Some (Some (t + 86400)) \<and> unat (t + 86400) = unat t + 86400"
  using assms
  by (auto simp: check_rate_limit_def ban_ip_def Let_def bind_eq_Some_conv ap_expiry_def
      lookup_update split: if_splits dest!: checked_add_SomeD)

section \<open>The request limit\<close>

definition ap_window :: "attack_prevention \<Rightarrow> string \<Rightarrow> (nat \<times> nat) option" where
  "ap_window s ip =
     map_option (\<lambda>r. (unat (ir_count r), unat (ir_window_start r))) (dm_get (ip_requests s) ip)"

definition ap_tracked :: "nat \<Rightarrow> nat \<Rightarrow> attack_prevention \<Rightarrow> bool" where
  "ap_tracked now n s \<longleftrightarrow> n < 2 ^ 64 \<and>
     (\<forall>ip r. dm_get (ip_requests s) ip = Some r \<longrightarrow>
       ir_window_start r \<le> ir_last_seen r \<and> unat (ir_last_seen r) \<le> now \<and>
       unat (ir_count r) + n < 2 ^ 64)"

definition ap_check :: "u64 \<Rightarrow> string \<Rightarrow> attack_prevention \<Rightarrow> (attack_prevention \<times> bool) option" where
  "ap_check now ip s = map_option (\<lambda>(s', r). (s', r = Allowed)) (check_rate_limit now ip s)"

lemma touch_record:
  assumes "ir_window_start rec \<le> t" and "unat (ir_count rec) + 1 < 2 ^ 64"
  shows "touch t rec = Some (if unat (ir_window_start rec) + 60 < unat t
     then rec\<lparr>ir_count := 1, ir_window_start := t, ir_last_seen := t\<rparr>
     else rec\<lparr>ir_count := ir_count rec + 1, ir_last_seen := t\<rparr>)"
proof -
  have "checked_sub t (ir_window_start rec) = Some (t - ir_window_start rec)"
    using assms(1) by (simp add: checked_sub_def)
  moreover have "60 < t - ir_window_start rec \<longleftrightarrow> unat (ir_window_start rec) + 60 < unat t"
    using assms(1) by (auto simp: word_less_nat_alt unat_sub_exact)
  moreover have "checked_add (ir_count rec) 1 = Some (ir_count rec + 1)"
      "checked_add 0 (1::u64) = Some 1"
    using assms(2) by (simp_all add: checked_add_SomeI)
  ultimately show ?thesis by (simp add: touch_def Let_def)
qed

lemma check_touched:
  assumes "touch t (dm_or_insert (ip_requests s) ip
       \<lparr>ir_count = 0, ir_window_start = t, ir_last_seen = t\<rparr>) = Some rec"
    and "ir_window_start rec \<le> t" "unat t - unat (ir_window_start rec) \<le> 60"
    and "unat t < 2 ^ 64 - 86400"
  shows "\<exists>s'. ap_check t ip s = Some (s', unat (ir_count rec) \<le> 100) \<and>
    ip_requests s' = dm_insert ip rec (ip_requests s)"
proof -
  have "checked_sub t (ir_window_start rec) = Some (t - ir_window_start rec)"
      "checked_sub 60 (t - ir_window_start rec) = Some (60 - (t - ir_window_start rec))"
    using assms(2,3) by (auto simp: checked_sub_def word_le_nat_alt unat_sub_exact)
  moreover have "checked_add t 86400 = Some (t + 86400)"
    using assms(4) by (simp add: checked_add_SomeI)
  ultimately show ?thesis
    using assms(1) by (auto simp: ap_check_def check_rate_limit_def ban_ip_def Let_def word_nat)
qed

lemma ap_tracked_rec:
  assumes "ap_tracked now (Suc n) s" "now \<le> unat t"
    and "rec = dm_or_insert (ip_requests s) ip
       \<lparr>ir_count = 0, ir_window_start = t, ir_last_seen = t\<rparr>"
  shows "unat (ir_count rec) + Suc n < 2 ^ 64" "ir_window_start rec \<le> t"
proof -
  have "unat (ir_count rec) + Suc n < 2 ^ 64 \<and> ir_window_start rec \<le> t"
  proof (cases "dm_get (ip_requests s) ip")
    case None
    with assms show ?thesis by (simp add: dm_or_insert_def ap_tracked_def)
  next
    case (Some r)
    with assms show ?thesis by (fastforce simp: dm_or_insert_def ap_tracked_def word_le_nat_alt)
  qed
  then show "unat (ir_count rec) + Suc n < 2 ^ 64" "ir_window_start rec \<le> t" by auto
qed

lemma check_rate_limit_step:
  assumes tr: "ap_tracked now (Suc n) s" and now: "now \<le> unat t" "unat t < 2 ^ 64 - 86400"
    and rec: "rec = dm_or_insert (ip_requests s) ip
       \<lparr>ir_count = 0, ir_window_start = t, ir_last_seen = t\<rparr>"
  shows "\<exists>s' c w. ap_check t ip s = Some (s', c \<le> 100) \<and> ap_tracked (unat t) n s' \<and>
    ap_window s' = (ap_window s)(ip \<mapsto> (c, w)) \<and>
    (c, w) = (if unat (ir_window_start rec) + 60 < unat t then (1, unat t)
      else (unat (ir_count rec) + 1, unat (ir_window_start rec)))"
proof -
  note b = ap_tracked_rec [OF tr now(1) rec]
  define rec' where "rec' = (if unat (ir_window_start rec) + 60 < unat t
     then rec\<lparr>ir_count := 1, ir_window_start := t, ir_last_seen := t\<rparr>
     else rec\<lparr>ir_count := ir_count rec + 1, ir_last_seen := t\<rparr>)"
  have "touch t rec = Some rec'" using touch_record [OF b(2)] b(1) by (simp add: rec'_def)
  moreover have start: "ir_window_start rec' \<le> t" "unat t - unat (ir_window_start rec') \<le> 60"
    using b(2) by (auto simp: rec'_def)
  ultimately obtain s' where s': "ap_check t ip s = Some (s', unat (ir_count rec') \<le> 100)"
      "ip_requests s' = dm_insert ip rec' (ip_requests s)"
    using check_touched [OF _ _ _ now(2)] rec by blast
  have add: "unat (ir_count rec + 1) = unat (ir_count rec) + 1"
    using b(1) by (simp add: unat_add_exact)
  have "unat (ir_count rec') + n < 2 ^ 64" "ir_last_seen rec' = t"
    using b(1) add by (auto simp: rec'_def)
  then have "ap_tracked (unat t) n s'"
    using tr now(1) start(1) s'(2) by (fastforce simp: ap_tracked_def lookup_update split: if_splits)
  moreover have "ap_window s' = (ap_window s)(ip \<mapsto> (unat (ir_count rec'), unat (ir_window_start rec')))"
    using s'(2) by (auto simp: ap_window_def lookup_update)
  moreover have "(unat (ir_count rec'), unat (ir_window_start rec')) =
      (if unat (ir_window_start rec) + 60 < unat t then (1, unat t)
       else (unat (ir_count rec) + 1, unat (ir_window_start rec)))"
    using add by (auto simp: rec'_def)
  ultimately show ?thesis using s'(1) by blast
qed

lemma ap_window_record:
  assumes "ap_window s ip = Some (c, w)"
  shows "c = unat (ir_count (dm_or_insert (ip_requests s) ip d)) \<and>
    w = unat (ir_window_start (dm_or_insert (ip_requests s) ip d))"
  using assms by (auto simp: ap_window_def dm_or_insert_def)

lemma cleanup_step:
  assumes "ap_tracked now (Suc n) s" "now \<le> unat t"
  shows "\<exists>s'. cleanup t s = Some s' \<and> ap_tracked (unat t) n s' \<and>
    (\<forall>k. ap_window s' k = ap_window s k \<or>
      (ap_window s' k = None \<and> (\<exists>c w. ap_window s k = Some (c, w) \<and> w + 60 < unat t)))"
proof -
  have seen: "ir_last_seen r \<le> t \<and> ir_window_start r \<le> ir_last_seen r"
    if "dm_get (ip_requests s) k = Some r" for k r
    using assms that by (fastforce simp: ap_tracked_def word_le_nat_alt)
  define s' where "s' = sweep_bans t
    (s\<lparr>ip_requests := dm_retain (\<lambda>_ r. t - ir_last_seen r < 300) (ip_requests s)\<rparr>)"
  have req: "ip_requests s' = dm_retain (\<lambda>_ r. t - ir_last_seen r < 300) (ip_requests s)"
    by (simp add: s'_def sweep_bans_def)
  have "cleanup t s = Some s'" using seen by (auto simp: cleanup_def s'_def dest!: dm_entries_get)
  moreover have "ap_tracked (unat t) n s'"
    using assms by (fastforce simp: ap_tracked_def req split: option.splits if_splits)
  moreover have "ap_window s' k = ap_window s k \<or>
      (ap_window s' k = None \<and> (\<exists>c w. ap_window s k = Some (c, w) \<and> w + 60 < unat t))" for k
  proof (cases "dm_get (ip_requests s) k")
    case None
    then show ?thesis by (simp add: ap_window_def req)
  next
    case (Some r)
    have "unat (ir_window_start r) + 60 < unat t" if "\<not> t - ir_last_seen r < 300"
      using that seen [OF Some] by (auto simp: word_less_nat_alt word_le_nat_alt unat_sub_exact)
    with Some show ?thesis by (auto simp: ap_window_def req)
  qed
  ultimately show ?thesis by blast
qed

interpretation ap_rate: fixed_window ap_check cleanup ap_window 100 "2 ^ 64 - 86400" ap_tracked
proof unfold_locales
  fix now n s k c w
  assume "ap_tracked now n s" "ap_window s k = Some (c, w)"
  then show "w \<le> now" by (fastforce simp: ap_tracked_def ap_window_def word_le_nat_alt)
next
  fix now n s k and t :: u64
  assume step: "ap_tracked now (Suc n) s" "now \<le> unat t" "unat t < 2 ^ 64 - 86400"
    and "ap_window s k = None"
  then have "dm_or_insert (ip_requests s) k \<lparr>ir_count = 0, ir_window_start = t, ir_last_seen = t\<rparr> =
      \<lparr>ir_count = 0, ir_window_start = t, ir_last_seen = t\<rparr>"
    by (simp add: ap_window_def dm_or_insert_def)
  with check_rate_limit_step [OF step refl, of k]
  show "\<exists>s'. ap_check t k s = Some (s', 1 \<le> (100::nat)) \<and> ap_tracked (unat t) n s' \<and>
      ap_window s' = (ap_window s)(k \<mapsto> (1, unat t))" by auto
next
  fix now n s k c w and t :: u64
  assume step: "ap_tracked now (Suc n) s" "now \<le> unat t" "unat t < 2 ^ 64 - 86400"
    and win: "ap_window s k = Some (c, w)" and "unat t \<le> w + 60"
  with check_rate_limit_step [OF step refl, of k] ap_window_record [OF win]
  show "\<exists>s'. ap_check t k s = Some (s', c + 1 \<le> 100) \<and> ap_tracked (unat t) n s' \<and>
      ap_window s' = (ap_window s)(k \<mapsto> (c + 1, w))" by auto
next
  fix now n s k c w and t :: u64
  assume step: "ap_tracked now (Suc n) s" "now \<le> unat t" "unat t < 2 ^ 64 - 86400"
    and win: "ap_window s k = Some (c, w)" and "w + 60 < unat t"
  with check_rate_limit_step [OF step refl, of k] ap_window_record [OF win]
  show "\<exists>s'. ap_check t k s = Some (s', 1 \<le> (100::nat)) \<and> ap_tracked (unat t) n s' \<and>
      ap_window s' = (ap_window s)(k \<mapsto> (1, unat t))" by auto
qed (use cleanup_step in auto)

lemma ap_tracked_new: "n < 2 ^ 64 \<Longrightarrow> ap_tracked 0 n ap_new"
  by (simp add: ap_tracked_def ap_new_def)

section \<open>The payload scan\<close>

definition close_brackets :: "string \<Rightarrow> nat" where
  "close_brackets p = length (filter (\<lambda>c. c = CHR ''}'' \<or> c = CHR '']'') p)"

lemma contains_lowercase:
  assumes "sublist w p"
  shows "contains (to_lowercase p) (to_lowercase w)"
proof -
  obtain a b where "p = a @ w @ b" using assms by (auto simp: sublist_def)
  then show ?thesis by (simp add: to_lowercase_def)
qed

lemma open_brackets_append: "open_brackets (a @ b) = open_brackets a + open_brackets b"
  by (simp add: open_brackets_def)

lemma scan_clean_iff:
  "scan_payload p = Clean \<longleftrightarrow> length p \<le> 102400 \<and>
     (\<forall>pattern\<in>set attack_patterns. \<not> contains (to_lowercase p) (to_lowercase pattern)) \<and>
     open_brackets p \<le> 20"
  by (auto simp: scan_payload_def)

text \<open>Empty arrays side by side: no depth, but every bracket counts.\<close>

lemma scan_flat:
  assumes "20 < n" "n \<le> 50000"
  shows "scan_payload (concat (replicate n ''[]'')) = Blocked ''too deeply nested''"
proof -
  let ?p = "concat (replicate n ''[]'')"
  have len: "length ?p = 2 * n" and opens: "open_brackets ?p = n"
    by (induction n) (simp_all add: open_brackets_def)
  have "lower_char (CHR ''['') = CHR ''[''" "lower_char (CHR '']'') = CHR '']''" by code_simp+
  then have "to_lowercase ?p = ?p" by (induction n) (simp_all add: to_lowercase_def)
  then have chars: "set w \<subseteq> {CHR ''['', CHR '']''}" if "contains (to_lowercase ?p) w" for w
    using that set_mono_sublist [of w ?p] by (auto simp: contains_sublist split: if_splits)
  have "\<forall>pattern\<in>set attack_patterns. \<not> set (to_lowercase pattern) \<subseteq> {CHR ''['', CHR '']''}"
    by code_simp
  with chars have "\<not> (\<exists>pattern\<in>set attack_patterns. contains (to_lowercase ?p) (to_lowercase pattern))"
    by blast
  then show ?thesis using assms len opens by (simp add: scan_payload_def)
qed

section \<open>The host check\<close>

text \<open>The check accepts every host: its last branch does too.\<close>

lemma validate_host_always: "validate_host host cfg"
  by (simp add: validate_host_def)

section \<open>Properties\<close>


definition flood :: "(u64 \<times> string limiter_event) list" where
  "flood = (5, Hit ''ip'') # replicate 99 (65, Hit ''ip'')"


text \<open>An address that the limit bans stays banned for exactly a day: whatever checks and
  sweeps of bans happen up to a time, the verdict at that time depends only on whether a day
  has passed.\<close>

theorem ban_lasts_a_day:
  assumes "check_rate_limit t ip s = Some (s', Banned)"
    and "\<forall>ev\<in>set evs. fst ev \<le> u"
  shows "fst (is_banned u ip (fold (ban_step is_banned sweep_bans) evs s')) \<longleftrightarrow>
    unat u < unat t + 86400"
  using ap_bans.verdict_after [OF assms(2), of ip s'] banned_expiry [OF assms(1)]
  by (simp add: ban_active_def word_less_nat_alt)

definition hammered :: attack_prevention where
  "hammered = ap_new\<lparr>ip_requests := dm_insert ''ip''
     \<lparr>ir_count = 1000, ir_window_start = 10, ir_last_seen = 12\<rparr> dm_new\<rparr>"

theorem ban_lasts_a_day_witness:
  "\<exists>s'. check_rate_limit 20 ''ip'' hammered = Some (s', Banned) \<and>
     fst (is_banned 86419 ''ip'' (fold (ban_step is_banned sweep_bans)
       [(30, CheckBan ''ip''), (86419, SweepBans)] s')) \<and>
     \<not> fst (is_banned 86420 ''ip'' (fold (ban_step is_banned sweep_bans)
       [(30, CheckBan ''ip''), (86419, SweepBans)] s'))"
proof -
  obtain s' where s': "check_rate_limit 20 ''ip'' hammered = Some (s', Banned)"
    by (simp add: check_rate_limit_def touch_def ban_ip_def hammered_def dm_or_insert_def
        checked_sub_def checked_add_def Let_def lookup_update ap_new_def)
  from ban_lasts_a_day [OF s', of "[(30, CheckBan ''ip''), (86419, SweepBans)]" 86419]
    ban_lasts_a_day [OF s', of "[(30, CheckBan ''ip''), (86419, SweepBans)]" 86420]
  have "fst (is_banned 86419 ''ip'' (fold (ban_step is_banned sweep_bans)
       [(30, CheckBan ''ip''), (86419, SweepBans)] s'))"
    and "\<not> fst (is_banned 86420 ''ip'' (fold (ban_step is_banned sweep_bans)
       [(30, CheckBan ''ip''), (86419, SweepBans)] s'))"
    by simp_all
  with s' show ?thesis by blast
qed

text \<open>A payload the scan lets through has at most 100 KB, contains no attack pattern in any
  capitalisation, and is nowhere nested deeper than 20 brackets. The scan bounds the number of
  brackets and not their depth, so flat payloads with 21 brackets are refused as too deeply
  nested.\<close>

theorem clean_payload_is_safe:
  assumes "scan_payload p = Clean"
  shows "length p \<le> 102400 \<and>
    (\<forall>w. sublist w p \<longrightarrow> to_lowercase w \<notin> to_lowercase ` set attack_patterns) \<and>
    (\<forall>q. prefix q p \<longrightarrow> open_brackets q \<le> close_brackets q + 20)"
proof (intro conjI allI impI)
  show "length p \<le> 102400" using assms by (simp add: scan_clean_iff)
next
  fix w
  assume "sublist w p"
  then have "contains (to_lowercase p) (to_lowercase w)" by (rule contains_lowercase)
  with assms show "to_lowercase w \<notin> to_lowercase ` set attack_patterns"
    by (auto simp: scan_clean_iff)
next
  fix q
  assume "prefix q p"
  then obtain r where "p = q @ r" by (auto simp: prefix_def)
  with assms show "open_brackets q \<le> close_brackets q + 20"
    by (simp add: scan_clean_iff open_brackets_append)
qed

definition example_request :: string where
  "example_request = ''{params:[[[]]]}''"

theorem clean_payload_is_safe_witness:
  "scan_payload example_request = Clean \<and> \<not> sublist ''<ScRiPt>'' example_request \<and>
   scan_payload (concat (replicate 21 ''[]'')) = Blocked ''too deeply nested''"
proof -
  have clean: "scan_payload example_request = Clean"
    by (simp add: scan_payload_def attack_patterns_def example_request_def open_brackets_def
        to_lowercase_def lower_char_def)
  have "to_lowercase ''<ScRiPt>'' = to_lowercase ''<script>''" by code_simp
  then have "to_lowercase ''<ScRiPt>'' \<in> to_lowercase ` set attack_patterns"
    by (simp add: attack_patterns_def)
  with clean_payload_is_safe [OF clean] have "\<not> sublist ''<ScRiPt>'' example_request" by blast
  moreover have "scan_payload (concat (replicate 21 ''[]'')) = Blocked ''too deeply nested''"
    by (rule scan_flat) simp_all
  ultimately show ?thesis using clean by blast
qed

end
