(* ===== verification/Peer_Guard.thy ===== *)
theory Peer_Guard
  imports Rust_Text Guard_Interfaces
begin

text \<open>
  \<open>sns-daemon/src/peer_guard.rs\<close>: reputation scores and bans of mesh peers. The score is an
  \<open>i32\<close>, kept as an integer with the range check of overflow-checked arithmetic. \<open>now\<close> is
  the reading of \<open>Self::now()\<close>, taken once per call.
\<close>

type_synonym peer_id = string

record peer_record =
  pr_score :: int
  pr_connections :: u32
  pr_failed_handshakes :: u32
  pr_spam_attempts :: u32
  pr_bytes_sent :: u64
  pr_bytes_received :: u64
  pr_first_seen :: u64
  pr_last_seen :: u64

record ban_record =
  bn_reason :: string
  bn_banned_at :: u64
  bn_expires_at :: "u64 option"

record peer_guard =
  pg_scores :: "(peer_id, peer_record) dashmap"
  pg_banned :: "(peer_id, ban_record) dashmap"

definition pg_new :: peer_guard where
  "pg_new = \<lparr>pg_scores = dm_new, pg_banned = dm_new\<rparr>"

definition i32_add :: "int \<Rightarrow> int \<Rightarrow> int option" where
  "i32_add a b = (if - (2 ^ 31) \<le> a + b \<and> a + b < 2 ^ 31 then Some (a + b) else None)"

definition default_record :: "u64 \<Rightarrow> peer_record" where
  "default_record now = \<lparr>pr_score = 50, pr_connections = 0, pr_failed_handshakes = 0,
     pr_spam_attempts = 0, pr_bytes_sent = 0, pr_bytes_received = 0, pr_first_seen = now,
     pr_last_seen = now\<rparr>"

section \<open>Operations\<close>

text \<open>The ban part of \<open>is_allowed\<close>: an expired ban is dropped.\<close>

definition ban_check :: "u64 \<Rightarrow> peer_id \<Rightarrow> peer_guard \<Rightarrow> bool \<times> peer_guard" where
  "ban_check now peer s =
     (case dm_get (pg_banned s) peer of
        Some ban \<Rightarrow>
          (case bn_expires_at ban of
             Some expires \<Rightarrow>
               if now < expires then (True, s)
               else (False, s\<lparr>pg_banned := dm_remove peer (pg_banned s)\<rparr>)
           | None \<Rightarrow> (True, s))
      | None \<Rightarrow> (False, s))"

definition is_allowed :: "u64 \<Rightarrow> peer_id \<Rightarrow> peer_guard \<Rightarrow> bool \<times> peer_guard" where
  "is_allowed now peer s =
     (let (banned, s') = ban_check now peer s in
      if banned then (False, s')
      else (case dm_get (pg_scores s') peer of
          Some rec \<Rightarrow> if pr_score rec \<le> 0 then (False, s') else (True, s')
        | None \<Rightarrow> (True, s')))"

definition on_connected :: "u64 \<Rightarrow> peer_id \<Rightarrow> peer_guard \<Rightarrow> peer_guard option" where
  "on_connected now peer s = do {
     let rec = dm_or_insert (pg_scores s) peer (default_record now);
     connections \<leftarrow> checked_add (pr_connections rec) 1;
     score \<leftarrow> i32_add (pr_score rec) 1;
     Some (s\<lparr>pg_scores := dm_insert peer
       (rec\<lparr>pr_connections := connections, pr_last_seen := now, pr_score := min score 100\<rparr>)
       (pg_scores s)\<rparr>)
   }"

definition ban :: "u64 \<Rightarrow> peer_id \<Rightarrow> string \<Rightarrow> u64 option \<Rightarrow> peer_guard \<Rightarrow> peer_guard" where
  "ban now peer reason expires_at s =
     s\<lparr>pg_banned := dm_insert peer
         \<lparr>bn_reason = reason, bn_banned_at = now, bn_expires_at = expires_at\<rparr> (pg_banned s),
       pg_scores := dm_remove peer (pg_scores s)\<rparr>"

definition on_failed_handshake :: "u64 \<Rightarrow> peer_id \<Rightarrow> peer_guard \<Rightarrow> peer_guard option" where
  "on_failed_handshake now peer s = do {
     let rec = dm_or_insert (pg_scores s) peer (default_record now);
     failed \<leftarrow> checked_add (pr_failed_handshakes rec) 1;
     score \<leftarrow> i32_add (pr_score rec) (- 10);
     let s' = s\<lparr>pg_scores := dm_insert peer
       (rec\<lparr>pr_failed_handshakes := failed, pr_score := score\<rparr>) (pg_scores s)\<rparr>;
     if 5 \<le> failed then do {
       expiry \<leftarrow> checked_add now 3600;
       Some (ban now peer ''5 failed handshakes'' (Some expiry) s')
     }
     else Some s'
   }"

definition on_protocol_violation :: "u64 \<Rightarrow> peer_id \<Rightarrow> peer_guard \<Rightarrow> peer_guard option" where
  "on_protocol_violation now peer s = do {
     let rec = dm_or_insert (pg_scores s) peer (default_record now);
     score \<leftarrow> i32_add (pr_score rec) (- 25);
     spam \<leftarrow> checked_add (pr_spam_attempts rec) 1;
     let s' = s\<lparr>pg_scores := dm_insert peer
       (rec\<lparr>pr_score := score, pr_spam_attempts := spam\<rparr>) (pg_scores s)\<rparr>;
     if score \<le> 0 then Some (ban now peer ''protocol violation'' None s') else Some s'
   }"

definition on_successful_relay :: "u64 \<Rightarrow> peer_id \<Rightarrow> u64 \<Rightarrow> peer_guard \<Rightarrow> peer_guard option" where
  "on_successful_relay now peer bytes s = do {
     let rec = dm_or_insert (pg_scores s) peer (default_record now);
     received \<leftarrow> checked_add (pr_bytes_received rec) bytes;
     score \<leftarrow> i32_add (pr_score rec) 2;
     Some (s\<lparr>pg_scores := dm_insert peer
       (rec\<lparr>pr_bytes_received := received, pr_last_seen := now, pr_score := min score 100\<rparr>)
       (pg_scores s)\<rparr>)
   }"

record peer_guard_stats =
  total_known_peers :: nat
  banned_peers :: nat
  healthy_peers :: nat
  degraded_peers :: nat

definition pg_get_stats :: "peer_guard \<Rightarrow> peer_guard_stats" where
  "pg_get_stats s =
     (let total_peers = dm_len (pg_scores s);
          healthy = length (filter (\<lambda>(p, r). 50 \<le> pr_score r) (dm_entries (pg_scores s))) in
      \<lparr>total_known_peers = total_peers, banned_peers = dm_len (pg_banned s),
       healthy_peers = healthy, degraded_peers = total_peers - healthy\<rparr>)"

definition pg_sweep_bans :: "u64 \<Rightarrow> peer_guard \<Rightarrow> peer_guard" where
  "pg_sweep_bans now s = s\<lparr>pg_banned := dm_retain
     (\<lambda>_ b. case bn_expires_at b of Some exp \<Rightarrow> now < exp | None \<Rightarrow> True) (pg_banned s)\<rparr>"

definition pg_cleanup :: "u64 \<Rightarrow> peer_guard \<Rightarrow> peer_guard option" where
  "pg_cleanup now s =
     (let s' = pg_sweep_bans now s in
      if \<forall>(p, r)\<in>set (dm_entries (pg_scores s')). pr_last_seen r \<le> now
      then Some (s'\<lparr>pg_scores := dm_retain (\<lambda>_ r. now - pr_last_seen r < 86400) (pg_scores s')\<rparr>)
      else None)"

section \<open>Runs\<close>

datatype guard_event =
    Connected peer_id
  | FailedHandshake peer_id
  | Violation peer_id
  | Relayed peer_id u64
  | BanPeer peer_id string "u64 option"
  | AskAllowed peer_id
  | CleanUp

fun guard_step :: "u64 \<times> guard_event \<Rightarrow> peer_guard \<Rightarrow> peer_guard option" where
  "guard_step (now, Connected p) s = on_connected now p s"
| "guard_step (now, FailedHandshake p) s = on_failed_handshake now p s"
| "guard_step (now, Violation p) s = on_protocol_violation now p s"
| "guard_step (now, Relayed p b) s = on_successful_relay now p b s"
| "guard_step (now, BanPeer p why until) s = Some (ban now p why until s)"
| "guard_step (now, AskAllowed p) s = Some (snd (is_allowed now p s))"
| "guard_step (now, CleanUp) s = pg_cleanup now s"

text \<open>A panic stops the process; the state it leaves is the last one.\<close>

definition guard_next :: "u64 \<times> guard_event \<Rightarrow> peer_guard \<Rightarrow> peer_guard" where
  "guard_next ev s = (case guard_step ev s of None \<Rightarrow> s | Some s' \<Rightarrow> s')"

abbreviation guard_run :: "(u64 \<times> guard_event) list \<Rightarrow> peer_guard \<Rightarrow> peer_guard" where
  "guard_run \<equiv> fold guard_next"

lemma guard_next_keeps:
  "I s \<Longrightarrow> (\<And>s'. guard_step ev s = Some s' \<Longrightarrow> I s') \<Longrightarrow> I (guard_next ev s)"
  by (auto simp: guard_next_def split: option.splits)

lemmas guard_ops = on_connected_def on_failed_handshake_def on_protocol_violation_def
  on_successful_relay_def

section \<open>Scores\<close>

definition score_ok :: "peer_record \<Rightarrow> bool" where
  "score_ok r \<longleftrightarrow> unat (pr_failed_handshakes r) \<le> 4 \<and>
     1 - 10 * int (unat (pr_failed_handshakes r)) \<le> pr_score r \<and> pr_score r \<le> 100"

definition scores_ok :: "peer_guard \<Rightarrow> bool" where
  "scores_ok s \<longleftrightarrow> (\<forall>p r. dm_get (pg_scores s) p = Some r \<longrightarrow> score_ok r)"

lemma score_ok_bounds: "score_ok r \<Longrightarrow> - 39 \<le> pr_score r \<and> pr_score r \<le> 100"
proof -
  assume ok: "score_ok r"
  then have "int (unat (pr_failed_handshakes r)) \<le> int 4"
    unfolding score_ok_def of_nat_le_iff by blast
  with ok show ?thesis by (simp add: score_ok_def)
qed

lemma scores_ok_or_insert: "scores_ok s \<Longrightarrow> score_ok (dm_or_insert (pg_scores s) p (default_record now))"
  by (auto simp: scores_ok_def dm_or_insert_def default_record_def score_ok_def split: option.splits)

lemma scores_ok_insert:
  "scores_ok s \<Longrightarrow> score_ok r \<Longrightarrow> scores_ok (s\<lparr>pg_scores := dm_insert p r (pg_scores s)\<rparr>)"
  by (auto simp: scores_ok_def lookup_update)

lemma scores_ok_ban:
  assumes "scores_ok s"
  shows "scores_ok (ban now p why until (s\<lparr>pg_scores := dm_insert p r (pg_scores s)\<rparr>))"
  using assms by (auto simp: scores_ok_def ban_def lookup_update lookup_delete split: if_splits)

lemma ban_check_scores [simp]: "pg_scores (snd (ban_check now p s)) = pg_scores s"
  by (auto simp: ban_check_def split: option.splits)

lemma is_allowed_state: "snd (is_allowed now p s) = snd (ban_check now p s)"
  by (auto simp: is_allowed_def Let_def split: prod.splits option.splits)

lemma guard_step_scores:
  assumes "guard_step ev s = Some s'" and "scores_ok s"
  shows "scores_ok s'"
  using assms
proof (induction ev s rule: guard_step.induct)
  case (1 now p s)
  then show ?case using scores_ok_or_insert [OF 1(2), of p now]
    by (auto simp: on_connected_def Let_def bind_eq_Some_conv i32_add_def score_ok_def
        intro!: scores_ok_insert split: if_splits)
next
  case (2 now p s)
  let ?r = "dm_or_insert (pg_scores s) p (default_record now)"
  obtain failed score where failed: "checked_add (pr_failed_handshakes ?r) 1 = Some failed"
    and score: "i32_add (pr_score ?r) (- 10) = Some score"
    and s': "s' = (let t = s\<lparr>pg_scores := dm_insert p
        (?r\<lparr>pr_failed_handshakes := failed, pr_score := score\<rparr>) (pg_scores s)\<rparr> in
      if 5 \<le> failed then ban now p ''5 failed handshakes'' (Some (now + 3600)) t else t)"
    using 2(1) by (auto simp: on_failed_handshake_def Let_def bind_eq_Some_conv
        dest!: checked_add_SomeD [of now 3600] split: if_splits)
  show ?case
  proof (cases "5 \<le> failed")
    case True
    then show ?thesis using s' scores_ok_ban [OF 2(2)] by (simp add: Let_def)
  next
    case False
    then have "unat failed \<le> 4" by (simp add: word_le_nat_alt)
    then have "score_ok (?r\<lparr>pr_failed_handshakes := failed, pr_score := score\<rparr>)"
      using scores_ok_or_insert [OF 2(2), of p now] checked_add_SomeD [OF failed] score
        arg_cong [where f = int, OF checked_add_unat [OF failed]]
      by (auto simp: score_ok_def i32_add_def split: if_splits)
    then show ?thesis using s' False scores_ok_insert [OF 2(2)] by (simp add: Let_def)
  qed
next
  case (3 now p s)
  let ?r = "dm_or_insert (pg_scores s) p (default_record now)"
  obtain score spam where score: "i32_add (pr_score ?r) (- 25) = Some score"
    and s': "(let t = s\<lparr>pg_scores := dm_insert p
        (?r\<lparr>pr_score := score, pr_spam_attempts := spam\<rparr>) (pg_scores s)\<rparr> in
      if score \<le> 0 then Some (ban now p ''protocol violation'' None t) else Some t) = Some s'"
    using 3(1) by (auto simp: on_protocol_violation_def Let_def bind_eq_Some_conv)
  show ?case
  proof (cases "score \<le> 0")
    case True
    then show ?thesis using s' scores_ok_ban [OF 3(2)] by (auto simp: Let_def)
  next
    case False
    then have "1 - 10 * int (unat (pr_failed_handshakes ?r)) \<le> score" by linarith
    then have "score_ok (?r\<lparr>pr_score := score, pr_spam_attempts := spam\<rparr>)"
      using scores_ok_or_insert [OF 3(2), of p now] score
      by (auto simp: score_ok_def i32_add_def split: if_splits)
    then show ?thesis using s' False scores_ok_insert [OF 3(2)] by (auto simp: Let_def)
  qed
next
  case (4 now p b s)
  then show ?case using scores_ok_or_insert [OF 4(2), of p now]
    by (auto simp: on_successful_relay_def Let_def bind_eq_Some_conv i32_add_def score_ok_def
        intro!: scores_ok_insert split: if_splits)
next
  case (5 now p why until s)
  then show ?case by (auto simp: scores_ok_def ban_def lookup_delete split: if_splits)
next
  case (6 now p s)
  then show ?case by (auto simp: scores_ok_def is_allowed_state)
next
  case (7 now s)
  then show ?case
    by (auto simp: scores_ok_def pg_cleanup_def pg_sweep_bans_def Let_def
        split: if_splits option.splits)
qed

interpretation peer_scores: step_invariant guard_next scores_ok
  by unfold_locales (blast intro: guard_next_keeps guard_step_scores)

section \<open>Bans\<close>

definition pg_expiry :: "peer_guard \<Rightarrow> peer_id \<Rightarrow> u64 option option" where
  "pg_expiry s p = map_option bn_expires_at (dm_get (pg_banned s) p)"

interpretation peer_bans: ban_table ban_check pg_sweep_bans pg_expiry
  by unfold_locales
    (auto simp: ban_check_def pg_sweep_bans_def pg_expiry_def ban_active_def lookup_delete
      split: option.splits if_splits)

lemma is_allowed_iff:
  "fst (is_allowed now p s) \<longleftrightarrow> \<not> ban_active now (pg_expiry s p) \<and>
     (\<forall>r. dm_get (pg_scores s) p = Some r \<longrightarrow> 0 < pr_score r)"
proof -
  obtain b s' where check: "ban_check now p s = (b, s')" by (cases "ban_check now p s")
  have "b = ban_active now (pg_expiry s p)" using peer_bans.check_verdict [of now p s] check by simp
  moreover have "pg_scores s' = pg_scores s" using ban_check_scores [of now p s] check by simp
  ultimately show ?thesis
    by (cases "dm_get (pg_scores s) p") (auto simp: is_allowed_def check)
qed

text \<open>The events that may replace a permanent ban of a peer.\<close>

fun may_replace_ban :: "peer_id \<Rightarrow> guard_event \<Rightarrow> bool" where
  "may_replace_ban p (FailedHandshake q) \<longleftrightarrow> q = p"
| "may_replace_ban p (BanPeer q why until) \<longleftrightarrow> q = p"
| "may_replace_ban p _ \<longleftrightarrow> False"

lemma guard_step_permanent:
  assumes "guard_step ev s = Some s'" and "pg_expiry s p = Some None"
    and "\<not> may_replace_ban p (snd ev)"
  shows "pg_expiry s' p = Some None"
  using assms
proof (induction ev s rule: guard_step.induct)
  case (1 now q s)
  then show ?case by (auto simp: on_connected_def Let_def bind_eq_Some_conv pg_expiry_def)
next
  case (2 now q s)
  then show ?case
    by (auto simp: on_failed_handshake_def Let_def bind_eq_Some_conv pg_expiry_def ban_def
        lookup_update split: if_splits)
next
  case (3 now q s)
  then show ?case
    by (auto simp: on_protocol_violation_def Let_def bind_eq_Some_conv pg_expiry_def ban_def
        lookup_update split: if_splits)
next
  case (4 now q b s)
  then show ?case by (auto simp: on_successful_relay_def Let_def bind_eq_Some_conv pg_expiry_def)
next
  case (5 now q why until s)
  then show ?case by (auto simp: pg_expiry_def ban_def lookup_update)
next
  case (6 now q s)
  then show ?case using peer_bans.check_keeps [of now s p q] 
    by (simp add: is_allowed_state ban_active_def)
next
  case (7 now s)
  then show ?case
    by (auto simp: pg_expiry_def pg_cleanup_def pg_sweep_bans_def Let_def split: if_splits)
qed

lemma guard_run_permanent:
  assumes "pg_expiry s p = Some None" and "\<forall>ev\<in>set evs. \<not> may_replace_ban p (snd ev)"
  shows "pg_expiry (guard_run evs s) p = Some None"
  using assms
proof (induction evs arbitrary: s)
  case (Cons ev evs)
  then have "pg_expiry (guard_next ev s) p = Some None"
    by (auto intro: guard_next_keeps guard_step_permanent)
  with Cons show ?case by simp
qed simp

text \<open>A failed handshake of a peer whose count is below four, and the fifth one.\<close>

lemma failed_handshake_counts:
  assumes "scores_ok s" "dm_or_insert (pg_scores s) p (default_record t) = r"
    and "unat (pr_failed_handshakes r) < 4"
  shows "\<exists>s'. guard_next (t, FailedHandshake p) s = s' \<and> scores_ok s' \<and> pg_banned s' = pg_banned s \<and>
    (\<exists>r'. dm_get (pg_scores s') p = Some r' \<and>
      unat (pr_failed_handshakes r') = unat (pr_failed_handshakes r) + 1)"
proof -
  have ok: "score_ok r" using scores_ok_or_insert [OF assms(1)] assms(2) by blast
  then have "checked_add (pr_failed_handshakes r) 1 = Some (pr_failed_handshakes r + 1)"
      "unat (pr_failed_handshakes r + 1) = unat (pr_failed_handshakes r) + 1"
    by (simp_all add: checked_add_SomeI unat_add_exact score_ok_def)
  moreover have "i32_add (pr_score r) (- 10) = Some (pr_score r - 10)"
    using score_ok_bounds [OF ok] by (simp add: i32_add_def)
  ultimately have step: "guard_next (t, FailedHandshake p) s = s\<lparr>pg_scores := dm_insert p
      (r\<lparr>pr_failed_handshakes := pr_failed_handshakes r + 1, pr_score := pr_score r - 10\<rparr>) (pg_scores s)\<rparr>"
    using assms(2,3)
    by (simp add: guard_next_def on_failed_handshake_def Let_def word_le_nat_alt)
  moreover have "scores_ok (guard_next (t, FailedHandshake p) s)"
    using assms(1) by (rule peer_scores.step_keeps)
  ultimately show ?thesis
    using \<open>unat (pr_failed_handshakes r + 1) = unat (pr_failed_handshakes r) + 1\<close>
    by (auto simp: lookup_update)
qed

lemma fifth_failed_handshake:
  assumes "scores_ok s" "dm_get (pg_scores s) p = Some r"
    and "unat (pr_failed_handshakes r) = 4" and "unat t < 2 ^ 64 - 3600"
  shows "pg_expiry (guard_next (t, FailedHandshake p) s) p = Some (Some (t + 3600)) \<and>
    dm_get (pg_scores (guard_next (t, FailedHandshake p) s)) p = None"
proof -
  have ok: "score_ok r" using assms(1,2) by (auto simp: scores_ok_def)
  have "checked_add (pr_failed_handshakes r) 1 = Some (pr_failed_handshakes r + 1)"
      "5 \<le> pr_failed_handshakes r + 1"
    using assms(3) by (simp_all add: checked_add_SomeI word_le_nat_alt unat_add_exact)
  moreover have "i32_add (pr_score r) (- 10) = Some (pr_score r - 10)"
    using score_ok_bounds [OF ok] by (simp add: i32_add_def)
  moreover have "checked_add t 3600 = Some (t + 3600)" using assms(4) by (simp add: checked_add_SomeI)
  ultimately show ?thesis using assms(2)
    by (simp add: guard_next_def on_failed_handshake_def Let_def dm_or_insert_def pg_expiry_def
        ban_def lookup_update lookup_delete)
qed

lemma four_failed_handshakes:
  assumes "scores_ok s" "dm_get (pg_scores s) p = None" "n < 4"
  shows "\<exists>s' r. guard_run (replicate (Suc n) (t, FailedHandshake p)) s = s' \<and> scores_ok s' \<and>
    dm_get (pg_scores s') p = Some r \<and> unat (pr_failed_handshakes r) = Suc n"
  using assms(3)
proof (induction n)
  case 0
  from failed_handshake_counts [OF assms(1), of p t] assms(2) show ?case
    by (auto simp: dm_or_insert_def default_record_def)
next
  case (Suc n)
  then obtain s' r where s': "guard_run (replicate (Suc n) (t, FailedHandshake p)) s = s'"
      "scores_ok s'" "dm_get (pg_scores s') p = Some r" "unat (pr_failed_handshakes r) = Suc n"
    by auto
  from failed_handshake_counts [OF s'(2), of p t r] s'(3,4) Suc.prems obtain r' where
    "scores_ok (guard_next (t, FailedHandshake p) s')"
    "dm_get (pg_scores (guard_next (t, FailedHandshake p) s')) p = Some r'"
    "unat (pr_failed_handshakes r') = Suc (Suc n)"
    by (auto simp: dm_or_insert_def)
  moreover have "guard_run (replicate (Suc (Suc n)) (t, FailedHandshake p)) s =
      guard_next (t, FailedHandshake p) s'"
    unfolding replicate_Suc [of "Suc n"] replicate_append_same [symmetric] using s'(1) by simp
  ultimately show ?case by metis
qed

section \<open>Properties\<close>

text \<open>Whatever events a peer guard sees, every stored record keeps its score between -39
  and 100 with at most four failed handshakes, so no score arithmetic can overflow, and a peer
  whose handshakes never failed keeps a positive score until it is banned.\<close>

theorem peer_scores_bounded:
  assumes "dm_get (pg_scores (guard_run evs pg_new)) p = Some r"
  shows "- 39 \<le> pr_score r \<and> pr_score r \<le> 100 \<and> unat (pr_failed_handshakes r) \<le> 4 \<and>
    (pr_failed_handshakes r = 0 \<longrightarrow> 0 < pr_score r)"
proof -
  have "scores_ok pg_new" by (simp add: scores_ok_def pg_new_def)
  then have "scores_ok (guard_run evs pg_new)" by (rule peer_scores.run_keeps)
  with assms have "score_ok r" by (auto simp: scores_ok_def)
  with score_ok_bounds [OF this] show ?thesis by (auto simp: score_ok_def)
qed

theorem peer_scores_bounded_witness:
  "\<exists>r. dm_get (pg_scores (guard_run [(1, Violation ''p''), (2, FailedHandshake ''p'')] pg_new)) ''p'' = Some r \<and>
     pr_score r = 15 \<and> unat (pr_failed_handshakes r) \<le> 4"
proof -
  let ?s = "guard_run [(1, Violation ''p''), (2, FailedHandshake ''p'')] pg_new"
  obtain r where r: "dm_get (pg_scores ?s) ''p'' = Some r" "pr_score r = 15"
    by (simp add: guard_next_def guard_ops pg_new_def dm_or_insert_def default_record_def
        checked_add_def i32_add_def Let_def lookup_update word_le_nat_alt)
  with peer_scores_bounded [OF r(1)] show ?thesis by blast
qed

text \<open>A permanent ban stands through connections, relays, protocol violations, questions
  and clean-ups, and through all events of other peers; only a failed handshake or another ban
  of the same peer can touch it.\<close>

theorem permanent_ban_stands:
  assumes "pg_expiry s p = Some None" and "\<forall>ev\<in>set evs. \<not> may_replace_ban p (snd ev)"
  shows "\<not> fst (is_allowed now p (guard_run evs s))"
  using guard_run_permanent [OF assms] by (simp add: is_allowed_iff ban_active_def)

theorem permanent_ban_stands_witness:
  "\<not> fst (is_allowed 99999 ''p'' (guard_run [(5, Connected ''p''), (6, Violation ''p''),
     (7, FailedHandshake ''q''), (90000, CleanUp)] (ban 3 ''p'' ''abuse'' None pg_new)))"
proof -
  have "pg_expiry (ban 3 ''p'' ''abuse'' None pg_new) ''p'' = Some None"
    by (simp add: pg_expiry_def ban_def lookup_update)
  from permanent_ban_stands [OF this, of "[(5, Connected ''p''), (6, Violation ''p''),
     (7, FailedHandshake ''q''), (90000, CleanUp)]"] show ?thesis by simp
qed

text \<open>Failing handshakes shortens a permanent ban. Five failed handshakes of a permanently
  banned peer replace its ban by one of an hour and erase its score, so an hour later it is
  allowed again.\<close>

theorem permanent_ban_shortened:
  assumes "scores_ok s" and "pg_expiry s p = Some None" and "dm_get (pg_scores s) p = None"
    and "unat t < 2 ^ 64 - 3600"
  shows "\<not> fst (is_allowed now p s) \<and>
    (fst (is_allowed now p (guard_run (replicate 5 (t, FailedHandshake p)) s)) \<longleftrightarrow>
      unat t + 3600 \<le> unat now)"
proof -
  let ?four = "guard_run (replicate 4 (t, FailedHandshake p)) s"
  obtain r where four: "scores_ok ?four" "dm_get (pg_scores ?four) p = Some r"
      "unat (pr_failed_handshakes r) = 4"
    using four_failed_handshakes [OF assms(1,3), of 3 t] by (auto simp: numeral_eq_Suc)
  have "guard_run (replicate 5 (t, FailedHandshake p)) s = guard_next (t, FailedHandshake p) ?four"
    using replicate_append_same [of 4 "(t, FailedHandshake p)"]
    by (simp add: numeral_eq_Suc)
  moreover note fifth_failed_handshake [OF four assms(4)]
  moreover have "unat (t + 3600) = unat t + 3600" using assms(4) by (simp add: unat_add_exact)
  ultimately show ?thesis using assms(2)
    by (auto simp: is_allowed_iff ban_active_def word_less_nat_alt)
qed

theorem permanent_ban_shortened_witness:
  "\<not> fst (is_allowed 5000 ''p'' (ban 3 ''p'' ''abuse'' None pg_new)) \<and>
   fst (is_allowed 5000 ''p'' (guard_run (replicate 5 (10, FailedHandshake ''p''))
     (ban 3 ''p'' ''abuse'' None pg_new)))"
proof -
  let ?s = "ban 3 ''p'' ''abuse'' None pg_new"
  have "scores_ok ?s" "pg_expiry ?s ''p'' = Some None" "dm_get (pg_scores ?s) ''p'' = None"
    by (simp_all add: scores_ok_def pg_expiry_def ban_def pg_new_def lookup_update lookup_delete)
  from permanent_ban_shortened [OF this, of 10 5000] show ?thesis by simp
qed

end
