(* ===== verification/Consensus.thy ===== *)
theory Consensus
  imports Json "HOL-Library.Multiset"
begin

text \<open>
  \<open>sns-daemon/src/consensus.rs\<close>: two-of-three voting over upstream nodes, strikes and the
  blacklist. Parameters of the model: the random sample (\<open>choose\<close>), the HTTP call of the i-th
  sampled node (\<open>post i\<close>, from the URL and the body to a transport error or the parsed answer),
  the iteration order of the \<open>HashMap\<close> of votes (\<open>iter\<close>), and \<open>serde_json\<close>'s printer
  and parser.
\<close>

definition MAX_VOTE_AGE_SECS :: u64 where
  "MAX_VOTE_AGE_SECS = 30"

record blacklist_entry =
  bl_reason :: string
  bl_timestamp :: u64
  bl_strike_count :: u32

record node_stats =
  ns_requests_proxied :: u64
  ns_consensus_failures :: u64

datatype consensus_error = InsufficientNodes | NoConsensus | AllNodesFailed | StaleVote

record consensus_router =
  cr_blacklist :: "(string, blacklist_entry) dashmap"
  cr_node_stats :: "(string, node_stats) dashmap"

definition cr_new :: consensus_router where
  "cr_new = \<lparr>cr_blacklist = dm_new, cr_node_stats = dm_new\<rparr>"

section \<open>Operations\<close>

definition is_blacklisted :: "consensus_router \<Rightarrow> string \<Rightarrow> bool" where
  "is_blacklisted s n =
     (case dm_get (cr_blacklist s) n of Some e \<Rightarrow> 3 \<le> bl_strike_count e | None \<Rightarrow> False)"

definition is_vote_stale :: "u64 \<Rightarrow> u64 \<Rightarrow> bool" where
  "is_vote_stale now timestamp \<longleftrightarrow> MAX_VOTE_AGE_SECS < abs_diff now timestamp"

definition trim_end_slash :: "string \<Rightarrow> string" where
  "trim_end_slash s = rev (dropWhile (\<lambda>c. c = CHR ''/'') (rev s))"

definition query_node ::
  "(string \<Rightarrow> json \<Rightarrow> string + json) \<Rightarrow> (json \<Rightarrow> string) \<Rightarrow> string \<Rightarrow> string \<Rightarrow> json \<Rightarrow> string + json" where
  "query_node post to_str endpoint meth params =
     (let url = trim_end_slash endpoint @ ''/rpc'';
          body = JObj [(''jsonrpc'', JStr ''2.0''), (''id'', JNum (PosInt 1)),
            (''method'', JStr meth), (''params'', params)] in
      and_then (post url body) (\<lambda>answer.
      case json_get answer ''error'' of
        Some err \<Rightarrow> Inl (''RPC error: '' @ to_str err)
      | None \<Rightarrow> Inr (json_index answer ''result'')))"

definition punish_node :: "u64 \<Rightarrow> string \<Rightarrow> string \<Rightarrow> consensus_router \<Rightarrow> consensus_router option" where
  "punish_node now n reason s = do {
     let entry = dm_or_insert (cr_blacklist s) n
       \<lparr>bl_reason = reason, bl_timestamp = now, bl_strike_count = 0\<rparr>;
     strikes \<leftarrow> checked_add (bl_strike_count entry) 1;
     let stats = dm_or_insert (cr_node_stats s) n
       \<lparr>ns_requests_proxied = 0, ns_consensus_failures = 0\<rparr>;
     failures \<leftarrow> checked_add (ns_consensus_failures stats) 1;
     Some (s\<lparr>cr_blacklist := dm_insert n (entry\<lparr>bl_strike_count := strikes\<rparr>) (cr_blacklist s),
       cr_node_stats := dm_insert n (stats\<lparr>ns_consensus_failures := failures\<rparr>) (cr_node_stats s)\<rparr>)
   }"

fun punish_all :: "u64 \<Rightarrow> string list \<Rightarrow> string \<Rightarrow> consensus_router \<Rightarrow> consensus_router option" where
  "punish_all now [] reason s = Some s"
| "punish_all now (n # ns) reason s = punish_node now n reason s \<bind> punish_all now ns reason"

definition divergence_reason :: string where
  "divergence_reason = ''Returned value diverged from 2-of-3 consensus''"

text \<open>The tally: \<open>vote_map.entry(key).or_default().push(node)\<close>.\<close>

definition vote :: "string \<Rightarrow> string \<Rightarrow> (string, string list) dashmap \<Rightarrow> (string, string list) dashmap" where
  "vote key n m = dm_insert key (dm_or_insert m key [] @ [n]) m"

fun tally ::
  "(json \<Rightarrow> string) \<Rightarrow> (string \<times> (string + json)) list \<Rightarrow> (string, string list) dashmap \<Rightarrow>
   (string, string list) dashmap" where
  "tally to_str [] m = m"
| "tally to_str ((n, Inr v) # rs) m = tally to_str rs (vote (to_str v) n m)"
| "tally to_str ((n, Inl e) # rs) m = tally to_str rs m"

record consensus_world =
  cw_now :: u64
  cw_choose :: "string list \<Rightarrow> string list"
  cw_post :: "nat \<Rightarrow> string \<Rightarrow> json \<Rightarrow> string + json"
  cw_iter :: "(string \<times> string list) list \<Rightarrow> (string \<times> string list) list"
  cw_to_str :: "json \<Rightarrow> string"
  cw_parse :: "string \<Rightarrow> json option"

definition eligible_nodes :: "consensus_router \<Rightarrow> string list \<Rightarrow> string list" where
  "eligible_nodes s available = filter (\<lambda>n. \<not> is_blacklisted s n) available"

definition node_results ::
  "consensus_world \<Rightarrow> string \<Rightarrow> json \<Rightarrow> string list \<Rightarrow> (string \<times> (string + json)) list" where
  "node_results w meth params selected =
     map (\<lambda>(i, n). (n, query_node (cw_post w i) (cw_to_str w) n meth params)) (enumerate 0 selected)"

definition query_with_consensus ::
  "consensus_world \<Rightarrow> string \<Rightarrow> json \<Rightarrow> string list \<Rightarrow> consensus_router \<Rightarrow>
   ((consensus_error + json) \<times> consensus_router) option" where
  "query_with_consensus w meth params available s =
     (let eligible = eligible_nodes s available in
      if length eligible < 3 then Some (Inl InsufficientNodes, s)
      else
        (let selected = cw_choose w eligible;
             results = node_results w meth params selected;
             vote_map = tally (cw_to_str w) results dm_new;
             error_count = length (filter (\<lambda>(n, r). isl r) results) in
         if error_count = 3 then Some (Inl AllNodesFailed, s)
         else (case find (\<lambda>(c, agreeing). 2 \<le> length agreeing) (cw_iter w (dm_entries vote_map)) of
             Some (canonical, agreeing) \<Rightarrow> do {
               let consensus_val = unwrap_or (cw_parse w canonical) JNull;
               s' \<leftarrow> punish_all (cw_now w) (filter (\<lambda>n. n \<notin> set agreeing) selected)
                 divergence_reason s;
               Some (Inr consensus_val, s')
             }
           | None \<Rightarrow> Some (Inl NoConsensus, s))))"

definition blacklist_summary :: "consensus_router \<Rightarrow> json" where
  "blacklist_summary s =
     (let entries = map (\<lambda>(k, e). JObj [(''node_id'', JStr k), (''reason'', JStr (bl_reason e)),
            (''strikes'', JNum (PosInt (ucast (bl_strike_count e)))),
            (''timestamp'', JNum (PosInt (bl_timestamp e))),
            (''permanent'', JBool (3 \<le> bl_strike_count e))]) (dm_entries (cr_blacklist s)) in
      JObj [(''blacklisted_count'', JNum (PosInt (of_nat (length entries)))),
        (''entries'', JArr entries)])"

section \<open>Laws of the parameters\<close>

text \<open>\<open>choose_multiple(3)\<close> samples three positions without replacement; a \<open>HashMap\<close> is
  iterated in some order.\<close>

definition sample_law :: "consensus_world \<Rightarrow> bool" where
  "sample_law w \<longleftrightarrow> (\<forall>xs. 3 \<le> length xs \<longrightarrow> length (cw_choose w xs) = 3 \<and>
     mset (cw_choose w xs) \<subseteq># mset xs)"

definition iteration_law :: "consensus_world \<Rightarrow> bool" where
  "iteration_law w \<longleftrightarrow> (\<forall>xs. mset (cw_iter w xs) = mset xs)"

section \<open>The tally\<close>

text \<open>The nodes that voted for a key, in the order of the results.\<close>

definition voters :: "(json \<Rightarrow> string) \<Rightarrow> (string \<times> (string + json)) list \<Rightarrow> string \<Rightarrow> string list" where
  "voters to_str results key =
     map fst (filter (\<lambda>(n, r). case r of Inl e \<Rightarrow> False | Inr v \<Rightarrow> to_str v = key) results)"

lemma tally_get:
  "dm_get (tally to_str rs m) key =
     (if dm_get m key = None \<and> voters to_str rs key = [] then None
      else Some (dm_or_insert m key [] @ voters to_str rs key))"
proof (induction to_str rs m rule: tally.induct)
  case (1 to_str m)
  then show ?case by (auto simp: voters_def dm_or_insert_def split: option.splits)
next
  case (2 to_str n v rs m)
  then show ?case
    by (auto simp: voters_def vote_def dm_or_insert_def lookup_update split: option.splits)
next
  case (3 to_str n e rs m)
  then show ?case by (simp add: voters_def)
qed

lemma filter_disjoint_length:
  "(\<And>x. x \<in> set xs \<Longrightarrow> \<not> (P x \<and> Q x)) \<Longrightarrow> length (filter P xs) + length (filter Q xs) \<le> length xs"
  by (induction xs) auto

lemma voters_disjoint:
  "k \<noteq> k' \<Longrightarrow> length (voters f rs k) + length (voters f rs k') \<le> length rs"
  unfolding voters_def length_map
  by (rule filter_disjoint_length) (auto split: sum.splits)

lemma find_SomeD: "find P xs = Some x \<Longrightarrow> x \<in> set xs \<and> P x"
  by (metis find_Some_iff nth_mem)

lemma majority_unique:
  "length rs = 3 \<Longrightarrow> 2 \<le> length (voters f rs k) \<Longrightarrow> 2 \<le> length (voters f rs k') \<Longrightarrow> k = k'"
  using voters_disjoint [of k k' f rs] by fastforce

lemma majority_found:
  assumes "iteration_law w" and "length rs = 3"
  shows "find (\<lambda>(c, agreeing). 2 \<le> length agreeing)
      (cw_iter w (dm_entries (tally f rs dm_new))) = Some (k, ns) \<longleftrightarrow>
    ns = voters f rs k \<and> 2 \<le> length ns"
proof -
  let ?es = "cw_iter w (dm_entries (tally f rs dm_new))"
  have entries: "(k, ns) \<in> set ?es \<longleftrightarrow> ns = voters f rs k \<and> ns \<noteq> []" for k ns
  proof -
    have "set ?es = set (dm_entries (tally f rs dm_new))"
      using assms(1) by (metis iteration_law_def set_mset_mset)
    then show ?thesis
      by (auto simp: dm_get_entries [symmetric] tally_get dm_or_insert_def split: if_splits)
  qed
  show ?thesis
  proof
    assume "find (\<lambda>(c, agreeing). 2 \<le> length agreeing) ?es = Some (k, ns)"
    then have "(k, ns) \<in> set ?es" "2 \<le> length ns" by (auto dest: find_SomeD)
    then show "ns = voters f rs k \<and> 2 \<le> length ns" using entries by blast
  next
    assume maj: "ns = voters f rs k \<and> 2 \<le> length ns"
    then have "(k, ns) \<in> set ?es" using entries by fastforce
    with maj obtain k' ns' where found:
        "find (\<lambda>(c, agreeing). 2 \<le> length agreeing) ?es = Some (k', ns')"
      by (cases "find (\<lambda>(c, agreeing). 2 \<le> length agreeing) ?es") (auto simp: find_None_iff)
    then have "(k', ns') \<in> set ?es" "2 \<le> length ns'" by (auto dest: find_SomeD)
    moreover from this have "ns' = voters f rs k'" using entries by blast
    ultimately have "k' = k" using majority_unique [OF assms(2)] maj by blast
    with found maj \<open>ns' = voters f rs k'\<close>
    show "find (\<lambda>(c, agreeing). 2 \<le> length agreeing) ?es = Some (k, ns)" by simp
  qed
qed

lemma majority_none:
  assumes "iteration_law w" and "length rs = 3"
  shows "find (\<lambda>(c, agreeing). 2 \<le> length agreeing)
      (cw_iter w (dm_entries (tally f rs dm_new))) = None \<longleftrightarrow>
    (\<forall>k. length (voters f rs k) < 2)"
  using majority_found [OF assms, of f]
  by (metis (no_types, lifting) not_None_eq not_le surj_pair)

lemma voters_errors: "length (filter (\<lambda>(n, r). isl r) rs) + length (voters f rs k) \<le> length rs"
  unfolding voters_def length_map
  by (rule filter_disjoint_length) (auto split: sum.splits)

lemma length_node_results [simp]: "length (node_results w meth params xs) = length xs"
  by (simp add: node_results_def)

lemma map_fst_node_results [simp]: "map fst (node_results w meth params xs) = xs"
  by (simp add: node_results_def comp_def case_prod_beta)

lemma voters_subset: "set (voters f rs k) \<subseteq> set (map fst rs)"
  by (auto simp: voters_def)

section \<open>The verdict\<close>

text \<open>What a query answers, whatever the order of the votes.\<close>

lemma query_majority:
  assumes laws: "sample_law w" "iteration_law w"
    and el: "eligible_nodes s available = eligible" "3 \<le> length eligible"
    and rs: "rs = node_results w meth params (cw_choose w eligible)"
    and maj: "2 \<le> length (voters (cw_to_str w) rs k)"
  shows "query_with_consensus w meth params available s =
    map_option (\<lambda>s'. (Inr (unwrap_or (cw_parse w k) JNull), s'))
      (punish_all (cw_now w) (filter (\<lambda>n. n \<notin> set (voters (cw_to_str w) rs k)) (cw_choose w eligible))
        divergence_reason s)"
proof -
  have len: "length rs = 3" using laws(1) el(2) rs by (simp add: sample_law_def)
  have "length (filter (\<lambda>(n, r). isl r) rs) \<noteq> 3"
    using voters_errors [of rs "cw_to_str w" k] len maj by simp
  moreover have "find (\<lambda>(c, agreeing). 2 \<le> length agreeing)
      (cw_iter w (dm_entries (tally (cw_to_str w) rs dm_new))) =
      Some (k, voters (cw_to_str w) rs k)"
    using majority_found [OF laws(2) len] maj by blast
  ultimately show ?thesis
    using el rs by (simp add: query_with_consensus_def Let_def map_option_case split: option.splits)
qed

lemma query_no_majority:
  assumes laws: "sample_law w" "iteration_law w"
    and el: "eligible_nodes s available = eligible" "3 \<le> length eligible"
    and rs: "rs = node_results w meth params (cw_choose w eligible)"
    and none: "\<forall>k. length (voters (cw_to_str w) rs k) < 2"
  shows "query_with_consensus w meth params available s =
    Some (Inl (if \<forall>r\<in>set rs. isl (snd r) then AllNodesFailed else NoConsensus), s)"
proof -
  have len: "length rs = 3" using laws(1) el(2) rs by (simp add: sample_law_def)
  have "length (filter (\<lambda>(n, r). isl r) rs) = 3 \<longleftrightarrow> (\<forall>r\<in>set rs. isl (snd r))"
    using len by (metis (no_types, lifting) case_prod_beta' filter_id_conv length_filter_less
        less_irrefl)
  moreover have "find (\<lambda>(c, agreeing). 2 \<le> length agreeing)
      (cw_iter w (dm_entries (tally (cw_to_str w) rs dm_new))) = None"
    using majority_none [OF laws(2) len] none by blast
  ultimately show ?thesis
    using el rs by (auto simp add: query_with_consensus_def Let_def)
qed

section \<open>Strikes\<close>

definition strikes :: "consensus_router \<Rightarrow> string \<Rightarrow> nat" where
  "strikes s n = (case dm_get (cr_blacklist s) n of Some e \<Rightarrow> unat (bl_strike_count e) | None \<Rightarrow> 0)"

definition failures :: "consensus_router \<Rightarrow> string \<Rightarrow> nat" where
  "failures s n =
     (case dm_get (cr_node_stats s) n of Some e \<Rightarrow> unat (ns_consensus_failures e) | None \<Rightarrow> 0)"

definition router_ok :: "consensus_router \<Rightarrow> bool" where
  "router_ok s \<longleftrightarrow> (\<forall>n. strikes s n \<le> 3 \<and> failures s n = strikes s n)"

lemma blacklisted_strikes: "is_blacklisted s n \<longleftrightarrow> 3 \<le> strikes s n"
  by (auto simp: is_blacklisted_def strikes_def word_le_nat_alt split: option.splits)

lemma router_ok_new: "router_ok cr_new"
  by (simp add: router_ok_def cr_new_def strikes_def failures_def)

lemma punish_node_step:
  assumes "router_ok s" and "strikes s n < 3"
  shows "\<exists>s'. punish_node now n reason s = Some s' \<and> router_ok s' \<and>
    strikes s' = (strikes s)(n := strikes s n + 1)"
proof -
  let ?e = "dm_or_insert (cr_blacklist s) n \<lparr>bl_reason = reason, bl_timestamp = now, bl_strike_count = 0\<rparr>"
  let ?f = "dm_or_insert (cr_node_stats s) n \<lparr>ns_requests_proxied = 0, ns_consensus_failures = 0\<rparr>"
  have e: "unat (bl_strike_count ?e) = strikes s n"
    by (simp add: strikes_def dm_or_insert_def split: option.splits)
  have f: "unat (ns_consensus_failures ?f) = strikes s n"
  proof -
    have "unat (ns_consensus_failures ?f) = failures s n"
      by (simp add: failures_def dm_or_insert_def split: option.splits)
    then show ?thesis using assms(1) by (simp add: router_ok_def)
  qed
  have "checked_add (bl_strike_count ?e) 1 = Some (bl_strike_count ?e + 1)"
      "unat (bl_strike_count ?e + 1) = strikes s n + 1"
    using e assms(2) by (simp_all add: checked_add_SomeI unat_add_exact)
  moreover have "checked_add (ns_consensus_failures ?f) 1 = Some (ns_consensus_failures ?f + 1)"
      "unat (ns_consensus_failures ?f + 1) = strikes s n + 1"
    using f assms(2) by (simp_all add: checked_add_SomeI unat_add_exact)
  ultimately obtain s' where s': "punish_node now n reason s = Some s'"
      "strikes s' = (strikes s)(n := strikes s n + 1)" "failures s' = (failures s)(n := strikes s n + 1)"
    by (auto simp: punish_node_def Let_def strikes_def failures_def lookup_update fun_eq_iff)
  moreover have "router_ok s'" using s' assms by (auto simp: router_ok_def)
  ultimately show ?thesis by blast
qed

lemma eligible_few_strikes: "n \<in> set (eligible_nodes s available) \<Longrightarrow> strikes s n < 3"
  by (auto simp: eligible_nodes_def blacklisted_strikes)

lemma sample_eligible:
  assumes "sample_law w" and "3 \<le> length xs"
  shows "set (cw_choose w xs) \<subseteq> set xs" "length (cw_choose w xs) = 3"
proof -
  have "mset (cw_choose w xs) \<subseteq># mset xs" "length (cw_choose w xs) = 3"
    using assms by (auto simp: sample_law_def)
  then show "set (cw_choose w xs) \<subseteq> set xs" "length (cw_choose w xs) = 3"
    by (metis set_mset_mono set_mset_mset, simp)
qed

lemma distinct_sub_mset:
  assumes "mset xs \<subseteq># mset ys" "distinct ys"
  shows "distinct xs"
proof -
  obtain zs where "mset ys = mset xs + mset zs"
    using assms(1) by (metis ex_mset mset_subset_eq_exists_conv)
  then have "mset ys = mset (xs @ zs)" by simp
  then have "distinct (xs @ zs)" using assms(2) mset_eq_imp_distinct_iff by blast
  then show ?thesis by simp
qed

text \<open>At most one sampled position disagrees with a majority.\<close>

lemma few_dissenters:
  assumes "length rs = 3" and "2 \<le> length (voters f rs k)"
  shows "length (filter (\<lambda>n. n \<notin> set (voters f rs k)) (map fst rs)) \<le> 1"
proof -
  have "length (filter (\<lambda>r. fst r \<notin> set (voters f rs k)) rs) + length (voters f rs k) \<le> length rs"
    unfolding voters_def length_map
    by (rule filter_disjoint_length) (force split: sum.splits)
  with assms show ?thesis by (simp add: filter_map comp_def)
qed

lemma query_one_dissenter:
  assumes laws: "sample_law w" "iteration_law w" and ok: "router_ok s"
    and el: "eligible_nodes s available = eligible" "3 \<le> length eligible"
    and rs: "rs = node_results w meth params (cw_choose w eligible)"
    and maj: "2 \<le> length (voters (cw_to_str w) rs k)"
    and out: "filter (\<lambda>n. n \<notin> set (voters (cw_to_str w) rs k)) (cw_choose w eligible) = [n]"
  shows "\<exists>s'. query_with_consensus w meth params available s =
      Some (Inr (unwrap_or (cw_parse w k) JNull), s') \<and> router_ok s' \<and> strikes s n < 3 \<and>
    strikes s' = (strikes s)(n := strikes s n + 1)"
proof -
  have "n \<in> set (filter (\<lambda>n. n \<notin> set (voters (cw_to_str w) rs k)) (cw_choose w eligible))"
    by (subst out) simp
  then have few: "strikes s n < 3"
    using sample_eligible [OF laws(1) el(2)] eligible_few_strikes el(1) by auto
  then obtain s1 where "punish_node (cw_now w) n divergence_reason s = Some s1" "router_ok s1"
      "strikes s1 = (strikes s)(n := strikes s n + 1)"
    using punish_node_step [OF ok] by blast
  then show ?thesis using query_majority [OF laws el rs maj] out few by simp
qed

text \<open>The state a query leaves behind: unchanged, or with one strike more for a sampled node
  outside the majority.\<close>

lemma query_total:
  assumes laws: "sample_law w" "iteration_law w" and ok: "router_ok s"
  shows "\<exists>r s'. query_with_consensus w meth params available s = Some (r, s') \<and> router_ok s' \<and>
    (s' = s \<or> (\<exists>n. strikes s n < 3 \<and> strikes s' = (strikes s)(n := strikes s n + 1)))"
proof (cases "length (eligible_nodes s available) < 3")
  case True
  then show ?thesis using ok by (simp add: query_with_consensus_def)
next
  case False
  let ?el = "eligible_nodes s available"
  let ?rs = "node_results w meth params (cw_choose w ?el)"
  have el: "3 \<le> length ?el" using False by simp
  have len: "length ?rs = 3" using sample_eligible [OF laws(1) el] by simp
  show ?thesis
  proof (cases "\<forall>k. length (voters (cw_to_str w) ?rs k) < 2")
    case True
    from query_no_majority [OF laws refl el refl True] ok show ?thesis by auto
  next
    case False
    then obtain k where maj: "2 \<le> length (voters (cw_to_str w) ?rs k)" by (auto simp: not_less)
    let ?out = "filter (\<lambda>n. n \<notin> set (voters (cw_to_str w) ?rs k)) (cw_choose w ?el)"
    have "length ?out \<le> 1" using few_dissenters [OF len maj] by simp
    then consider "?out = []" | n where "?out = [n]"
      by (cases ?out) (auto simp: Suc_le_eq le_Suc_eq)
    then show ?thesis
    proof cases
      case 1
      then show ?thesis using query_majority [OF laws refl el refl maj] ok by simp
    next
      case 2
      from query_one_dissenter [OF laws ok refl el refl maj 2] show ?thesis by auto
    qed
  qed
qed

text \<open>Runs of queries.\<close>

type_synonym consensus_query = "consensus_world \<times> string \<times> json \<times> string list"

fun query_next :: "consensus_query \<Rightarrow> consensus_router \<Rightarrow> consensus_router" where
  "query_next (w, meth, params, available) s =
     (case query_with_consensus w meth params available s of None \<Rightarrow> s | Some (r, s') \<Rightarrow> s')"

definition lawful :: "consensus_query \<Rightarrow> bool" where
  "lawful q \<longleftrightarrow> sample_law (fst q) \<and> iteration_law (fst q)"

definition lawful_next :: "consensus_query \<Rightarrow> consensus_router \<Rightarrow> consensus_router" where
  "lawful_next q s = (if lawful q \<and> router_ok s then query_next q s else s)"

definition strikes_grow :: "consensus_router \<Rightarrow> consensus_router \<Rightarrow> bool" where
  "strikes_grow s s' \<longleftrightarrow> (router_ok s \<longrightarrow> router_ok s') \<and> (\<forall>n. strikes s n \<le> strikes s' n)"

lemma lawful_next_grows: "strikes_grow s (lawful_next q s)"
proof (cases "lawful q \<and> router_ok s")
  case True
  obtain w meth params available where q: "q = (w, meth, params, available)" by (cases q)
  from query_total [of w s meth params available] True q show ?thesis
    by (auto simp: lawful_next_def lawful_def strikes_grow_def)
qed (auto simp: lawful_next_def strikes_grow_def)

interpretation strike_log: step_monotone lawful_next strikes_grow
  by unfold_locales
    (auto simp: strikes_grow_def intro: order_trans lawful_next_grows [unfolded strikes_grow_def, THEN conjunct1, THEN mp]
      lawful_next_grows [unfolded strikes_grow_def, THEN conjunct2, THEN spec])

lemma lawful_run:
  assumes "\<forall>q\<in>set qs. lawful q" and "router_ok s"
  shows "fold query_next qs s = fold lawful_next qs s"
  using assms
proof (induction qs arbitrary: s)
  case (Cons q qs)
  then have "lawful_next q s = query_next q s" by (simp add: lawful_next_def)
  moreover have "router_ok (lawful_next q s)"
    using lawful_next_grows [of s q] Cons.prems(2) by (simp add: strikes_grow_def)
  ultimately show ?case using Cons by simp
qed simp

section \<open>Properties\<close>

text \<open>C8: the verdict is the majority. With at least three eligible nodes a query never
  panics; when two of the three sampled nodes give the same answer, that answer is returned,
  whatever the iteration order of the vote table, and otherwise the query fails without
  touching the router.\<close>

theorem consensus_verdict:
  assumes "sample_law w" "iteration_law w" "router_ok s"
    and "3 \<le> length (eligible_nodes s available)"
    and "rs = node_results w meth params (cw_choose w (eligible_nodes s available))"
  shows "(\<forall>k. 2 \<le> length (voters (cw_to_str w) rs k) \<longrightarrow>
      (\<exists>s'. query_with_consensus w meth params available s =
        Some (Inr (unwrap_or (cw_parse w k) JNull), s'))) \<and>
    ((\<forall>k. length (voters (cw_to_str w) rs k) < 2) \<longrightarrow>
      (\<exists>e. query_with_consensus w meth params available s = Some (Inl e, s)))"
proof (intro conjI allI impI)
  fix k
  assume "2 \<le> length (voters (cw_to_str w) rs k)"
  from query_majority [OF assms(1,2) refl assms(4,5) this]
    query_total [OF assms(1-3), of meth params available]
  show "\<exists>s'. query_with_consensus w meth params available s =
      Some (Inr (unwrap_or (cw_parse w k) JNull), s')" by auto
next
  assume "\<forall>k. length (voters (cw_to_str w) rs k) < 2"
  from query_no_majority [OF assms(1,2) refl assms(4,5) this]
  show "\<exists>e. query_with_consensus w meth params available s = Some (Inl e, s)" by blast
qed

text \<open>Node a and b answer 7, node c answers 8; the votes are iterated backwards.\<close>

definition example_answer :: "nat \<Rightarrow> string \<Rightarrow> json \<Rightarrow> string + json" where
  "example_answer i url body = Inr (JObj [(''result'',
     JNum (PosInt (if url = ''c/rpc'' \<or> url = ''e/rpc'' then 8 else 7)))])"

fun example_print :: "json \<Rightarrow> string" where
  "example_print (JNum (PosInt n)) = decimal (unat n)"
| "example_print _ = ''?''"

definition example_parse :: "string \<Rightarrow> json option" where
  "example_parse s = map_option (\<lambda>n. JNum (PosInt (of_nat n))) (parse_unsigned (2 ^ 64) s)"

definition example_world :: consensus_world where
  "example_world = \<lparr>cw_now = 1, cw_choose = take 3, cw_post = example_answer, cw_iter = rev,
     cw_to_str = example_print, cw_parse = example_parse\<rparr>"

lemma example_laws: "sample_law example_world" "iteration_law example_world"
proof -
  have "mset (take 3 xs) \<subseteq># mset xs" for xs :: "string list"
    by (metis append_take_drop_id mset_append mset_subset_eq_add_left)
  then show "sample_law example_world" by (simp add: sample_law_def example_world_def)
  show "iteration_law example_world" by (simp add: iteration_law_def example_world_def)
qed

lemma example_query:
  "query_node (example_answer i) example_print n meth params =
     Inr (JNum (PosInt (if trim_end_slash n = ''c'' \<or> trim_end_slash n = ''e'' then 8 else 7)))"
  by (simp add: query_node_def example_answer_def json_index_def)

lemma example_eligible: "eligible_nodes cr_new ns = ns"
  by (simp add: eligible_nodes_def is_blacklisted_def cr_new_def)

lemma example_decimal: "decimal 7 = ''7''" "decimal 8 = ''8''"
  by (simp_all add: decimal.simps hex_digits_def)

lemma example_parse_7: "example_parse ''7'' = Some (JNum (PosInt 7))"
  using parse_decimal [of 7 "2 ^ 64"] by (simp add: example_parse_def example_decimal)

theorem consensus_verdict_witness:
  "\<exists>s'. query_with_consensus example_world ''getSlot'' JNull [''a'', ''b'', ''c''] cr_new =
     Some (Inr (JNum (PosInt 7)), s')"
proof -
  let ?rs = "node_results example_world ''getSlot'' JNull (cw_choose example_world
    (eligible_nodes cr_new [''a'', ''b'', ''c'']))"
  have "2 \<le> length (voters (cw_to_str example_world) ?rs ''7'')"
    by (simp add: node_results_def example_world_def example_query example_eligible voters_def
        trim_end_slash_def example_decimal)
  moreover have "3 \<le> length (eligible_nodes cr_new [''a'', ''b'', ''c''])"
    by (simp add: example_eligible)
  ultimately obtain s' where "query_with_consensus example_world ''getSlot'' JNull
      [''a'', ''b'', ''c''] cr_new = Some (Inr (unwrap_or (cw_parse example_world ''7'') JNull), s')"
    using consensus_verdict [OF example_laws router_ok_new _ refl] by blast
  then show ?thesis by (simp add: example_world_def example_parse_7)
qed

text \<open>When all nodes but one give the same answer, two of the sampled ones vote for it, and only that
  one is left out.\<close>

lemma honest_majority:
  assumes "sample_law w" and "distinct available" and "3 \<le> length (eligible_nodes s available)"
    and "\<forall>n\<in>set available - {bad}. \<forall>i. query_node (cw_post w i) (cw_to_str w) n meth params = Inr v"
    and sel_def: "sel = cw_choose w (eligible_nodes s available)"
    and vs_def: "vs = voters (cw_to_str w) (node_results w meth params sel) (cw_to_str w v)"
  shows "2 \<le> length vs \<and> (filter (\<lambda>n. n \<notin> set vs) sel = [] \<or> filter (\<lambda>n. n \<notin> set vs) sel = [bad])"
proof -
  let ?el = "eligible_nodes s available"
  let ?rs = "node_results w meth params sel"
  have sel: "set sel \<subseteq> set available" "length sel = 3"
    using sample_eligible [OF assms(1,3)] by (auto simp: eligible_nodes_def sel_def)
  have "mset sel \<subseteq># mset ?el" using assms(1,3) by (simp add: sample_law_def sel_def)
  moreover have "distinct ?el" using assms(2) by (simp add: eligible_nodes_def)
  ultimately have dist: "distinct sel" by (rule distinct_sub_mset)
  have honest: "snd r = Inr v" if "r \<in> set ?rs" "fst r \<noteq> bad" for r
  proof -
    from that(1) obtain i n where "(i, n) \<in> set (enumerate 0 sel)"
        and r: "r = (n, query_node (cw_post w i) (cw_to_str w) n meth params)"
      by (auto simp: node_results_def)
    then have "n \<in> set available"
      using sel(1) by (auto simp: enumerate_eq_zip dest: set_zip_rightD)
    with r that(2) assms(4) show ?thesis by simp
  qed
  have votes: "set (filter (\<lambda>n. n \<noteq> bad) sel) \<subseteq> set vs"
  proof
    fix n
    assume n: "n \<in> set (filter (\<lambda>n. n \<noteq> bad) sel)"
    then have "n \<in> set (map fst ?rs)" unfolding map_fst_node_results by simp
    then obtain r where "r \<in> set ?rs" "fst r = n" unfolding set_map by blast
    with honest [of r] n show "n \<in> set vs" by (force simp: voters_def vs_def)
  qed
  have "card (set sel) = 3" using dist sel(2) by (simp add: distinct_card)
  moreover have "set (filter (\<lambda>n. n \<noteq> bad) sel) = set sel - {bad}" by auto
  ultimately have "2 \<le> card (set (filter (\<lambda>n. n \<noteq> bad) sel))"
    by (cases "bad \<in> set sel") simp_all
  also have "\<dots> \<le> card (set vs)" using votes by (simp add: card_mono)
  also have "\<dots> \<le> length vs" by (rule card_length)
  finally have maj: "2 \<le> length vs" .
  let ?out = "filter (\<lambda>n. n \<notin> set vs) sel"
  have out: "set ?out \<subseteq> {bad}" using votes by auto
  have "length ?out \<le> 1" using few_dissenters [OF _ maj [unfolded vs_def]] sel(2) by (simp add: vs_def)
  then have cases: "?out = [] \<or> ?out = [bad]" using out by (cases ?out) (auto simp: Suc_le_eq)
  with maj show ?thesis by blast
qed

text \<open>C9: one faulty node is tolerated. When the available nodes are distinct, all but at most
  one of them answer every query with the same value, and at least three are eligible, every
  query returns that value and gives no honest node a strike, whatever the faulty node answers.\<close>

theorem one_fault_tolerated:
  assumes "sample_law w" "iteration_law w" "router_ok s"
    and "distinct available" and "3 \<le> length (eligible_nodes s available)"
    and "\<forall>n\<in>set available - {bad}. \<forall>i. query_node (cw_post w i) (cw_to_str w) n meth params = Inr v"
    and "cw_parse w (cw_to_str w v) = Some v"
  shows "\<exists>s'. query_with_consensus w meth params available s = Some (Inr v, s') \<and>
    (\<forall>n\<in>set available - {bad}. strikes s' n = strikes s n)"
proof -
  let ?sel = "cw_choose w (eligible_nodes s available)"
  let ?vs = "voters (cw_to_str w) (node_results w meth params ?sel) (cw_to_str w v)"
  have maj: "2 \<le> length ?vs" and cases: "filter (\<lambda>n. n \<notin> set ?vs) ?sel = [] \<or> filter (\<lambda>n. n \<notin> set ?vs) ?sel = [bad]"
    using honest_majority [OF assms(1,4-6) refl refl] by blast+
  show ?thesis
  proof (cases "filter (\<lambda>n. n \<notin> set ?vs) ?sel = []")
    case True
    then show ?thesis using query_majority [OF assms(1,2) refl assms(5) refl maj] assms(7) by auto
  next
    case False
    then have outb: "filter (\<lambda>n. n \<notin> set ?vs) ?sel = [bad]" using cases by blast
    from query_one_dissenter [OF assms(1-3) refl assms(5) refl maj outb] assms(7)
    show ?thesis by auto
  qed
qed

theorem one_fault_tolerated_witness:
  "\<exists>s'. query_with_consensus example_world ''getSlot'' JNull [''a'', ''c'', ''b''] cr_new =
     Some (Inr (JNum (PosInt 7)), s') \<and> strikes s' ''a'' = 0"
proof -
  have "\<forall>n\<in>set [''a'', ''c'', ''b''] - {''c''}. \<forall>i. query_node (cw_post example_world i)
      (cw_to_str example_world) n ''getSlot'' JNull = Inr (JNum (PosInt 7))"
    by (auto simp: example_world_def example_query trim_end_slash_def)
  moreover have "cw_parse example_world (cw_to_str example_world (JNum (PosInt 7))) =
      Some (JNum (PosInt 7))"
    by (simp add: example_world_def example_decimal example_parse_7)
  moreover have "strikes cr_new n = 0" for n by (simp add: strikes_def cr_new_def)
  ultimately show ?thesis
    using one_fault_tolerated [OF example_laws router_ok_new, of "[''a'', ''c'', ''b'']" "''c''"
        "''getSlot''" JNull "JNum (PosInt 7)"]
    by (fastforce simp: example_eligible)
qed



text \<open>A node listed twice decides alone. The available list is not checked for repetitions,
  so a node that occurs twice among three entries casts two of the three votes: its answer is
  returned as the consensus and the remaining node gets the strike.\<close>

theorem repeated_node_decides:
  assumes "sample_law w" "iteration_law w" "router_ok s"
    and "twice \<noteq> once" and "\<not> is_blacklisted s twice" "\<not> is_blacklisted s once"
    and "\<forall>i. query_node (cw_post w i) (cw_to_str w) twice meth params = Inr v"
    and "\<forall>i. query_node (cw_post w i) (cw_to_str w) once meth params = Inr v'"
    and "cw_to_str w v \<noteq> cw_to_str w v'"
  shows "\<exists>s'. query_with_consensus w meth params [twice, once, twice] s =
      Some (Inr (unwrap_or (cw_parse w (cw_to_str w v)) JNull), s') \<and>
    strikes s' once = strikes s once + 1"
proof -
  let ?el = "[twice, once, twice]"
  have el: "eligible_nodes s ?el = ?el" "3 \<le> length ?el" using assms(5,6) by (simp_all add: eligible_nodes_def)
  let ?sel = "cw_choose w ?el"
  let ?rs = "node_results w meth params ?sel"
  let ?vs = "voters (cw_to_str w) ?rs (cw_to_str w v)"
  have sel: "length ?sel = 3" "mset ?sel \<subseteq># mset ?el" using assms(1) el(2) unfolding sample_law_def by blast+
  then have "mset ?sel = mset ?el"
    by (metis length_Cons list.size(3) mset_subset_size numeral_3_eq_3 size_mset subset_mset.nless_le less_irrefl)
  then have perm: "?sel = [twice, once, twice] \<or> ?sel = [once, twice, twice] \<or> ?sel = [twice, twice, once]"
    using sel(1) assms(4) by (auto simp: numeral_3_eq_3 length_Suc_conv add_eq_conv_ex split: if_splits)
  then have vs: "?vs = [twice, twice]"
    using assms(4,7-9) by (auto simp: node_results_def voters_def)
  have out: "filter (\<lambda>n. n \<notin> set ?vs) ?sel = [once]"
    unfolding vs using perm assms(4) by auto
  have maj: "2 \<le> length ?vs" by (simp add: vs)
  from query_one_dissenter [OF assms(1-3) el refl maj out] show ?thesis by auto
qed

theorem repeated_node_decides_witness:
  "\<exists>s'. query_with_consensus example_world ''getSlot'' JNull [''e'', ''a'', ''e''] cr_new =
     Some (Inr (JNum (PosInt 8)), s') \<and> strikes s' ''a'' = 1"
proof -
  have "\<exists>s'. query_with_consensus example_world ''getSlot'' JNull [''e'', ''a'', ''e''] cr_new =
      Some (Inr (unwrap_or (cw_parse example_world (cw_to_str example_world (JNum (PosInt 8)))) JNull), s') \<and>
    strikes s' ''a'' = strikes cr_new ''a'' + 1"
    by (rule repeated_node_decides [OF example_laws router_ok_new, of _ _ _ _ _ "JNum (PosInt 7)"])
      (simp_all add: is_blacklisted_def cr_new_def example_world_def example_query
        trim_end_slash_def example_decimal)
  moreover have "cw_parse example_world (cw_to_str example_world (JNum (PosInt 8))) = Some (JNum (PosInt 8))"
    using parse_decimal [of 8 "2 ^ 64"]
    by (simp add: example_world_def example_parse_def example_decimal)
  ultimately show ?thesis by (simp add: strikes_def cr_new_def)
qed

end
