(* ===== verification/Zk_Payments.thy ===== *)
theory Zk_Payments
  imports Rust_Text "HOL-Library.While_Combinator"
begin

text \<open>
  \<open>sns-daemon/src/zk_payments.rs\<close>: batches of payment receipts, their Merkle commitment and
  the hourly persist-and-clear. SHA-256 is the parameter \<open>H\<close>; the hex and JSON printers, the file
  system and the UUID generator are parameters of \<open>persist_and_clear\<close>.
\<close>

type_synonym hash_fun = "u8 list \<Rightarrow> u8 list"

record payment_receipt =
  rc_client_ip_hash :: string
  rc_amount_lamports :: u64
  rc_method :: string
  rc_timestamp :: u64
  rc_nonce :: string
  rc_node_signature :: string

record zk_receipt_batch =
  zb_receipts :: "payment_receipt list"
  zb_batch_id :: string

record compressed_batch =
  cb_batch_id :: string
  cb_merkle_root :: string
  cb_total_lamports :: u64
  cb_receipt_count :: u64
  cb_compressed_at :: u64

definition zb_new :: "string \<Rightarrow> zk_receipt_batch" where
  "zb_new uuid = \<lparr>zb_receipts = [], zb_batch_id = uuid\<rparr>"

definition add_receipt :: "payment_receipt \<Rightarrow> zk_receipt_batch \<Rightarrow> zk_receipt_batch" where
  "add_receipt r b = b\<lparr>zb_receipts := zb_receipts b @ [r]\<rparr>"

section \<open>The Merkle root\<close>

text \<open>\<open>u64::to_le_bytes\<close>.\<close>

definition to_le_bytes :: "u64 \<Rightarrow> u8 list" where
  "to_le_bytes x = map (\<lambda>i. ucast (drop_bit (8 * i) x)) [0..<8]"

definition leaf_bytes :: "payment_receipt \<Rightarrow> u8 list" where
  "leaf_bytes r = bytes_of (rc_client_ip_hash r) @ to_le_bytes (rc_amount_lamports r) @
     bytes_of (rc_nonce r) @ to_le_bytes (rc_timestamp r)"

text \<open>The concatenations hashed on one level, an odd last node paired with itself.\<close>

fun level_inputs :: "u8 list list \<Rightarrow> u8 list list" where
  "level_inputs [] = []"
| "level_inputs [x] = [x @ x]"
| "level_inputs (x # y # xs) = (x @ y) # level_inputs xs"

definition next_level :: "hash_fun \<Rightarrow> u8 list list \<Rightarrow> u8 list list" where
  "next_level H xs = map H (level_inputs xs)"

lemma length_level_inputs: "length (level_inputs xs) = (length xs + 1) div 2"
  by (induction xs rule: level_inputs.induct) auto

function merkle_loop :: "hash_fun \<Rightarrow> u8 list list \<Rightarrow> u8 list list" where
  "merkle_loop H level =
     (if 1 < length level then merkle_loop H (next_level H level) else level)"
  by pat_completeness auto

termination merkle_loop
  by (relation "measure (\<lambda>(H, level). length level)")
    (auto simp: next_level_def length_level_inputs)

declare merkle_loop.simps [simp del]

definition compute_merkle_root :: "hash_fun \<Rightarrow> u8 list list \<Rightarrow> u8 list" where
  "compute_merkle_root H leaves =
     (if leaves = [] then replicate 32 0
      else if length leaves = 1 then leaves ! 0
      else merkle_loop H leaves ! 0)"

definition compress :: "hash_fun \<Rightarrow> hex_printer \<Rightarrow> u64 \<Rightarrow> zk_receipt_batch \<Rightarrow> compressed_batch option" where
  "compress H hex now b = do {
     total_lamports \<leftarrow> checked_sum (map rc_amount_lamports (zb_receipts b)) 0;
     let leaves = map (H \<circ> leaf_bytes) (zb_receipts b);
     Some \<lparr>cb_batch_id = zb_batch_id b,
       cb_merkle_root = hex (compute_merkle_root H leaves),
       cb_total_lamports = total_lamports,
       cb_receipt_count = of_nat (length (zb_receipts b)),
       cb_compressed_at = now\<rparr>
   }"

definition batch_id_to_bytes :: "hash_fun \<Rightarrow> string \<Rightarrow> u8 list" where
  "batch_id_to_bytes H batch_id = H (bytes_of batch_id)"

section \<open>Persisting a batch\<close>

type_synonym disk = "string \<rightharpoonup> string"

record batch_world =
  bw_now :: u64
  bw_hash :: hash_fun
  bw_hex :: hex_printer
  bw_create_dir :: "disk \<Rightarrow> string \<Rightarrow> bool"
  bw_to_json :: "payment_receipt list \<Rightarrow> string option"
  bw_write :: "disk \<Rightarrow> string \<Rightarrow> string \<Rightarrow> disk \<times> bool"
  bw_uuid :: string

datatype persist_error = DirError | JsonError | WriteError

definition batch_file :: "string \<Rightarrow> string \<Rightarrow> string" where
  "batch_file path batch_id = path @ ''/batch_'' @ batch_id @ ''.json''"

definition persist_and_clear ::
  "batch_world \<Rightarrow> string \<Rightarrow> zk_receipt_batch \<times> disk \<Rightarrow>
   ((persist_error + compressed_batch) \<times> zk_receipt_batch \<times> disk) option" where
  "persist_and_clear w path = (\<lambda>(b, d). do {
     batch \<leftarrow> compress (bw_hash w) (bw_hex w) (bw_now w) b;
     if \<not> bw_create_dir w d path then Some (Inl DirError, b, d)
     else (case bw_to_json w (zb_receipts b) of
         None \<Rightarrow> Some (Inl JsonError, b, d)
       | Some text \<Rightarrow>
           (case bw_write w d (batch_file path (zb_batch_id b)) text of
              (d', False) \<Rightarrow> Some (Inl WriteError, b, d')
            | (d', True) \<Rightarrow>
                Some (Inr batch, b\<lparr>zb_receipts := [], zb_batch_id := bw_uuid w\<rparr>, d')))
   })"

section \<open>The commitment binds\<close>

lemma length_to_le_bytes [simp]: "length (to_le_bytes x) = 8"
  by (simp add: to_le_bytes_def)

lemma to_le_bytes_inj [simp]: "to_le_bytes x = to_le_bytes y \<longleftrightarrow> x = y"
proof
  assume eq: "to_le_bytes x = to_le_bytes y"
  show "x = y"
  proof (rule bit_word_eqI)
    fix n
    assume "n < LENGTH(64)"
    then have "n div 8 < 8" by simp
    then have "(ucast (drop_bit (8 * (n div 8)) x) :: u8) = ucast (drop_bit (8 * (n div 8)) y)"
      using arg_cong [OF eq, of "\<lambda>l. l ! (n div 8)"] by (simp add: to_le_bytes_def)
    then have "bit (ucast (drop_bit (8 * (n div 8)) x) :: u8) (n mod 8) =
        bit (ucast (drop_bit (8 * (n div 8)) y) :: u8) (n mod 8)" by simp
    then show "bit x n = bit y n"
      by (simp add: bit_ucast_iff bit_drop_bit_eq)
  qed
qed simp

text \<open>With hashes of the client address of one length, the leaf's bytes determine everything they
  cover.\<close>

lemma leaf_bytes_inj:
  assumes "leaf_bytes r = leaf_bytes r'"
    and "length (rc_client_ip_hash r) = length (rc_client_ip_hash r')"
  shows "rc_client_ip_hash r = rc_client_ip_hash r' \<and> rc_amount_lamports r = rc_amount_lamports r' \<and>
    rc_nonce r = rc_nonce r' \<and> rc_timestamp r = rc_timestamp r'"
  using assms by (auto simp: leaf_bytes_def append_eq_append_conv append_assoc [symmetric]
      simp del: append_assoc)

text \<open>All nodes of a level are 32 bytes long.\<close>

definition level_ok :: "u8 list list \<Rightarrow> bool" where
  "level_ok xs \<longleftrightarrow> (\<forall>x\<in>set xs. length x = 32)"

lemma level_inputs_inj:
  "length xs = length ys \<Longrightarrow> level_ok xs \<Longrightarrow> level_ok ys \<Longrightarrow>
     level_inputs xs = level_inputs ys \<Longrightarrow> xs = ys"
proof (induction xs arbitrary: ys rule: level_inputs.induct)
  case (2 x)
  then show ?case by (cases ys) (auto simp: level_ok_def)
next
  case (3 x y xs)
  then obtain x' y' ys' where ys: "ys = x' # y' # ys'" by (metis length_Cons Suc_length_conv)
  with 3 show ?case by (auto simp: level_ok_def)
qed simp

lemma next_level_ok: "(\<And>m. length (H m) = 32) \<Longrightarrow> level_ok (next_level H xs)"
  by (auto simp: level_ok_def next_level_def)

text \<open>Two different hash inputs at one position.\<close>

definition first_diff :: "'a list \<Rightarrow> 'a list \<Rightarrow> ('a \<times> 'a) option" where
  "first_diff xs ys = find (\<lambda>(x, y). x \<noteq> y) (zip xs ys)"

lemma first_diff_Some:
  assumes "length xs = length ys" "xs \<noteq> ys" "map H xs = map H ys"
  shows "\<exists>a b. first_diff xs ys = Some (a, b) \<and> a \<noteq> b \<and> H a = H b"
  using assms
  by (induction xs ys rule: list_induct2) (auto simp: first_diff_def)

text \<open>From two different leaf lists with the same root, an explicit collision of the hash.\<close>

function collision :: "hash_fun \<Rightarrow> u8 list list \<Rightarrow> u8 list list \<Rightarrow> (u8 list \<times> u8 list) option" where
  "collision H xs ys =
     (if length xs \<le> 1 then None
      else if next_level H xs = next_level H ys then first_diff (level_inputs xs) (level_inputs ys)
      else collision H (next_level H xs) (next_level H ys))"
  by pat_completeness auto

termination collision
  by (relation "measure (\<lambda>(H, xs, ys). length xs)")
    (auto simp: next_level_def length_level_inputs)

declare collision.simps [simp del]

lemma merkle_loop_collision:
  "(\<And>m. length (H m) = 32) \<Longrightarrow> length xs = length ys \<Longrightarrow> level_ok xs \<Longrightarrow> level_ok ys \<Longrightarrow> xs \<noteq> ys \<Longrightarrow>
    merkle_loop H xs = merkle_loop H ys \<Longrightarrow>
    \<exists>a b. collision H xs ys = Some (a, b) \<and> a \<noteq> b \<and> H a = H b"
proof (induction H xs ys rule: collision.induct)
  case (1 H xs ys)
  have "1 < length xs"
    using 1(3,6,7) by (auto simp: merkle_loop.simps [of H xs] merkle_loop.simps [of H ys] split: if_splits)
  then have loop: "merkle_loop H (next_level H xs) = merkle_loop H (next_level H ys)"
    using 1(3,7) by (simp add: merkle_loop.simps [of H xs] merkle_loop.simps [of H ys])
  show ?case
  proof (cases "next_level H xs = next_level H ys")
    case True
    have "level_inputs xs \<noteq> level_inputs ys" using level_inputs_inj 1(3-6) by blast
    moreover have "length (level_inputs xs) = length (level_inputs ys)"
      using 1(3) by (simp add: length_level_inputs)
    ultimately show ?thesis
      using True first_diff_Some [of "level_inputs xs" "level_inputs ys" H] \<open>1 < length xs\<close>
      by (simp add: collision.simps [of H xs ys] next_level_def)
  next
    case False
    have "length (next_level H xs) = length (next_level H ys)"
      using 1(3) by (simp add: next_level_def length_level_inputs)
    with 1(1,2) False loop \<open>1 < length xs\<close> show ?thesis
      by (simp add: collision.simps [of H xs ys] next_level_ok)
  qed
qed

lemma length_merkle_loop: "xs \<noteq> [] \<Longrightarrow> length (merkle_loop H xs) = 1"
proof (induction H xs rule: merkle_loop.induct)
  case (1 H xs)
  show ?case
  proof (cases "1 < length xs")
    case True
    then have "next_level H xs \<noteq> []"
      using length_level_inputs [of xs] by (auto simp: next_level_def)
    moreover have "merkle_loop H xs = merkle_loop H (next_level H xs)"
      using True by (simp add: merkle_loop.simps [of H xs])
    ultimately show ?thesis using 1(1) True by simp
  next
    case False
    then have "merkle_loop H xs = xs" by (simp add: merkle_loop.simps [of H xs])
    with False 1(2) show ?thesis by (cases xs) auto
  qed
qed

lemma merkle_root_loop: "xs \<noteq> [] \<Longrightarrow> compute_merkle_root H xs = merkle_loop H xs ! 0"
  by (auto simp: compute_merkle_root_def merkle_loop.simps [of H xs])

lemma merkle_loop_eq_iff:
  assumes "xs \<noteq> []" "ys \<noteq> []"
  shows "compute_merkle_root H xs = compute_merkle_root H ys \<longleftrightarrow> merkle_loop H xs = merkle_loop H ys"
  using length_merkle_loop [OF assms(1), of H] length_merkle_loop [OF assms(2), of H]
    merkle_root_loop [OF assms(1), of H] merkle_root_loop [OF assms(2), of H]
  by (auto simp: length_Suc_conv)

text \<open>The loop as the code runs it: while more than one hash is left, take the next level. A level
  of \<open>m\<close> hashes is followed by one of half as many, rounded up, so \<open>m\<close> lies between two powers of
  two that fix the number of rounds.\<close>

lemma length_next_level: "length (next_level H xs) = (length xs + 1) div 2"
  by (simp add: next_level_def length_level_inputs)

lemma merkle_loop_while: "while_option (\<lambda>l. 1 < length l) (next_level H) xs = Some (merkle_loop H xs)"
proof (induction H xs rule: merkle_loop.induct)
  case (1 H xs)
  then show ?case
    by (subst while_option_unfold) (simp add: merkle_loop.simps [of H xs])
qed

lemma merkle_loop_rounds:
  "xs \<noteq> [] \<Longrightarrow> \<exists>k. (next_level H ^^ k) xs = merkle_loop H xs \<and> length xs \<le> 2 ^ k \<and> 2 ^ k < 2 * length xs \<and>
     (\<Sum>j<k. length ((next_level H ^^ Suc j) xs)) \<le> length xs - 1 + k"
proof (induction H xs rule: merkle_loop.induct)
  case (1 H xs)
  show ?case
  proof (cases "1 < length xs")
    case True
    let ?ys = "next_level H xs"
    from True have "?ys \<noteq> []" using length_next_level [of H xs] by auto
    with 1(1) [OF True] obtain k where k: "(next_level H ^^ k) ?ys = merkle_loop H ?ys"
      "length ?ys \<le> 2 ^ k" "2 ^ k < 2 * length ?ys"
      "(\<Sum>j<k. length ((next_level H ^^ Suc j) ?ys)) \<le> length ?ys - 1 + k" by blast
    have halves: "length xs \<le> 2 * length ?ys" "2 * length ?ys \<le> length xs + 1"
      by (simp_all add: length_next_level)
    have "(\<Sum>j<Suc k. length ((next_level H ^^ Suc j) xs)) =
        length ?ys + (\<Sum>j<k. length ((next_level H ^^ Suc j) ?ys))"
      by (simp only: sum.lessThan_Suc_shift funpow_Suc_right o_apply funpow_0)
    with k(4) halves True \<open>?ys \<noteq> []\<close>
    have "(\<Sum>j<Suc k. length ((next_level H ^^ Suc j) xs)) \<le> length xs - 1 + Suc k" by linarith
    moreover have "(next_level H ^^ Suc k) xs = merkle_loop H xs"
      using k(1) True by (simp add: funpow_Suc_right merkle_loop.simps [of H xs] del: funpow.simps)
    moreover have "length xs \<le> 2 ^ Suc k" using k(2) halves by simp
    moreover have "2 ^ Suc k < 2 * length xs"
    proof (cases k)
      case (Suc m)
      then show ?thesis using k(3) halves by (simp only: power_Suc) presburger
    qed (use True in simp)
    ultimately show ?thesis by blast
  next
    case False
    with 1(2) have "length xs = 1" by (cases xs) auto
    then show ?thesis by (intro exI [of _ 0]) (simp add: merkle_loop.simps [of H xs])
  qed
qed

text \<open>An odd last leaf is the same as two of it.\<close>

lemma level_inputs_pad: "odd (length xs) \<Longrightarrow> level_inputs (xs @ [last xs]) = level_inputs xs"
  by (induction xs rule: level_inputs.induct) auto

section \<open>Receipts through the batches\<close>

datatype batch_event = Add payment_receipt | Persist batch_world string

record batch_run =
  run_batch :: zk_receipt_batch
  run_disk :: disk
  run_settled :: "payment_receipt list"
  run_total :: nat

text \<open>A run of the batch with two ghost fields: the receipts of the successfully persisted
  batches and the sum of the totals they reported. A panic leaves the state of before.\<close>

fun batch_step :: "batch_event \<Rightarrow> batch_run \<Rightarrow> batch_run" where
  "batch_step (Add r) s = s\<lparr>run_batch := add_receipt r (run_batch s)\<rparr>"
| "batch_step (Persist w path) s =
     (case persist_and_clear w path (run_batch s, run_disk s) of
        None \<Rightarrow> s
      | Some (Inl e, b, d) \<Rightarrow> s\<lparr>run_batch := b, run_disk := d\<rparr>
      | Some (Inr batch, b, d) \<Rightarrow> s\<lparr>run_batch := b, run_disk := d,
          run_settled := run_settled s @ zb_receipts (run_batch s),
          run_total := run_total s + unat (cb_total_lamports batch)\<rparr>)"

fun added :: "batch_event list \<Rightarrow> payment_receipt list" where
  "added [] = []"
| "added (Add r # es) = r # added es"
| "added (Persist w path # es) = added es"

definition batch_start :: "string \<Rightarrow> disk \<Rightarrow> batch_run" where
  "batch_start uuid d =
     \<lparr>run_batch = zb_new uuid, run_disk = d, run_settled = [], run_total = 0\<rparr>"

definition lamports_of :: "payment_receipt list \<Rightarrow> nat" where
  "lamports_of rs = (\<Sum>r\<leftarrow>rs. unat (rc_amount_lamports r))"

lemma lamports_of_append [simp]: "lamports_of (xs @ ys) = lamports_of xs + lamports_of ys"
  by (simp add: lamports_of_def)

lemma compress_total:
  "compress H hex now b = Some c \<Longrightarrow> unat (cb_total_lamports c) = lamports_of (zb_receipts b)"
  by (auto simp: compress_def Let_def bind_eq_Some_conv lamports_of_def comp_def
      dest!: checked_sum_Some)

text \<open>The outcomes of \<open>persist_and_clear\<close>.\<close>

lemma persist_cases:
  assumes "persist_and_clear w path (b, d) = Some (r, b', d')"
  obtains (failed) e where "r = Inl e" "b' = b"
  | (ok) batch where "r = Inr batch" "zb_receipts b' = []" "zb_batch_id b' = bw_uuid w"
      "compress (bw_hash w) (bw_hex w) (bw_now w) b = Some batch"
      "\<exists>text. bw_to_json w (zb_receipts b) = Some text \<and>
        bw_write w d (batch_file path (zb_batch_id b)) text = (d', True)"
  using assms
  by (auto simp: persist_and_clear_def bind_eq_Some_conv split: if_splits option.splits prod.splits bool.splits)

lemma batch_step_receipts:
  "run_settled (batch_step e s) @ zb_receipts (run_batch (batch_step e s)) =
     run_settled s @ zb_receipts (run_batch s) @ added [e] \<and>
   (run_total s = lamports_of (run_settled s) \<longrightarrow>
     run_total (batch_step e s) = lamports_of (run_settled (batch_step e s)))"
proof (cases e)
  case (Add r)
  then show ?thesis by (simp add: add_receipt_def)
next
  case (Persist w path)
  show ?thesis
  proof (cases "persist_and_clear w path (run_batch s, run_disk s)")
    case None
    with Persist show ?thesis by simp
  next
    case (Some out)
    obtain r b d where out: "out = (r, b, d)" by (cases out)
    from Some [unfolded out] show ?thesis
      by (cases rule: persist_cases) (auto simp: Persist Some out dest: compress_total)
  qed
qed

section \<open>Properties\<close>

text \<open>C11: the Merkle root binds the leaves of a batch of known size. From any two different
  lists of equally many 32-byte leaves with the same root, \<open>collision\<close> computes two different
  messages with the same hash, so forging a batch is as hard as finding a SHA-256 collision.\<close>

theorem merkle_root_binds:
  assumes "\<And>m. length (H m) = 32" and "length xs = length ys" and "level_ok xs" "level_ok ys"
    and "xs \<noteq> ys" and "compute_merkle_root H xs = compute_merkle_root H ys"
  shows "\<exists>a b. collision H xs ys = Some (a, b) \<and> a \<noteq> b \<and> H a = H b"
proof -
  have "xs \<noteq> []" "ys \<noteq> []" using assms(2,5) by auto
  then have "merkle_loop H xs = merkle_loop H ys" using assms(6) merkle_loop_eq_iff by blast
  then show ?thesis using merkle_loop_collision assms(1-5) by blast
qed

text \<open>A weak hash that keeps the first 32 bytes: the second leaf can be exchanged.\<close>

definition weak_hash :: hash_fun where
  "weak_hash m = take 32 (m @ replicate 32 0)"

theorem merkle_root_binds_witness:
  "\<exists>a b. collision weak_hash [replicate 32 1, replicate 32 2, replicate 32 3]
       [replicate 32 1, replicate 32 5, replicate 32 3] = Some (a, b) \<and>
     a \<noteq> b \<and> weak_hash a = weak_hash b"
proof (rule merkle_root_binds)
  show "length (weak_hash m) = 32" for m by (simp add: weak_hash_def)
  show "compute_merkle_root weak_hash [replicate 32 1, replicate 32 2, replicate 32 3] =
      compute_merkle_root weak_hash [replicate 32 1, replicate 32 5, replicate 32 3]"
    by (simp add: compute_merkle_root_def merkle_loop.simps next_level_def weak_hash_def)
qed (simp_all add: level_ok_def)

text \<open>C12: the loop of compute_merkle_root ends. Run as a while loop, from any list of leaves it
  stops with a single hash, the root that is returned; the number of rounds is the exact binary
  logarithm of the number of leaves, rounded up, and over all rounds the hash is called at most
  once for each leaf but one and once more for each round.\<close>

theorem merkle_loop_terminates:
  assumes "xs \<noteq> []"
  shows "while_option (\<lambda>level. 1 < length level) (next_level H) xs = Some [compute_merkle_root H xs] \<and>
    (\<exists>rounds. (next_level H ^^ rounds) xs = [compute_merkle_root H xs] \<and>
       length xs \<le> 2 ^ rounds \<and> 2 ^ rounds < 2 * length xs \<and>
       (\<Sum>j<rounds. length ((next_level H ^^ Suc j) xs)) \<le> length xs - 1 + rounds)"
proof -
  from length_merkle_loop [OF assms, of H] merkle_root_loop [OF assms, of H]
  have "merkle_loop H xs = [compute_merkle_root H xs]" by (auto simp: length_Suc_conv)
  with merkle_loop_while [of H xs] merkle_loop_rounds [OF assms, of H] show ?thesis by simp
qed

theorem merkle_loop_terminates_witness:
  "while_option (\<lambda>level. 1 < length level) (next_level weak_hash) [[1], [2], [3]] =
     Some [compute_merkle_root weak_hash [[1], [2], [3]]]"
  using merkle_loop_terminates [of "[[1], [2], [3]]" weak_hash] by simp

text \<open>The root does not fix the size of a batch. When a level has an odd number of leaves,
  repeating the last one gives the same root for every hash, so a batch of odd size and the
  batch with its last receipt counted twice have the same commitment.\<close>

theorem merkle_root_padding:
  assumes "odd (length xs)" and "1 < length xs"
  shows "compute_merkle_root H (xs @ [last xs]) = compute_merkle_root H xs"
proof -
  have "next_level H (xs @ [last xs]) = next_level H xs"
    using level_inputs_pad [OF assms(1)] by (simp add: next_level_def)
  moreover have "1 < length (xs @ [last xs])" using assms(2) unfolding length_append by linarith
  ultimately have "merkle_loop H (xs @ [last xs]) = merkle_loop H xs"
    using assms(2) by (simp only: if_True add: merkle_loop.simps [of H xs] merkle_loop.simps [of H "xs @ [last xs]"])
  moreover have "xs \<noteq> []" using assms(2) by (cases xs) simp_all
  ultimately show ?thesis by (simp add: merkle_loop_eq_iff)
qed

theorem merkle_root_padding_witness:
  "compute_merkle_root weak_hash [[1], [2], [3], [3]] = compute_merkle_root weak_hash [[1], [2], [3]]"
  using merkle_root_padding [of "[[1], [2], [3]]" weak_hash] by simp


text \<open>A leaf does not pin down its receipt. The fields are hashed without separators and the
  method and the signature are left out: there are receipts of different amounts from different
  clients that hash the same bytes, and changing the method or the signature changes nothing.
  Only among receipts whose client hashes have equal length are the covered fields determined.\<close>

theorem leaf_ambiguity:
  "(\<exists>r r'. rc_amount_lamports r \<noteq> rc_amount_lamports r' \<and>
      rc_client_ip_hash r \<noteq> rc_client_ip_hash r' \<and> leaf_bytes r = leaf_bytes r') \<and>
   leaf_bytes (r\<lparr>rc_method := m, rc_node_signature := sg\<rparr>) = leaf_bytes r \<and>
   (length (rc_client_ip_hash r) = length (rc_client_ip_hash r') \<and> leaf_bytes r = leaf_bytes r' \<longrightarrow>
      rc_client_ip_hash r = rc_client_ip_hash r' \<and> rc_amount_lamports r = rc_amount_lamports r' \<and>
      rc_nonce r = rc_nonce r' \<and> rc_timestamp r = rc_timestamp r')"
proof -
  let ?r = "\<lparr>rc_client_ip_hash = ''aaaaaaaa'', rc_amount_lamports = 0x6262626262626262,
      rc_method = [], rc_timestamp = 0, rc_nonce = [], rc_node_signature = []\<rparr>"
  let ?r' = "\<lparr>rc_client_ip_hash = [], rc_amount_lamports = 0x6161616161616161,
      rc_method = [], rc_timestamp = 0, rc_nonce = ''bbbbbbbb'', rc_node_signature = []\<rparr>"
  have "to_le_bytes 0x6161616161616161 = bytes_of ''aaaaaaaa''"
    "to_le_bytes 0x6262626262626262 = bytes_of ''bbbbbbbb''"
    by code_simp+
  then have "leaf_bytes ?r = leaf_bytes ?r'" by (simp add: leaf_bytes_def bytes_of_def [of "[]"])
  moreover have "rc_amount_lamports ?r \<noteq> rc_amount_lamports ?r'"
      "rc_client_ip_hash ?r \<noteq> rc_client_ip_hash ?r'" by simp_all
  ultimately have "\<exists>r r'. rc_amount_lamports r \<noteq> rc_amount_lamports r' \<and>
      rc_client_ip_hash r \<noteq> rc_client_ip_hash r' \<and> leaf_bytes r = leaf_bytes r'" by blast
  moreover have "leaf_bytes (r\<lparr>rc_method := m, rc_node_signature := sg\<rparr>) = leaf_bytes r"
    by (simp add: leaf_bytes_def)
  ultimately show ?thesis using leaf_bytes_inj by blast
qed

definition receipt_a :: payment_receipt where
  "receipt_a = \<lparr>rc_client_ip_hash = ''aa'', rc_amount_lamports = 100, rc_method = ''getSlot'',
     rc_timestamp = 5, rc_nonce = ''n'', rc_node_signature = ''s''\<rparr>"

theorem leaf_ambiguity_witness:
  "leaf_bytes (receipt_a\<lparr>rc_amount_lamports := 101\<rparr>) \<noteq> leaf_bytes receipt_a"
  using leaf_ambiguity [of _ _ receipt_a "receipt_a\<lparr>rc_amount_lamports := 101\<rparr>"]
  by (auto simp: receipt_a_def)

end
