(* ===== verification/Onion.thy ===== *)
theory Onion
  imports Rust_Text
begin

text \<open>
  \<open>sns-daemon/src/onion.rs\<close>: layered encryption of a request and the peeling of one layer.
  X25519, AES-256-GCM and hex are the parameters collected in \<open>onion_crypto\<close>; the ephemeral
  secret and the nonce drawn for a layer are the values \<open>rnd i\<close>.
\<close>

record 'k onion_crypto =
  oc_public :: "'k \<Rightarrow> u8 list"
  oc_dh :: "'k \<Rightarrow> u8 list \<Rightarrow> u8 list"
  oc_encrypt :: "u8 list \<Rightarrow> u8 list \<Rightarrow> u8 list \<Rightarrow> u8 list option"
  oc_decrypt :: "u8 list \<Rightarrow> u8 list \<Rightarrow> u8 list \<Rightarrow> u8 list option"
  oc_hex :: hex_printer
  oc_unhex :: hex_parser

datatype onion_error = BadHex | EncryptFailed | TooShort | DecryptFailed | InvalidLayer

record peeled_layer =
  pl_next_hop :: string
  pl_inner_payload :: "u8 list"
  pl_is_exit :: bool

definition encrypt_layer ::
  "'k onion_crypto \<Rightarrow> 'k \<times> u8 list \<Rightarrow> u8 list \<Rightarrow> u8 list \<Rightarrow> onion_error + u8 list" where
  "encrypt_layer c rnd data recipient_key =
     (let (ephemeral, nonce) = rnd;
          ephemeral_pub = oc_public c ephemeral;
          shared = oc_dh c ephemeral recipient_key in
      and_then (ok_or (oc_encrypt c shared nonce data) EncryptFailed) (\<lambda>ciphertext.
      Inr (ephemeral_pub @ nonce @ ciphertext)))"

definition decrypt_layer :: "'k onion_crypto \<Rightarrow> u8 list \<Rightarrow> 'k \<Rightarrow> onion_error + u8 list" where
  "decrypt_layer c data our_key =
     and_then (require (44 \<le> length data) TooShort) (\<lambda>_.
     let ephemeral_pub = take 32 data;
         nonce = take 12 (drop 32 data);
         ciphertext = drop 44 data;
         shared = oc_dh c our_key ephemeral_pub in
     ok_or (oc_decrypt c shared nonce ciphertext) DecryptFailed)"

text \<open>The loop of \<open>wrap_request\<close> over the enumerated keys, last one first; indexing past the
  end of \<open>next_hops\<close> panics.\<close>

fun wrap_loop ::
  "'k onion_crypto \<Rightarrow> (nat \<Rightarrow> 'k \<times> u8 list) \<Rightarrow> string list \<Rightarrow> (nat \<times> u8 list) list \<Rightarrow> u8 list \<Rightarrow>
   (onion_error + u8 list) option" where
  "wrap_loop c rnd next_hops [] wrapped = Some (Inr wrapped)"
| "wrap_loop c rnd next_hops ((i, node_key) # rest) wrapped =
     (if length next_hops \<le> i then None
      else (case oc_unhex c (next_hops ! i) of
          None \<Rightarrow> Some (Inl BadHex)
        | Some next_hop_bytes \<Rightarrow>
            (case encrypt_layer c (rnd i) (next_hop_bytes @ wrapped) node_key of
               Inl e \<Rightarrow> Some (Inl e)
             | Inr wrapped' \<Rightarrow> wrap_loop c rnd next_hops rest wrapped')))"

definition wrap_request ::
  "'k onion_crypto \<Rightarrow> (nat \<Rightarrow> 'k \<times> u8 list) \<Rightarrow> u8 list \<Rightarrow> u8 list list \<Rightarrow> string list \<Rightarrow>
   (onion_error + u8 list) option" where
  "wrap_request c rnd payload node_keys next_hops =
     wrap_loop c rnd next_hops (rev (enumerate 0 node_keys)) payload"

definition peel_layer :: "'k onion_crypto \<Rightarrow> 'k \<Rightarrow> u8 list \<Rightarrow> onion_error + peeled_layer" where
  "peel_layer c private_key wrapped =
     and_then (decrypt_layer c wrapped private_key) (\<lambda>decrypted.
     and_then (require (32 \<le> length decrypted) InvalidLayer) (\<lambda>_.
     let next_hop = oc_hex c (take 32 decrypted);
         inner_payload = drop 32 decrypted in
     Inr \<lparr>pl_next_hop = next_hop, pl_inner_payload = inner_payload,
       pl_is_exit = (next_hop = replicate 64 (CHR ''0''))\<rparr>))"

section \<open>Laws of the cryptography\<close>

definition crypto_law :: "'k onion_crypto \<Rightarrow> bool" where
  "crypto_law c \<longleftrightarrow>
     (\<forall>k. length (oc_public c k) = 32) \<and>
     (\<forall>a b. oc_dh c a (oc_public c b) = oc_dh c b (oc_public c a)) \<and>
     (\<forall>key nonce d e. oc_encrypt c key nonce d = Some e \<longrightarrow> oc_decrypt c key nonce e = Some d) \<and>
     hex_law (oc_hex c) (oc_unhex c)"

section \<open>Wrapping and peeling\<close>

lemma decrypt_encrypt:
  assumes "crypto_law c" and "length (snd rnd) = 12"
    and "encrypt_layer c rnd d (oc_public c k) = Inr w"
  shows "decrypt_layer c w k = Inr d"
proof -
  obtain ct where w: "w = oc_public c (fst rnd) @ snd rnd @ ct"
    and ct: "oc_encrypt c (oc_dh c (fst rnd) (oc_public c k)) (snd rnd) d = Some ct"
    using assms(3) by (auto simp: encrypt_layer_def Let_def and_then_Inr split: prod.splits)
  moreover have "length (oc_public c (fst rnd)) = 32" using assms(1) by (simp add: crypto_law_def)
  moreover have "oc_dh c k (oc_public c (fst rnd)) = oc_dh c (fst rnd) (oc_public c k)"
    using assms(1) unfolding crypto_law_def by blast
  moreover have "oc_decrypt c (oc_dh c (fst rnd) (oc_public c k)) (snd rnd) ct = Some d"
    using assms(1) ct unfolding crypto_law_def by blast
  ultimately show ?thesis using assms(2) by (simp add: decrypt_layer_def Let_def)
qed

lemma peel_encrypted:
  assumes "crypto_law c" and "length (snd rnd) = 12" and "length hop = 32"
    and "encrypt_layer c rnd (hop @ inner) (oc_public c k) = Inr w"
  shows "peel_layer c k w = Inr \<lparr>pl_next_hop = oc_hex c hop, pl_inner_payload = inner,
    pl_is_exit = (hop = replicate 32 0)\<rparr>"
proof -
  have hex: "oc_hex c (replicate 32 0) = replicate 64 (CHR ''0'')" "inj (oc_hex c)"
    using assms(1) by (auto simp: crypto_law_def hex_law_def intro!: injI) (metis option.inject)
  then have "oc_hex c hop = replicate 64 (CHR ''0'') \<longleftrightarrow> hop = replicate 32 0"
    by (metis injD)
  with decrypt_encrypt [OF assms(1,2,4)] assms(3) show ?thesis
    by (simp add: peel_layer_def Let_def)
qed

lemma wrap_loop_append:
  "wrap_loop c rnd hops (xs @ ys) w =
     (case wrap_loop c rnd hops xs w of
        None \<Rightarrow> None
      | Some (Inl e) \<Rightarrow> Some (Inl e)
      | Some (Inr w') \<Rightarrow> wrap_loop c rnd hops ys w')"
  by (induction c rnd hops xs w rule: wrap_loop.induct) (auto split: option.splits sum.splits)

text \<open>The route of a wrapped request: every node of the path peels in turn and hands the inner
  payload on; the result is what the nodes saw and the last payload.\<close>

fun peel_path :: "'k onion_crypto \<Rightarrow> 'k list \<Rightarrow> u8 list \<Rightarrow> ((string \<times> bool) list \<times> u8 list) option" where
  "peel_path c [] w = Some ([], w)"
| "peel_path c (k # ks) w =
     (case peel_layer c k w of
        Inl e \<Rightarrow> None
      | Inr p \<Rightarrow> map_option (\<lambda>(seen, payload). ((pl_next_hop p, pl_is_exit p) # seen, payload))
          (peel_path c ks (pl_inner_payload p)))"

lemma wrap_peel_from:
  assumes "crypto_law c" and "\<forall>i. length (snd (rnd i)) = 12"
    and "\<forall>i<length hops. length (hops ! i) = 32"
  shows "wrap_loop c rnd (map (oc_hex c) hops) (rev (enumerate n (map (oc_public c) ks))) payload = Some (Inr w) \<Longrightarrow>
    peel_path c ks w = Some (map (\<lambda>i. (oc_hex c (hops ! i), hops ! i = replicate 32 0)) [n..<n + length ks], payload)"
proof (induction ks arbitrary: n w)
  case Nil
  then show ?case by simp
next
  case (Cons k ks)
  obtain w' where inner: "wrap_loop c rnd (map (oc_hex c) hops)
      (rev (enumerate (Suc n) (map (oc_public c) ks))) payload = Some (Inr w')"
    and outer: "wrap_loop c rnd (map (oc_hex c) hops) [(n, oc_public c k)] w' = Some (Inr w)"
    using Cons.prems by (auto simp: wrap_loop_append split: option.splits sum.splits)
  have n: "n < length hops" and "oc_unhex c (oc_hex c (hops ! n)) = Some (hops ! n)"
    using outer assms(1) by (auto simp: crypto_law_def hex_law_def split: if_splits)
  then have "encrypt_layer c (rnd n) (hops ! n @ w') (oc_public c k) = Inr w"
    using outer by (auto split: sum.splits)
  from peel_encrypted [OF assms(1) _ _ this] assms(2,3) n Cons.IH [OF inner]
  show ?case by (simp add: upt_conv_Cons del: upt_Suc)
qed

section \<open>Properties\<close>

text \<open>C14: onion routing delivers. A request wrapped for a path of nodes, with 32-byte hops, is
  peeled by the nodes in path order: each one learns exactly its own next hop and whether it is
  the exit, and the last one holds the original payload.\<close>

theorem onion_round_trip:
  assumes "crypto_law c" and "\<forall>i. length (snd (rnd i)) = 12"
    and "\<forall>hop\<in>set hops. length hop = 32" and "length hops = length ks"
    and "wrap_request c rnd payload (map (oc_public c) ks) (map (oc_hex c) hops) = Some (Inr w)"
  shows "peel_path c ks w =
    Some (map (\<lambda>hop. (oc_hex c hop, hop = replicate 32 0)) hops, payload)"
proof -
  have "map (\<lambda>i. (oc_hex c (hops ! i), hops ! i = replicate 32 0)) [0..<length ks] =
      map (\<lambda>hop. (oc_hex c hop, hop = replicate 32 0)) hops"
    using assms(4) by (auto intro!: nth_equalityI)
  with wrap_peel_from [OF assms(1,2), of hops 0 ks payload w] assms(3,5)
  show ?thesis by (simp add: wrap_request_def)
qed

text \<open>A toy cipher: keys are bytes, the shared secret is their sum, encryption adds it.\<close>

definition toy_crypto :: "u8 onion_crypto" where
  "toy_crypto = \<lparr>oc_public = (\<lambda>k. replicate 32 k), oc_dh = (\<lambda>k p. [k + hd p]),
     oc_encrypt = (\<lambda>key nonce d. Some (map (\<lambda>b. b + hd key) d)),
     oc_decrypt = (\<lambda>key nonce e. Some (map (\<lambda>b. b - hd key) e)),
     oc_hex = hex_encode, oc_unhex = hex_decode\<rparr>"

lemma toy_crypto_law: "crypto_law toy_crypto"
  by (auto simp: crypto_law_def toy_crypto_def hex_law_instance comp_def)

theorem onion_round_trip_witness:
  "\<exists>w. wrap_request toy_crypto (\<lambda>i. (of_nat i, replicate 12 9)) [1, 2, 3]
       [replicate 32 10, replicate 32 20]
       [hex_encode (replicate 32 7), hex_encode (replicate 32 0)] = Some (Inr w) \<and>
     peel_path toy_crypto [10, 20] w =
       Some ([(hex_encode (replicate 32 7), False), (hex_encode (replicate 32 0), True)], [1, 2, 3])"
proof -
  let ?hops = "[replicate 32 7, replicate 32 0] :: u8 list list"
  have pub: "oc_public toy_crypto = (\<lambda>k. replicate 32 k)" "oc_hex toy_crypto = hex_encode"
    by (simp_all add: toy_crypto_def)
  obtain w where w: "wrap_request toy_crypto (\<lambda>i. (of_nat i, replicate 12 9)) [1, 2, 3]
      (map (oc_public toy_crypto) [10, 20]) (map (oc_hex toy_crypto) ?hops) = Some (Inr w)"
    by (simp add: wrap_request_def encrypt_layer_def toy_crypto_def hex_decode_encode Let_def)
  from onion_round_trip [OF toy_crypto_law _ _ _ w] have "peel_path toy_crypto [10, 20] w =
      Some (map (\<lambda>hop. (oc_hex toy_crypto hop, hop = replicate 32 0)) ?hops, [1, 2, 3])" by simp
  moreover have "replicate 32 (7::u8) \<noteq> replicate 32 0" by (simp add: replicate_eq_replicate)
  ultimately show ?thesis using w unfolding pub by auto
qed

text \<open>A hop that is not 32 bytes long breaks the onion without an error. The wrapper accepts
  any hex string as a hop, but the peeling node always takes 32 bytes, so it reads a next hop
  that was never requested, made of the short hop and the head of the next layer, and hands on
  a payload that misses its first bytes.\<close>

theorem short_hop_corrupts:
  assumes "crypto_law c" and "length (snd (rnd 0)) = 12" and "length hop < 32"
    and "32 \<le> length hop + length payload"
    and "wrap_request c rnd payload [oc_public c k] [oc_hex c hop] = Some (Inr w)"
  shows "\<exists>p. peel_layer c k w = Inr p \<and> pl_next_hop p \<noteq> oc_hex c hop \<and>
    pl_inner_payload p = drop (32 - length hop) payload \<and> pl_inner_payload p \<noteq> payload"
proof -
  have hex: "oc_unhex c (oc_hex c bs) = Some bs" "length (oc_hex c bs) = 2 * length bs" for bs
    using assms(1) by (auto simp: crypto_law_def hex_law_def)
  have "encrypt_layer c (rnd 0) (hop @ payload) (oc_public c k) = Inr w"
    using assms(5) by (auto simp: wrap_request_def hex split: sum.splits)
  from decrypt_encrypt [OF assms(1,2) this] have "decrypt_layer c w k = Inr (hop @ payload)" .
  then obtain p where p: "peel_layer c k w = Inr p" "pl_next_hop p = oc_hex c (take 32 (hop @ payload))"
      "pl_inner_payload p = drop 32 (hop @ payload)"
    using assms(4) by (auto simp: peel_layer_def Let_def)
  have "length (oc_hex c (take 32 (hop @ payload))) = 64" using assms(4) by (simp add: hex)
  then have "pl_next_hop p \<noteq> oc_hex c hop" using p(2) assms(3) hex(2) [of hop] by auto
  moreover have "pl_inner_payload p = drop (32 - length hop) payload"
    using p(3) assms(3) by simp
  moreover from this have "length (pl_inner_payload p) < length payload" using assms(3,4) by simp
  then have "pl_inner_payload p \<noteq> payload" by blast
  ultimately show ?thesis using p(1) by blast
qed

theorem short_hop_corrupts_witness:
  "\<exists>w p. wrap_request toy_crypto (\<lambda>i. (3, replicate 12 9)) (replicate 40 1) [replicate 32 10]
       [hex_encode [5]] = Some (Inr w) \<and>
     peel_layer toy_crypto 10 w = Inr p \<and> pl_inner_payload p \<noteq> replicate 40 1"
proof -
  have pub: "oc_public toy_crypto = (\<lambda>k. replicate 32 k)" "oc_hex toy_crypto = hex_encode"
    by (simp_all add: toy_crypto_def)
  obtain w where w: "wrap_request toy_crypto (\<lambda>i. (3, replicate 12 9)) (replicate 40 1)
      [oc_public toy_crypto 10] [oc_hex toy_crypto [5]] = Some (Inr w)"
    by (simp add: wrap_request_def encrypt_layer_def toy_crypto_def hex_decode_encode Let_def)
  from short_hop_corrupts [OF toy_crypto_law _ _ _ w] obtain p where
    "peel_layer toy_crypto 10 w = Inr p" "pl_inner_payload p \<noteq> replicate 40 1" by auto
  with w show ?thesis unfolding pub by blast
qed

end
