(* ===== verification/Latency_Engine.thy ===== *)
theory Latency_Engine
  imports Json
begin

text \<open>
  \<open>sns-daemon/src/latency_engine.rs\<close>: the three-tier response cache with its time to live per
  method, and the latency metrics. An \<open>Instant\<close> and a \<open>Duration\<close> are natural numbers of
  nanoseconds (\<open>elapsed\<close> saturates at zero). The JSON printer, which makes the cache keys, and
  the floating-point formatting of the report are parameters.
\<close>

type_synonym instant = nat

record cache_entry =
  ce_value :: json
  ce_cached_at :: instant
  ce_ttl :: nat
  ce_hits :: u64

record method_metrics =
  mm_total_requests :: u64
  mm_cache_hits :: u64
  mm_total_latency_us :: u64
  mm_min_latency_us :: u64
  mm_max_latency_us :: u64
  mm_p50_latency_us :: u64
  mm_p95_latency_us :: u64
  mm_p99_latency_us :: u64

type_synonym response_cache = "(string, cache_entry) dashmap"

record latency_engine =
  le_l1 :: response_cache
  le_l2 :: response_cache
  le_l3 :: response_cache
  le_metrics :: "(string, method_metrics) dashmap"

definition metrics_default :: method_metrics where
  "metrics_default = \<lparr>mm_total_requests = 0, mm_cache_hits = 0, mm_total_latency_us = 0,
     mm_min_latency_us = 0, mm_max_latency_us = 0, mm_p50_latency_us = 0, mm_p95_latency_us = 0,
     mm_p99_latency_us = 0\<rparr>"

text \<open>The settings of the HTTP client for upstream calls; the pool itself is \<open>reqwest\<close>.\<close>

record connection_pool =
  cp_max_idle_per_host :: usize
  cp_idle_timeout_secs :: nat
  cp_tcp_nodelay :: bool
  cp_connect_timeout_secs :: nat
  cp_timeout_secs :: nat
  cp_http2_prior_knowledge :: bool

definition connection_pool_new :: "usize \<Rightarrow> connection_pool" where
  "connection_pool_new pool_size = \<lparr>cp_max_idle_per_host = pool_size, cp_idle_timeout_secs = 90,
     cp_tcp_nodelay = True, cp_connect_timeout_secs = 3, cp_timeout_secs = 10, cp_http2_prior_knowledge = True\<rparr>"

definition le_new :: latency_engine where
  "le_new = \<lparr>le_l1 = dm_new, le_l2 = dm_new, le_l3 = dm_new, le_metrics = dm_new\<rparr>"

section \<open>Time to live and tiers\<close>

definition L1_HOT :: "string list" where
  "L1_HOT = [''getSlot'', ''getBlockHeight'', ''getEpochInfo'', ''getVersion'', ''getHealth'',
     ''getIdentity'', ''getInflationRate'']"

definition L2_WARM :: "string list" where
  "L2_WARM = [''getBalance'', ''getAccountInfo'', ''getMultipleAccounts'',
     ''getTokenAccountBalance'', ''getTokenSupply'', ''getTokenLargestAccounts'']"

definition L3_COLD :: "string list" where
  "L3_COLD = [''getProgramAccounts'', ''getClusterNodes'', ''getVoteAccounts'',
     ''getInflationGovernor'', ''getEpochSchedule'', ''getFirstAvailableBlock'', ''getGenesisHash'']"

definition NO_CACHE :: "string list" where
  "NO_CACHE = [''sendTransaction'', ''simulateTransaction'', ''getLatestBlockhash'',
     ''getRecentPrioritizationFees'', ''getSignatureStatuses'']"

definition millis :: "nat \<Rightarrow> nat" where "millis n = n * 10 ^ 6"

definition secs :: "nat \<Rightarrow> nat" where "secs n = n * 10 ^ 9"

definition get_ttl :: "string \<Rightarrow> nat option" where
  "get_ttl meth =
     (if meth \<in> set NO_CACHE then None
      else if meth \<in> set L1_HOT then Some (millis 500)
      else if meth \<in> set L2_WARM then Some (secs 2)
      else if meth \<in> set L3_COLD then Some (secs 10)
      else Some (secs 1))"

definition get_cache_tier :: "string \<Rightarrow> nat" where
  "get_cache_tier meth =
     (if meth \<in> set L1_HOT then 1
      else if meth \<in> set L2_WARM then 2
      else if meth \<in> set L3_COLD then 3
      else 0)"

definition build_cache_key :: "(json \<Rightarrow> string) \<Rightarrow> string \<Rightarrow> json \<Rightarrow> string" where
  "build_cache_key to_str meth params = meth @ '':'' @ to_str params"

section \<open>Operations\<close>

text \<open>The cache a tier number selects, and the engine with that cache replaced.\<close>

definition tier_cache :: "nat \<Rightarrow> latency_engine \<Rightarrow> response_cache option" where
  "tier_cache tier e =
     (if tier = 1 then Some (le_l1 e) else if tier = 2 then Some (le_l2 e)
      else if tier = 3 then Some (le_l3 e) else None)"

definition set_tier_cache :: "nat \<Rightarrow> response_cache \<Rightarrow> latency_engine \<Rightarrow> latency_engine" where
  "set_tier_cache tier c e =
     (if tier = 1 then e\<lparr>le_l1 := c\<rparr> else if tier = 2 then e\<lparr>le_l2 := c\<rparr>
      else if tier = 3 then e\<lparr>le_l3 := c\<rparr> else e)"

definition get_cached ::
  "(json \<Rightarrow> string) \<Rightarrow> instant \<Rightarrow> string \<Rightarrow> json \<Rightarrow> latency_engine \<Rightarrow>
   (json option \<times> latency_engine) option" where
  "get_cached to_str now meth params e =
     (let key = build_cache_key to_str meth params;
          tier = get_cache_tier meth in
      case tier_cache tier e of
        None \<Rightarrow> Some (None, e)
      | Some cache \<Rightarrow>
          (case dm_get cache key of
             None \<Rightarrow> Some (None, e)
           | Some entry \<Rightarrow>
               if now - ce_cached_at entry < ce_ttl entry then do {
                 hits \<leftarrow> checked_add (ce_hits entry) 1;
                 let m = dm_or_insert (le_metrics e) meth metrics_default;
                 cache_hits \<leftarrow> checked_add (mm_cache_hits m) 1;
                 let e' = set_tier_cache tier (dm_insert key (entry\<lparr>ce_hits := hits\<rparr>) cache) e;
                 Some (Some (ce_value entry),
                   e'\<lparr>le_metrics := dm_insert meth (m\<lparr>mm_cache_hits := cache_hits\<rparr>) (le_metrics e)\<rparr>)
               }
               else Some (None, set_tier_cache tier (dm_remove key cache) e)))"

definition set_cache ::
  "(json \<Rightarrow> string) \<Rightarrow> instant \<Rightarrow> string \<Rightarrow> json \<Rightarrow> json \<Rightarrow> latency_engine \<Rightarrow> latency_engine" where
  "set_cache to_str now meth params value e =
     (case get_ttl meth of
        None \<Rightarrow> e
      | Some ttl \<Rightarrow>
          (let key = build_cache_key to_str meth params;
               entry = \<lparr>ce_value = value, ce_cached_at = now, ce_ttl = ttl, ce_hits = 0\<rparr>;
               tier = get_cache_tier meth in
           case tier_cache tier e of
             Some cache \<Rightarrow> set_tier_cache tier (dm_insert key entry cache) e
           | None \<Rightarrow> e))"

definition record_latency :: "string \<Rightarrow> u64 \<Rightarrow> latency_engine \<Rightarrow> latency_engine option" where
  "record_latency meth latency_us e = do {
     let m = dm_or_insert (le_metrics e) meth metrics_default;
     total \<leftarrow> checked_add (mm_total_requests m) 1;
     sum \<leftarrow> checked_add (mm_total_latency_us m) latency_us;
     let m = m\<lparr>mm_total_requests := total, mm_total_latency_us := sum\<rparr>;
     let m = (if latency_us < mm_min_latency_us m \<or> mm_min_latency_us m = 0
       then m\<lparr>mm_min_latency_us := latency_us\<rparr> else m);
     let m = (if mm_max_latency_us m < latency_us then m\<lparr>mm_max_latency_us := latency_us\<rparr> else m);
     Some (e\<lparr>le_metrics := dm_insert meth m (le_metrics e)\<rparr>)
   }"

definition evict_cache :: "instant \<Rightarrow> response_cache \<Rightarrow> response_cache" where
  "evict_cache now c = dm_retain (\<lambda>_ v. now - ce_cached_at v < ce_ttl v) c"

definition evict_expired :: "instant \<Rightarrow> latency_engine \<Rightarrow> latency_engine" where
  "evict_expired now e = e\<lparr>le_l1 := evict_cache now (le_l1 e), le_l2 := evict_cache now (le_l2 e),
     le_l3 := evict_cache now (le_l3 e)\<rparr>"

record report_format =
  rf_hit_rate :: "method_metrics \<Rightarrow> json"
  rf_avg_ms :: "method_metrics \<Rightarrow> json"
  rf_us_to_ms :: "u64 \<Rightarrow> json"

definition json_nat :: "nat \<Rightarrow> json" where
  "json_nat n = JNum (PosInt (of_nat n))"

definition report_rank :: "json \<Rightarrow> nat" where
  "report_rank v =
     (case as_u64 (json_index v ''total_requests'') of Some n \<Rightarrow> 2 ^ 64 - unat n | None \<Rightarrow> 2 ^ 64 + 1)"

definition get_performance_report :: "report_format \<Rightarrow> latency_engine \<Rightarrow> json" where
  "get_performance_report f e =
     (let methods = map (\<lambda>(k, m). JObj
            [(''method'', JStr k), (''total_requests'', JNum (PosInt (mm_total_requests m))),
             (''cache_hits'', JNum (PosInt (mm_cache_hits m))),
             (''cache_hit_rate_pct'', rf_hit_rate f m), (''avg_latency_ms'', rf_avg_ms f m),
             (''min_latency_ms'', rf_us_to_ms f (mm_min_latency_us m)),
             (''max_latency_ms'', rf_us_to_ms f (mm_max_latency_us m))]) (dm_entries (le_metrics e));
          l1 = dm_len (le_l1 e); l2 = dm_len (le_l2 e); l3 = dm_len (le_l3 e) in
      JObj [(''cache_sizes'', JObj [(''l1_hot'', json_nat l1), (''l2_warm'', json_nat l2),
              (''l3_cold'', json_nat l3), (''total'', json_nat (l1 + l2 + l3))]),
        (''methods'', JArr (sort_key report_rank methods)),
        (''target_latency_ms'', JObj [(''cached'', JStr ''<1ms''), (''uncached'', JStr ''<50ms''),
              (''helius_baseline'', JStr ''~80ms'')])])"

section \<open>The cache as a map from requests to stored answers\<close>

text \<open>What a run of the cache did: stores, lookups and evictions with their times.\<close>

datatype cache_event =
    StoreAnswer instant string json json
  | LookUp instant string json
  | Evict instant

fun event_time :: "cache_event \<Rightarrow> instant" where
  "event_time (StoreAnswer t m p v) = t"
| "event_time (LookUp t m p) = t"
| "event_time (Evict t) = t"

fun cache_step :: "(json \<Rightarrow> string) \<Rightarrow> cache_event \<Rightarrow> latency_engine \<Rightarrow> latency_engine option" where
  "cache_step to_str (StoreAnswer t m p v) e = Some (set_cache to_str t m p v e)"
| "cache_step to_str (LookUp t m p) e = map_option snd (get_cached to_str t m p e)"
| "cache_step to_str (Evict t) e = Some (evict_expired t e)"

fun cache_run :: "(json \<Rightarrow> string) \<Rightarrow> cache_event list \<Rightarrow> latency_engine \<Rightarrow> latency_engine option" where
  "cache_run to_str [] e = Some e"
| "cache_run to_str (ev # evs) e = cache_step to_str ev e \<bind> cache_run to_str evs"

text \<open>The abstract cache: the last stored answer of a request with its time.\<close>

type_synonym answers = "string \<Rightarrow> string \<Rightarrow> (instant \<times> json) option"

fun remember :: "(json \<Rightarrow> string) \<Rightarrow> cache_event \<Rightarrow> answers \<Rightarrow> answers" where
  "remember to_str (StoreAnswer t m p v) A =
     (\<lambda>m' k. if m' = m \<and> k = to_str p then Some (t, v) else A m' k)"
| "remember to_str _ A = A"

definition fresh_answer :: "(json \<Rightarrow> string) \<Rightarrow> answers \<Rightarrow> instant \<Rightarrow> string \<Rightarrow> json \<Rightarrow> json option" where
  "fresh_answer to_str A now meth params =
     (if get_cache_tier meth = 0 then None
      else case A meth (to_str params) of
        Some (t, v) \<Rightarrow> if now - t < the (get_ttl meth) then Some v else None
      | None \<Rightarrow> None)"

definition cache_of :: "latency_engine \<Rightarrow> string \<Rightarrow> response_cache" where
  "cache_of e meth = the (tier_cache (get_cache_tier meth) e)"

definition tiered :: "string set" where
  "tiered = set L1_HOT \<union> set L2_WARM \<union> set L3_COLD"

lemma tier_iff: "get_cache_tier meth = 0 \<longleftrightarrow> meth \<notin> tiered"
  by (auto simp: get_cache_tier_def tiered_def)

lemma tier_cache_of: "meth \<in> tiered \<Longrightarrow> tier_cache (get_cache_tier meth) e = Some (cache_of e meth)"
  by (auto simp: tier_cache_def get_cache_tier_def cache_of_def tiered_def)

lemma tier_range: "meth \<in> tiered \<Longrightarrow> get_cache_tier meth \<in> {1, 2, 3}"
  by (auto simp: get_cache_tier_def tiered_def)

lemma cache_of_set [simp]:
  assumes "meth \<in> tiered" "m' \<in> tiered"
  shows "cache_of (set_tier_cache (get_cache_tier meth) c e) m' =
    (if get_cache_tier m' = get_cache_tier meth then c else cache_of e m')"
  using tier_range [OF assms(1)] tier_range [OF assms(2)]
  by (auto simp: cache_of_def tier_cache_def set_tier_cache_def)

lemma cache_of_metrics [simp]: "cache_of (e\<lparr>le_metrics := m\<rparr>) = cache_of e"
  by (rule ext) (simp add: cache_of_def tier_cache_def)

lemma cache_of_evict: "m \<in> tiered \<Longrightarrow> cache_of (evict_expired now e) m = evict_cache now (cache_of e m)"
  using tier_range [of m] by (auto simp: cache_of_def tier_cache_def evict_expired_def)

lemma metrics_set [simp]: "le_metrics (set_tier_cache t c e) = le_metrics e"
  by (simp add: set_tier_cache_def)

text \<open>A tiered method's name has no colon, so a key names one request.\<close>

lemma tiered_no_colon: "meth \<in> tiered \<Longrightarrow> CHR '':'' \<notin> set meth"
  by (auto simp: tiered_def L1_HOT_def L2_WARM_def L3_COLD_def)

lemma key_inj:
  assumes "meth \<in> tiered" "m' \<in> tiered"
  shows "build_cache_key to_str meth p = build_cache_key to_str m' p' \<longleftrightarrow> meth = m' \<and> to_str p = to_str p'"
proof
  assume "build_cache_key to_str meth p = build_cache_key to_str m' p'"
  then have eq: "meth @ CHR '':'' # to_str p = m' @ CHR '':'' # to_str p'"
    by (simp add: build_cache_key_def)
  then have "takeWhile (\<lambda>c. c \<noteq> CHR '':'') (meth @ CHR '':'' # to_str p) =
      takeWhile (\<lambda>c. c \<noteq> CHR '':'') (m' @ CHR '':'' # to_str p')" by simp
  moreover have "takeWhile (\<lambda>c. c \<noteq> CHR '':'') (x @ CHR '':'' # y) = x" if "x \<in> tiered" for x y
    using tiered_no_colon [OF that] by (subst takeWhile_append2) auto
  ultimately have "meth = m'" using assms by simp
  with eq show "meth = m' \<and> to_str p = to_str p'" by simp
qed (simp add: build_cache_key_def)

lemma ttl_tiered: "meth \<in> tiered \<Longrightarrow> get_ttl meth = Some (the (get_ttl meth))"
proof -
  have "tiered \<inter> set NO_CACHE = {}"
    by (auto simp: tiered_def L1_HOT_def L2_WARM_def L3_COLD_def NO_CACHE_def)
  moreover assume "meth \<in> tiered"
  ultimately show ?thesis by (auto simp: get_ttl_def)
qed

text \<open>The refinement relation at a time: every entry is the remembered answer, and an answer
  without entry has expired. The number \<open>n\<close> bounds the lookups still to come.\<close>

definition entry_rel :: "instant \<Rightarrow> nat \<Rightarrow> nat \<Rightarrow> (instant \<times> json) option \<Rightarrow> cache_entry option \<Rightarrow> bool" where
  "entry_rel now n ttl a x \<longleftrightarrow>
     (case x of
        Some en \<Rightarrow> a = Some (ce_cached_at en, ce_value en) \<and> ttl = ce_ttl en \<and>
          unat (ce_hits en) + n < 2 ^ 64 \<and> ce_cached_at en \<le> now
      | None \<Rightarrow> (case a of Some (t, v) \<Rightarrow> ttl \<le> now - t | None \<Rightarrow> True))"

definition cache_rel ::
  "(json \<Rightarrow> string) \<Rightarrow> instant \<Rightarrow> nat \<Rightarrow> answers \<Rightarrow> latency_engine \<Rightarrow> bool" where
  "cache_rel to_str now n A e \<longleftrightarrow> n < 2 ^ 64 \<and>
     (\<forall>m\<in>tiered. \<forall>p. entry_rel now n (the (get_ttl m)) (A m (to_str p))
       (dm_get (cache_of e m) (build_cache_key to_str m p))) \<and>
     (\<forall>m mm. dm_get (le_metrics e) m = Some mm \<longrightarrow> unat (mm_cache_hits mm) + n < 2 ^ 64)"

lemma entry_rel_later:
  "entry_rel now n ttl a x \<Longrightarrow> now \<le> t \<Longrightarrow> n' \<le> n \<Longrightarrow> entry_rel t n' ttl a x"
  by (auto simp: entry_rel_def split: option.splits)

lemma cache_rel_later:
  "cache_rel to_str now n A e \<Longrightarrow> now \<le> t \<Longrightarrow> n' \<le> n \<Longrightarrow> cache_rel to_str t n' A e"
  unfolding cache_rel_def using entry_rel_later by (meson add_le_mono le_less_trans order.refl)

lemma cache_relD:
  "cache_rel to_str now n A e \<Longrightarrow> m \<in> tiered \<Longrightarrow>
     entry_rel now n (the (get_ttl m)) (A m (to_str p)) (dm_get (cache_of e m) (build_cache_key to_str m p))"
  by (simp add: cache_rel_def)

text \<open>Replacing the entry of one key.\<close>

lemma cache_rel_replace:
  assumes "cache_rel to_str now n A e" and "meth \<in> tiered" and "n' \<le> n"
    and "\<And>k. dm_get c k = (if k = build_cache_key to_str meth p then x else dm_get (cache_of e meth) k)"
    and "entry_rel now n' (the (get_ttl meth)) (B meth (to_str p)) x"
    and "\<And>m k. \<not> (m = meth \<and> k = to_str p) \<Longrightarrow> B m k = A m k"
    and "\<forall>m mm. dm_get M m = Some mm \<longrightarrow> unat (mm_cache_hits mm) + n' < 2 ^ 64"
  shows "cache_rel to_str now n' B ((set_tier_cache (get_cache_tier meth) c e)\<lparr>le_metrics := M\<rparr>)"
  unfolding cache_rel_def
proof (intro conjI ballI allI)
  show "n' < 2 ^ 64" using assms(1,3) by (simp add: cache_rel_def)
next
  fix m q
  assume m: "m \<in> tiered"
  have old: "entry_rel now n' (the (get_ttl m)) (A m (to_str q))
      (dm_get (cache_of e m) (build_cache_key to_str m q))"
    using entry_rel_later [OF cache_relD [OF assms(1) m] order.refl assms(3)] .
  show "entry_rel now n' (the (get_ttl m)) (B m (to_str q)) (dm_get (cache_of
      ((set_tier_cache (get_cache_tier meth) c e)\<lparr>le_metrics := M\<rparr>) m) (build_cache_key to_str m q))"
  proof (cases "m = meth \<and> to_str q = to_str p")
    case True
    then have "build_cache_key to_str m q = build_cache_key to_str meth p"
      by (simp add: build_cache_key_def)
    with True assms(2,4,5) show ?thesis by simp
  next
    case False
    then have "build_cache_key to_str m q \<noteq> build_cache_key to_str meth p"
      using key_inj [OF m assms(2)] by blast
    moreover have "cache_of e m = cache_of e meth" if "get_cache_tier m = get_cache_tier meth"
      using that by (simp add: cache_of_def)
    ultimately show ?thesis using False old assms(2,4) assms(6) [of m "to_str q"] m
      by (cases "get_cache_tier m = get_cache_tier meth") simp_all
  qed
qed (use assms(7) in auto)

lemma cache_rel_store:
  assumes "cache_rel to_str t n A e"
  shows "cache_rel to_str t n (remember to_str (StoreAnswer t m p v) A) (set_cache to_str t m p v e)"
proof (cases "m \<in> tiered")
  case True
  let ?en = "\<lparr>ce_value = v, ce_cached_at = t, ce_ttl = the (get_ttl m), ce_hits = 0\<rparr>"
  have n: "n < 2 ^ 64" and M: "\<forall>m mm. dm_get (le_metrics e) m = Some mm \<longrightarrow> unat (mm_cache_hits mm) + n < 2 ^ 64"
    using assms by (auto simp: cache_rel_def)
  have "cache_rel to_str t n (remember to_str (StoreAnswer t m p v) A)
      ((set_tier_cache (get_cache_tier m) (dm_insert (build_cache_key to_str m p) ?en (cache_of e m)) e)
        \<lparr>le_metrics := le_metrics e\<rparr>)"
    by (rule cache_rel_replace [OF assms True order.refl, where p = p and x = "Some ?en"])
      (use n M in \<open>auto simp: lookup_update entry_rel_def\<close>)
  moreover have "set_cache to_str t m p v e =
      set_tier_cache (get_cache_tier m) (dm_insert (build_cache_key to_str m p) ?en (cache_of e m)) e"
    using ttl_tiered [OF True] tier_cache_of [OF True]
    by (auto simp: set_cache_def Let_def split: option.splits)
  moreover have "(set_tier_cache i c e)\<lparr>le_metrics := le_metrics e\<rparr> = set_tier_cache i c e" for i c
    by (simp add: set_tier_cache_def)
  ultimately show ?thesis by simp
next
  case False
  then have "set_cache to_str t m p v e = e"
    using tier_iff [of m] by (auto simp: set_cache_def tier_cache_def split: option.splits)
  with False assms show ?thesis by (auto simp: cache_rel_def)
qed

lemma cache_rel_lookup:
  assumes "cache_rel to_str t (Suc n) A e"
  shows "\<exists>e'. get_cached to_str t m p e = Some (fresh_answer to_str A t m p, e') \<and> cache_rel to_str t n A e'"
proof (cases "m \<in> tiered")
  case False
  then have "get_cached to_str t m p e = Some (fresh_answer to_str A t m p, e)"
    using tier_iff [of m] by (simp add: get_cached_def tier_cache_def fresh_answer_def)
  with cache_rel_later [OF assms] show ?thesis by simp
next
  case True
  let ?key = "build_cache_key to_str m p"
  have tier: "get_cache_tier m \<noteq> 0" using True tier_iff by blast
  note rel = cache_relD [OF assms True, of p]
  have M: "\<forall>m mm. dm_get (le_metrics e) m = Some mm \<longrightarrow> unat (mm_cache_hits mm) + Suc n < 2 ^ 64"
      "Suc n < 2 ^ 64" using assms by (auto simp: cache_rel_def)
  have M': "unat (mm_cache_hits mm) + n < 2 ^ 64" if "dm_get (le_metrics e) k = Some mm" for k mm
    using M(1) that by (metis add_Suc_right Suc_lessD)
  show ?thesis
  proof (cases "dm_get (cache_of e m) ?key")
    case None
    then have "get_cached to_str t m p e = Some (fresh_answer to_str A t m p, e)"
      using rel tier tier_cache_of [OF True]
      by (auto simp: get_cached_def fresh_answer_def entry_rel_def split: option.splits)
    with cache_rel_later [OF assms] show ?thesis by simp
  next
    case (Some en)
    have A: "A m (to_str p) = Some (ce_cached_at en, ce_value en)" and ttl: "the (get_ttl m) = ce_ttl en"
      and hits: "unat (ce_hits en) + Suc n < 2 ^ 64" "ce_cached_at en \<le> t"
      using rel Some by (auto simp: entry_rel_def)
    show ?thesis
    proof (cases "t - ce_cached_at en < ce_ttl en")
      case fresh: True
      let ?m = "dm_or_insert (le_metrics e) m metrics_default"
      have "unat (mm_cache_hits ?m) + Suc n < 2 ^ 64"
        using M by (auto simp: dm_or_insert_def metrics_default_def split: option.splits)
      then have add: "checked_add (ce_hits en) 1 = Some (ce_hits en + 1)"
          "checked_add (mm_cache_hits ?m) 1 = Some (mm_cache_hits ?m + 1)"
          "unat (ce_hits en + 1) = unat (ce_hits en) + 1"
          "unat (mm_cache_hits ?m + 1) + n < 2 ^ 64"
        using hits by (simp_all add: checked_add_SomeI unat_add_exact)
      let ?e' = "(set_tier_cache (get_cache_tier m) (dm_insert ?key (en\<lparr>ce_hits := ce_hits en + 1\<rparr>)
          (cache_of e m)) e)\<lparr>le_metrics := dm_insert m (?m\<lparr>mm_cache_hits := mm_cache_hits ?m + 1\<rparr>) (le_metrics e)\<rparr>"
      have "get_cached to_str t m p e = Some (fresh_answer to_str A t m p, ?e')"
        using tier tier_cache_of [OF True] Some fresh A ttl add(1,2)
        by (simp add: get_cached_def fresh_answer_def Let_def)
      moreover have "cache_rel to_str t n A ?e'"
        by (rule cache_rel_replace [OF assms True, where p = p and x = "Some (en\<lparr>ce_hits := ce_hits en + 1\<rparr>)"])
          (use A ttl hits add(3,4) M' in \<open>auto simp: lookup_update entry_rel_def split: if_splits\<close>)
      ultimately show ?thesis by blast
    next
      case old: False
      let ?e' = "(set_tier_cache (get_cache_tier m) (dm_remove ?key (cache_of e m)) e)\<lparr>le_metrics := le_metrics e\<rparr>"
      have same: "?e' = set_tier_cache (get_cache_tier m) (dm_remove ?key (cache_of e m)) e"
        by (simp add: set_tier_cache_def)
      have "get_cached to_str t m p e = Some (fresh_answer to_str A t m p, ?e')"
        unfolding same using tier tier_cache_of [OF True] Some old A ttl
        by (simp add: get_cached_def fresh_answer_def Let_def)
      moreover have "cache_rel to_str t n A ?e'"
        by (rule cache_rel_replace [OF assms True, where p = p and x = None])
          (use A ttl old M' in \<open>auto simp: lookup_delete entry_rel_def\<close>)
      ultimately show ?thesis by blast
    qed
  qed
qed

lemma cache_rel_evict:
  assumes "cache_rel to_str t n A e"
  shows "cache_rel to_str t n A (evict_expired t e)"
proof -
  have "entry_rel t n ttl a (case x of None \<Rightarrow> None | Some v \<Rightarrow> if t - ce_cached_at v < ce_ttl v then Some v else None)"
    if "entry_rel t n ttl a x" for ttl a x
    using that by (auto simp: entry_rel_def split: option.splits)
  with assms show ?thesis
    by (simp add: cache_rel_def cache_of_evict evict_cache_def) (simp add: evict_expired_def)
qed

lemma cache_rel_new: "n < 2 ^ 64 \<Longrightarrow> cache_rel to_str 0 n (\<lambda>_ _. None) le_new"
  by (auto simp: cache_rel_def entry_rel_def le_new_def cache_of_def tier_cache_def dest!: tier_range)

lemma cache_step_rel:
  assumes "cache_rel to_str now (Suc n) A e" "now \<le> event_time ev"
  shows "\<exists>e'. cache_step to_str ev e = Some e' \<and>
    cache_rel to_str (event_time ev) n (remember to_str ev A) e'"
proof (cases ev)
  case (StoreAnswer t m p v)
  with cache_rel_store [OF cache_rel_later [OF assms(1), of t n]] assms(2) show ?thesis by simp
next
  case (LookUp t m p)
  with cache_rel_lookup [OF cache_rel_later [OF assms(1) _ order.refl, of t], of m p] assms(2)
  show ?thesis by auto
next
  case (Evict t)
  with cache_rel_evict [OF cache_rel_later [OF assms(1), of t n]] assms(2) show ?thesis by simp
qed

lemma cache_run_rel:
  assumes "cache_rel to_str now (length es + n) A e" and "sorted (map event_time es)"
    and "\<forall>ev\<in>set es. now \<le> event_time ev" "\<forall>ev\<in>set es. event_time ev \<le> until" "now \<le> until"
  shows "\<exists>e'. cache_run to_str es e = Some e' \<and> cache_rel to_str until n (fold (remember to_str) es A) e'"
  using assms
proof (induction es arbitrary: now A e)
  case Nil
  then show ?case using cache_rel_later by fastforce
next
  case (Cons ev es)
  then obtain e1 where e1: "cache_step to_str ev e = Some e1"
      "cache_rel to_str (event_time ev) (length es + n) (remember to_str ev A) e1"
    using cache_step_rel [of to_str now "length es + n" A e ev] by auto
  with Cons.IH [OF e1(2)] Cons.prems show ?case by simp
qed

section \<open>Properties\<close>

text \<open>C16: the cache serves exactly the fresh history. After any stores, lookups and evictions
  in time order, nothing has panicked, and a lookup returns the last answer stored for the same
  method and the same printed parameters if the method belongs to a tier and the answer is
  younger than the tier's time to live, and nothing otherwise; in particular a transaction
  method is never served from the cache.\<close>

theorem cache_serves_history:
  assumes "length es < 2 ^ 64 - 1" and "sorted (map event_time es)"
    and "\<forall>ev\<in>set es. event_time ev \<le> now"
  shows "\<exists>e e'. cache_run to_str es le_new = Some e \<and>
    get_cached to_str now meth params e =
      Some (fresh_answer to_str (fold (remember to_str) es (\<lambda>_ _. None)) now meth params, e') \<and>
    (meth \<in> set NO_CACHE \<longrightarrow>
      fresh_answer to_str (fold (remember to_str) es (\<lambda>_ _. None)) now meth params = None)"
proof -
  have "length es + 1 < 2 ^ 64" using assms(1) by simp
  then have start: "cache_rel to_str 0 (length es + 1) (\<lambda>_ _. None) le_new" by (rule cache_rel_new)
  from cache_run_rel [OF start assms(2) _ assms(3)] obtain e where e: "cache_run to_str es le_new = Some e"
      "cache_rel to_str now (Suc 0) (fold (remember to_str) es (\<lambda>_ _. None)) e" by auto
  have "get_ttl meth = None" if "meth \<in> set NO_CACHE" using that by (simp add: get_ttl_def)
  then have "meth \<notin> tiered" if "meth \<in> set NO_CACHE" using ttl_tiered that by fastforce
  then have "meth \<in> set NO_CACHE \<longrightarrow>
      fresh_answer to_str (fold (remember to_str) es (\<lambda>_ _. None)) now meth params = None"
    by (simp add: fresh_answer_def tier_iff)
  with cache_rel_lookup [OF e(2), of meth params] e(1) show ?thesis by blast
qed

definition example_cache_run :: "cache_event list" where
  "example_cache_run = [StoreAnswer 0 ''getSlot'' JNull (JBool True), LookUp 1 ''getSlot'' JNull,
     StoreAnswer 5 ''getBalance'' JNull (JBool False), Evict (secs 1)]"

theorem cache_serves_history_witness:
  "\<exists>e e1 e2. cache_run (\<lambda>_. ''null'') example_cache_run le_new = Some e \<and>
     get_cached (\<lambda>_. ''null'') (secs 1) ''getBalance'' JNull e = Some (Some (JBool False), e1) \<and>
     get_cached (\<lambda>_. ''null'') (secs 1) ''getSlot'' JNull e = Some (None, e2)"
proof -
  have ok: "length example_cache_run < 2 ^ 64 - 1" "sorted (map event_time example_cache_run)"
      "\<forall>ev\<in>set example_cache_run. event_time ev \<le> secs 1"
    by (simp_all add: example_cache_run_def secs_def)
  have "fresh_answer (\<lambda>_. ''null'') (fold (remember (\<lambda>_. ''null'')) example_cache_run (\<lambda>_ _. None))
      (secs 1) ''getBalance'' JNull = Some (JBool False)"
    and "fresh_answer (\<lambda>_. ''null'') (fold (remember (\<lambda>_. ''null'')) example_cache_run (\<lambda>_ _. None))
      (secs 1) ''getSlot'' JNull = None"
    by (simp_all add: fresh_answer_def example_cache_run_def get_cache_tier_def get_ttl_def
        L1_HOT_def L2_WARM_def L3_COLD_def NO_CACHE_def secs_def millis_def)
  with cache_serves_history [OF ok, of "\<lambda>_. ''null''" "''getBalance''" JNull]
    cache_serves_history [OF ok, of "\<lambda>_. ''null''" "''getSlot''" JNull]
  show ?thesis by fastforce
qed

end
