(* ===== verification/Load_Balancer.thy ===== *)
theory Load_Balancer
  imports Json
begin

text \<open>
  \<open>sns-daemon/src/load_balancer.rs\<close>: the selection of an upstream node by strategy and the
  bookkeeping of results. Counters are atomics: their \<open>fetch_add\<close> wraps, while the arithmetic
  on loaded values is overflow-checked. The random number of the weighted strategy is a
  parameter.
\<close>

record lb_node =
  lb_endpoint :: string
  lb_weight :: u32
  lb_current_connections :: usize
  lb_total_requests :: usize
  lb_error_count :: usize
  lb_avg_latency_ms :: usize
  lb_alive :: bool

datatype lb_strategy = RoundRobin | LeastConnections | WeightedRoundRobin | LatencyBased | Adaptive

record load_balancer =
  lb_nodes :: "lb_node list"
  lb_strategy :: lb_strategy
  lb_round_robin_counter :: usize

definition lb_new :: "lb_strategy \<Rightarrow> load_balancer" where
  "lb_new st = \<lparr>lb_nodes = [], lb_strategy = st, lb_round_robin_counter = 0\<rparr>"

definition lb_add_node :: "string \<Rightarrow> u32 \<Rightarrow> load_balancer \<Rightarrow> load_balancer" where
  "lb_add_node endpoint weight b = b\<lparr>lb_nodes := lb_nodes b @
     [\<lparr>lb_endpoint = endpoint, lb_weight = weight, lb_current_connections = 0,
       lb_total_requests = 0, lb_error_count = 0, lb_avg_latency_ms = 0, lb_alive = True\<rparr>]\<rparr>"

section \<open>Selection\<close>

text \<open>The loop of the weighted strategy: \<open>pick\<close> and the weights are \<open>i32\<close>, read as integers
  with the casts \<open>as i32\<close> of the source; the subtraction is overflow-checked.\<close>

fun weighted_loop :: "int \<Rightarrow> lb_node list \<Rightarrow> lb_node option option" where
  "weighted_loop pick [] = Some None"
| "weighted_loop pick (n # ns) =
     (let pick' = pick - sint (ucast (lb_weight n) :: i32) in
      if pick' < - (2 ^ 31) \<or> 2 ^ 31 \<le> pick' then None
      else if pick' \<le> 0 then Some (Some n)
      else weighted_loop pick' ns)"

definition select_weighted :: "u32 \<Rightarrow> lb_node list \<Rightarrow> string option" where
  "select_weighted random alive = do {
     total_weight \<leftarrow> checked_sum (map lb_weight alive) 0;
     if total_weight = 0 then Some (lb_endpoint (alive ! 0))
     else do {
       found \<leftarrow> weighted_loop (sint (ucast (random mod total_weight) :: i32)) alive;
       Some (lb_endpoint (case found of Some n \<Rightarrow> n | None \<Rightarrow> alive ! 0))
     }
   }"

definition select_node :: "u32 \<Rightarrow> load_balancer \<Rightarrow> (string option \<times> load_balancer) option" where
  "select_node random b =
     (let alive = filter lb_alive (lb_nodes b) in
      if alive = [] then Some (None, b)
      else (case lb_strategy b of
          RoundRobin \<Rightarrow>
            (let counter = lb_round_robin_counter b;
                 idx = unat counter mod length alive in
             Some (Some (lb_endpoint (alive ! idx)), b\<lparr>lb_round_robin_counter := counter + 1\<rparr>))
        | LeastConnections \<Rightarrow>
            Some (map_option lb_endpoint (min_by_key lb_current_connections alive), b)
        | LatencyBased \<Rightarrow>
            Some (map_option lb_endpoint (min_by_key lb_avg_latency_ms alive), b)
        | WeightedRoundRobin \<Rightarrow> map_option (\<lambda>e. (Some e, b)) (select_weighted random alive)
        | Adaptive \<Rightarrow> do {
            connections \<leftarrow> checked_sum (map lb_current_connections alive) 0;
            let avg_connections = unat connections div max (length alive) 1;
            if 100 < avg_connections
            then Some (map_option lb_endpoint (min_by_key lb_current_connections alive), b)
            else Some (map_option lb_endpoint (min_by_key lb_avg_latency_ms alive), b)
          }))"

section \<open>Bookkeeping\<close>

text \<open>The update of the first node with the endpoint; \<open>None\<close> inside is a panic.\<close>

fun update_first ::
  "(lb_node \<Rightarrow> bool) \<Rightarrow> (lb_node \<Rightarrow> lb_node option) \<Rightarrow> lb_node list \<Rightarrow> lb_node list option" where
  "update_first P f [] = Some []"
| "update_first P f (n # ns) =
     (if P n then map_option (\<lambda>n'. n' # ns) (f n)
      else map_option (\<lambda>ns'. n # ns') (update_first P f ns))"

definition lb_record_success :: "string \<Rightarrow> u64 \<Rightarrow> load_balancer \<Rightarrow> load_balancer option" where
  "lb_record_success endpoint latency_ms b = do {
     ns \<leftarrow> update_first (\<lambda>n. lb_endpoint n = endpoint) (\<lambda>n. do {
       nine \<leftarrow> checked_mul (lb_avg_latency_ms n) 9;
       sum \<leftarrow> checked_add nine latency_ms;
       Some (n\<lparr>lb_total_requests := lb_total_requests n + 1, lb_avg_latency_ms := sum div 10\<rparr>)
     }) (lb_nodes b);
     Some (b\<lparr>lb_nodes := ns\<rparr>)
   }"

definition lb_record_error :: "string \<Rightarrow> load_balancer \<Rightarrow> load_balancer option" where
  "lb_record_error endpoint b = do {
     ns \<leftarrow> update_first (\<lambda>n. lb_endpoint n = endpoint)
       (\<lambda>n. Some (n\<lparr>lb_error_count := lb_error_count n + 1\<rparr>)) (lb_nodes b);
     Some (b\<lparr>lb_nodes := ns\<rparr>)
   }"

definition lb_get_metrics :: "load_balancer \<Rightarrow> json list" where
  "lb_get_metrics b = map (\<lambda>n. JObj [(''endpoint'', JStr (lb_endpoint n)),
     (''alive'', JBool (lb_alive n)), (''connections'', JNum (PosInt (lb_current_connections n))),
     (''total_requests'', JNum (PosInt (lb_total_requests n))),
     (''avg_latency_ms'', JNum (PosInt (lb_avg_latency_ms n))),
     (''error_count'', JNum (PosInt (lb_error_count n)))]) (lb_nodes b)"

section \<open>The nodes that exist and the nodes that are selected\<close>

datatype lb_event =
    AddNode string u32
  | Select u32
  | Success string u64
  | Failure string

fun lb_step :: "lb_event \<Rightarrow> load_balancer \<Rightarrow> load_balancer option" where
  "lb_step (AddNode e w) b = Some (lb_add_node e w b)"
| "lb_step (Select r) b = map_option snd (select_node r b)"
| "lb_step (Success e l) b = lb_record_success e l b"
| "lb_step (Failure e) b = lb_record_error e b"

definition lb_next :: "lb_event \<Rightarrow> load_balancer \<Rightarrow> load_balancer" where
  "lb_next ev b = (case lb_step ev b of None \<Rightarrow> b | Some b' \<Rightarrow> b')"

definition all_alive :: "load_balancer \<Rightarrow> bool" where
  "all_alive b \<longleftrightarrow> (\<forall>n\<in>set (lb_nodes b). lb_alive n)"

lemma update_first_alive:
  assumes "update_first P f ns = Some ns'" "\<And>n n'. f n = Some n' \<Longrightarrow> lb_alive n' = lb_alive n"
  shows "map lb_alive ns' = map lb_alive ns"
  using assms(1)
proof (induction ns arbitrary: ns')
  case (Cons n ns)
  then show ?case using assms(2) by (auto split: if_splits)
qed simp

lemma select_node_nodes:
  "select_node r b = Some (e, b') \<Longrightarrow> lb_nodes b' = lb_nodes b"
  by (auto simp: select_node_def Let_def bind_eq_Some_conv split: if_splits lb_strategy.splits)

lemma all_alive_next: "all_alive b \<Longrightarrow> all_alive (lb_next ev b)"
proof -
  assume alive: "all_alive b"
  have map_alive: "all_alive b'" if "map lb_alive (lb_nodes b') = map lb_alive (lb_nodes b)" for b'
  proof -
    have "set (map lb_alive (lb_nodes b')) \<subseteq> {True}" using alive that by (auto simp: all_alive_def)
    then show ?thesis by (auto simp: all_alive_def)
  qed
  show ?thesis
  proof (cases "lb_step ev b")
    case None
    with alive show ?thesis by (simp add: lb_next_def)
  next
    case (Some b')
    then have "lb_next ev b = b'" by (simp add: lb_next_def)
    moreover have "all_alive b'"
    proof (cases ev)
      case (AddNode e w)
      with Some alive show ?thesis by (auto simp: all_alive_def lb_add_node_def)
    next
      case (Select r)
      with Some select_node_nodes show ?thesis by (auto intro!: map_alive)
    next
      case (Success e l)
      with Some show ?thesis
        by (auto simp: lb_record_success_def bind_eq_Some_conv intro!: map_alive dest!: update_first_alive)
    next
      case (Failure e)
      with Some show ?thesis
        by (auto simp: lb_record_error_def bind_eq_Some_conv intro!: map_alive dest!: update_first_alive)
    qed
    ultimately show ?thesis by simp
  qed
qed

interpretation lb_alive_inv: step_invariant lb_next all_alive
  by unfold_locales (rule all_alive_next)

lemma weighted_loop_mem: "weighted_loop p ns = Some (Some n) \<Longrightarrow> n \<in> set ns"
  by (induction p ns rule: weighted_loop.induct) (auto simp: Let_def split: if_splits)

lemma select_weighted_mem:
  assumes "select_weighted r alive = Some e" "alive \<noteq> []"
  shows "e \<in> lb_endpoint ` set alive"
proof -
  have first: "alive ! 0 \<in> set alive" using assms(2) by simp
  show ?thesis using assms(1) first
    by (auto simp: select_weighted_def bind_eq_Some_conv dest!: weighted_loop_mem
        split: if_splits option.splits)
qed

lemma select_node_mem:
  assumes "select_node r b = Some (Some e, b')"
  shows "\<exists>n\<in>set (lb_nodes b). lb_alive n \<and> lb_endpoint n = e"
proof -
  let ?alive = "filter lb_alive (lb_nodes b)"
  have ne: "?alive \<noteq> []" using assms by (auto simp: select_node_def)
  have "e \<in> lb_endpoint ` set ?alive"
  proof (cases "lb_strategy b")
    case RoundRobin
    then have "e = lb_endpoint (?alive ! (unat (lb_round_robin_counter b) mod length ?alive))"
      using assms ne by (auto simp: select_node_def Let_def)
    moreover have "?alive ! (unat (lb_round_robin_counter b) mod length ?alive) \<in> set ?alive"
      using ne by (intro nth_mem mod_less_divisor) simp
    ultimately show ?thesis by blast
  next
    case WeightedRoundRobin
    with assms ne show ?thesis using select_weighted_mem [of r ?alive e]
      by (auto simp: select_node_def Let_def)
  qed (use assms ne in \<open>auto simp: select_node_def Let_def bind_eq_Some_conv simp del: set_filter
        dest!: min_by_key_mem split: if_splits\<close>)
  then show ?thesis by auto
qed

section \<open>Errors do not influence the selection\<close>

definition forget_errors :: "lb_node \<Rightarrow> lb_node" where
  "forget_errors n = n\<lparr>lb_error_count := 0\<rparr>"

lemma forget_errors_fields [simp]:
  "lb_endpoint (forget_errors n) = lb_endpoint n" "lb_weight (forget_errors n) = lb_weight n"
  "lb_current_connections (forget_errors n) = lb_current_connections n"
  "lb_avg_latency_ms (forget_errors n) = lb_avg_latency_ms n"
  "lb_alive (forget_errors n) = lb_alive n"
  by (simp_all add: forget_errors_def)

lemma min_by_key_map: "min_by_key f (map g xs) = map_option g (min_by_key (f \<circ> g) xs)"
  by (induction xs) (auto split: option.splits)

lemma weighted_loop_forget:
  "weighted_loop p (map forget_errors ns) = map_option (map_option forget_errors) (weighted_loop p ns)"
  by (induction p ns rule: weighted_loop.induct) (auto simp: Let_def)

lemma select_weighted_forget:
  "alive \<noteq> [] \<Longrightarrow> select_weighted r (map forget_errors alive) = select_weighted r alive"
proof -
  assume ne: "alive \<noteq> []"
  have "(case map_option forget_errors x of Some n \<Rightarrow> n | None \<Rightarrow> map forget_errors alive ! 0) =
      forget_errors (case x of Some n \<Rightarrow> n | None \<Rightarrow> alive ! 0)" for x
    using ne by (cases x) simp_all
  with ne show ?thesis
    by (simp add: select_weighted_def weighted_loop_forget comp_def bind_map_option cong: if_cong)
qed

definition forget_balancer :: "load_balancer \<Rightarrow> load_balancer" where
  "forget_balancer b = b\<lparr>lb_nodes := map forget_errors (lb_nodes b)\<rparr>"

lemma select_node_forget:
  "map_option fst (select_node r (forget_balancer b)) = map_option fst (select_node r b)"
proof -
  have filter: "filter lb_alive (map forget_errors ns) = map forget_errors (filter lb_alive ns)" for ns
    by (simp add: filter_map comp_def)
  have "map_option lb_endpoint (min_by_key f (map forget_errors ns)) = map_option lb_endpoint (min_by_key f ns)"
    if "f \<circ> forget_errors = f" for f :: "lb_node \<Rightarrow> usize" and ns
    using that by (simp add: min_by_key_map option.map_comp comp_def)
  then have least: "map_option lb_endpoint (min_by_key lb_current_connections (map forget_errors ns)) =
      map_option lb_endpoint (min_by_key lb_current_connections ns)"
    "map_option lb_endpoint (min_by_key lb_avg_latency_ms (map forget_errors ns)) =
      map_option lb_endpoint (min_by_key lb_avg_latency_ms ns)" for ns
    by (simp_all add: comp_def)
  have sums: "map lb_current_connections (map forget_errors ns) = map lb_current_connections ns" for ns
    by simp
  show ?thesis
  proof (cases "filter lb_alive (lb_nodes b) = []")
    case True
    then show ?thesis by (simp add: select_node_def forget_balancer_def filter)
  next
    case False
    then have "unat (lb_round_robin_counter b) mod length (filter lb_alive (lb_nodes b)) <
        length (filter lb_alive (lb_nodes b))" by simp
    with False show ?thesis
      by (cases "lb_strategy b")
        (simp_all add: select_node_def forget_balancer_def filter least sums select_weighted_forget
          Let_def option.map_comp comp_def map_option_bind if_distrib [where f = "map_option fst"] cong: if_cong del: map_map)
  qed
qed

lemma record_error_forget:
  "lb_record_error e b = Some b' \<Longrightarrow> forget_balancer b' = forget_balancer b"
proof -
  have "map forget_errors ns' = map forget_errors ns"
    if "update_first P (\<lambda>n. Some (n\<lparr>lb_error_count := lb_error_count n + 1\<rparr>)) ns = Some ns'" for P ns ns'
    using that by (induction ns arbitrary: ns') (auto simp: forget_errors_def split: if_splits)
  then show "lb_record_error e b = Some b' \<Longrightarrow> forget_balancer b' = forget_balancer b"
    by (auto simp: lb_record_error_def bind_eq_Some_conv forget_balancer_def)
qed

lemma failures_forget:
  "forget_balancer (fold lb_next (replicate n (Failure e)) b) = forget_balancer b"
proof (induction n arbitrary: b)
  case (Suc n)
  have "forget_balancer (lb_next (Failure e) b) = forget_balancer b"
    by (auto simp: lb_next_def split: option.splits dest: record_error_forget)
  with Suc show ?case by simp
qed simp

section \<open>Properties\<close>

text \<open>Upstream errors never affect the choice. However many errors are recorded for an
  endpoint, no node is ever disabled, although the log claims so after ten, and for every
  strategy the next selection is the one that would have been made without them.\<close>

theorem errors_never_disable:
  "(\<forall>n\<in>set (lb_nodes (fold lb_next evs (lb_new st))). lb_alive n) \<and>
   map_option fst (select_node r (fold lb_next (replicate k (Failure e)) b)) =
     map_option fst (select_node r b)"
proof -
  have "all_alive (lb_new st)" by (simp add: all_alive_def lb_new_def)
  then have "all_alive (fold lb_next evs (lb_new st))" by (rule lb_alive_inv.run_keeps)
  moreover have "map_option fst (select_node r (fold lb_next (replicate k (Failure e)) b)) =
      map_option fst (select_node r b)"
    using select_node_forget [of r b] select_node_forget [of r "fold lb_next (replicate k (Failure e)) b"]
      failures_forget [of k e b] by simp
  ultimately show ?thesis by (auto simp: all_alive_def)
qed

theorem errors_never_disable_witness:
  "\<exists>b. lb_record_error ''http://a'' (lb_add_node ''http://a'' 100 (lb_new Adaptive)) = Some b \<and>
     (\<forall>n\<in>set (lb_nodes b). lb_alive n)"
proof -
  obtain b where b: "lb_record_error ''http://a'' (lb_add_node ''http://a'' 100 (lb_new Adaptive)) = Some b"
    by (simp add: lb_record_error_def lb_add_node_def lb_new_def)
  then have "fold lb_next [AddNode ''http://a'' 100, Failure ''http://a''] (lb_new Adaptive) = b"
    by (simp add: lb_next_def)
  with b errors_never_disable [of "[AddNode ''http://a'' 100, Failure ''http://a'']" Adaptive]
  show ?thesis by auto
qed

text \<open>The weighted strategy is skewed by one towards the first node. Of two live nodes the
  second is selected only when the pick exceeds the weight of the first, that is for one value
  less than its weight: a second node of weight one is never selected, whatever the random
  number.\<close>

theorem weighted_skew:
  assumes "lb_strategy b = WeightedRoundRobin" and "lb_nodes b = [n1, n2]"
    and "lb_alive n1" "lb_alive n2"
    and "0 < lb_weight n1" "0 < lb_weight n2" "unat (lb_weight n1) + unat (lb_weight n2) < 2 ^ 31"
  shows "select_node random b = Some (Some (lb_endpoint
      (if unat random mod (unat (lb_weight n1) + unat (lb_weight n2)) \<le> unat (lb_weight n1)
       then n1 else n2)), b) \<and>
    (lb_weight n2 = 1 \<longrightarrow> select_node random b = Some (Some (lb_endpoint n1), b))"
proof -
  define w1 w2 where w: "w1 = unat (lb_weight n1)" "w2 = unat (lb_weight n2)"
  let ?t = "lb_weight n1 + lb_weight n2"
  have bound: "w1 + w2 < 2 ^ 31" "0 < w1" "0 < w2"
    using assms(5-7) by (simp_all add: w word_less_nat_alt)
  have t: "unat ?t = w1 + w2" using bound by (simp add: w unat_add_exact)
  have total: "checked_sum [lb_weight n1, lb_weight n2] 0 = Some ?t"
    using bound by (simp add: w checked_add_def)
  have nz: "?t \<noteq> 0"
  proof
    assume "?t = 0"
    then have "unat ?t = 0" by (simp only: unat_0)
    with t bound(2) show False by linarith
  qed
  have small: "sint (ucast x :: i32) = int (unat x)" if "unat x < 2 ^ 31" for x :: u32
  proof -
    have "int (unat x) < int (2 ^ 31)" using that by (simp only: of_nat_less_iff)
    then have x: "uint x < 2 ^ 31" by (simp only: uint_nat of_nat_power of_nat_numeral)
    have "signed_take_bit 31 (uint x) = uint x"
      by (rule signed_take_bit_int_eq_self) (use x uint_ge_0 [of x] in linarith)+
    moreover have "sint (ucast x :: i32) = signed_take_bit 31 (uint x)"
      by (simp only: ucast_id sint_uint) simp
    ultimately show ?thesis by (simp only: uint_nat)
  qed
  define p where "p = unat random mod (w1 + w2)"
  have p: "p < w1 + w2" using bound by (simp add: p_def)
  have "unat (random mod ?t) = p" by (simp add: unat_mod_distrib t p_def)
  then have pick: "sint (ucast (random mod ?t) :: i32) = int p"
    using small [of "random mod ?t"] p bound by simp
  have weights: "sint (ucast (lb_weight n1) :: i32) = int w1" "sint (ucast (lb_weight n2) :: i32) = int w2"
    using bound small [of "lb_weight n1"] small [of "lb_weight n2"] by (simp_all add: w)
  have "weighted_loop (int p) [n1, n2] = Some (Some (if p \<le> w1 then n1 else n2))"
    unfolding weighted_loop.simps Let_def weights using p bound by auto
  then have "select_weighted random [n1, n2] = Some (lb_endpoint (if p \<le> w1 then n1 else n2))"
    unfolding select_weighted_def list.map total by (simp add: nz pick del: ucast_id)
  then have "select_node random b = Some (Some (lb_endpoint (if p \<le> w1 then n1 else n2)), b)"
    using assms(1-4) by (simp add: select_node_def Let_def)
  moreover have "p \<le> w1" if "lb_weight n2 = 1" using that p by (simp add: w)
  ultimately show ?thesis by (simp add: p_def w)
qed

theorem weighted_skew_witness:
  "select_node 1 (lb_add_node ''b'' 1 (lb_add_node ''a'' 1 (lb_new WeightedRoundRobin))) =
     Some (Some ''a'', lb_add_node ''b'' 1 (lb_add_node ''a'' 1 (lb_new WeightedRoundRobin)))"
proof -
  let ?b = "lb_add_node ''b'' 1 (lb_add_node ''a'' 1 (lb_new WeightedRoundRobin))"
  obtain n1 n2 where "lb_nodes ?b = [n1, n2]" "lb_alive n1" "lb_alive n2" "lb_weight n1 = 1"
      "lb_weight n2 = 1" "lb_endpoint n1 = ''a''"
    by (simp add: lb_add_node_def lb_new_def)
  moreover have "lb_strategy ?b = WeightedRoundRobin" by (simp add: lb_add_node_def lb_new_def)
  ultimately show ?thesis using weighted_skew [of ?b n1 n2 1] by simp
qed

text \<open>Whatever the strategy, a selection returns the endpoint of a live node, and it returns
  one whenever there is a live node and nothing overflows.\<close>

theorem selection_live:
  assumes "select_node random b = Some (r, b')"
  shows "(r = None \<longleftrightarrow> (\<forall>n\<in>set (lb_nodes b). \<not> lb_alive n)) \<and>
    (\<forall>e. r = Some e \<longrightarrow> (\<exists>n\<in>set (lb_nodes b). lb_alive n \<and> lb_endpoint n = e)) \<and>
    lb_nodes b' = lb_nodes b"
proof -
  have "r = None \<longleftrightarrow> filter lb_alive (lb_nodes b) = []"
    using assms by (auto simp: select_node_def Let_def bind_eq_Some_conv intro: min_by_key_Some
        split: if_splits lb_strategy.splits)
  with assms select_node_mem select_node_nodes show ?thesis by (auto simp: filter_empty_conv)
qed

theorem selection_live_witness:
  "\<exists>r b'. select_node 7 (lb_add_node ''a'' 1 (lb_new RoundRobin)) = Some (r, b') \<and> r \<noteq> None"
proof -
  let ?b = "lb_add_node ''a'' 1 (lb_new RoundRobin)"
  obtain r b' where s: "select_node 7 ?b = Some (r, b')"
    by (simp add: select_node_def lb_add_node_def lb_new_def Let_def)
  have "\<exists>n\<in>set (lb_nodes ?b). lb_alive n" by (simp add: lb_add_node_def)
  with selection_live [OF s] s show ?thesis by blast
qed

end
