(* ===== verification/Device.thy ===== *)
theory Device
  imports Config Json
begin

text \<open>
  The parts of the library \<open>sns-native\<close> the daemon also uses: the battery guard
  (\<open>battery_guard.rs\<close>) and the platform table (\<open>platform.rs\<close>).
\<close>

section \<open>Battery guard\<close>

record battery_guard =
  bg_battery_mode :: bool
  bg_battery_level :: u8
  bg_is_charging :: bool
  bg_throttled :: bool

definition bg_new :: "bool \<Rightarrow> battery_guard" where
  "bg_new mode = \<lparr>bg_battery_mode = mode, bg_battery_level = 100, bg_is_charging = True,
     bg_throttled = False\<rparr>"

definition bg_should_accept_request :: "u64 \<Rightarrow> battery_guard \<Rightarrow> bool \<times> battery_guard" where
  "bg_should_accept_request now s =
     (if \<not> bg_battery_mode s then (True, s)
      else if bg_is_charging s then (True, s\<lparr>bg_throttled := False\<rparr>)
      else if bg_battery_level s < 20 then (False, s\<lparr>bg_throttled := True\<rparr>)
      else if bg_battery_level s < 40 then (now mod 2 = 0, s\<lparr>bg_throttled := True\<rparr>)
      else (True, s\<lparr>bg_throttled := False\<rparr>))"

definition bg_set_battery_level :: "u8 \<Rightarrow> battery_guard \<Rightarrow> battery_guard" where
  "bg_set_battery_level level s = s\<lparr>bg_battery_level := level\<rparr>"

definition bg_set_charging :: "bool \<Rightarrow> battery_guard \<Rightarrow> battery_guard" where
  "bg_set_charging charging s = s\<lparr>bg_is_charging := charging\<rparr>"

definition bg_is_throttled :: "battery_guard \<Rightarrow> bool" where
  "bg_is_throttled s = bg_throttled s"

text \<open>\<open>BatteryStatus\<close> as it is serialised.\<close>

definition bg_get_status :: "battery_guard \<Rightarrow> json" where
  "bg_get_status s = JObj [(''battery_mode'', JBool (bg_battery_mode s)),
     (''level'', JNum (PosInt (ucast (bg_battery_level s)))),
     (''charging'', JBool (bg_is_charging s)), (''throttled'', JBool (bg_throttled s))]"

text \<open>Without a call of the setters, and the daemon has none, a guard accepts every request.\<close>

definition bg_untouched :: "battery_guard \<Rightarrow> bool" where
  "bg_untouched s \<longleftrightarrow> bg_battery_mode s \<longrightarrow> bg_is_charging s"

lemma bg_untouched_new [simp]: "bg_untouched (bg_new mode)"
  by (simp add: bg_untouched_def bg_new_def)

lemma bg_untouched_accepts:
  "bg_untouched s \<Longrightarrow> fst (bg_should_accept_request now s) \<and>
     bg_untouched (snd (bg_should_accept_request now s))"
  by (simp add: bg_untouched_def bg_should_accept_request_def)

section \<open>Platforms\<close>

datatype platform_target = MacOS | Linux | Windows | IOS | Android | RaspberryPi

record platform_config =
  pc_max_concurrent_requests :: usize
  pc_batch_interval_secs :: nat
  pc_p2p_enabled :: bool
  pc_cache_size_mb :: usize
  pc_http_port :: u16
  pc_p2p_port :: u16
  pc_battery_mode :: bool
  pc_log_level :: string
  pc_platform_name :: string

text \<open>The target is fixed at compile time, from the names the compiler has for the operating system
  and the processor; any 64-bit ARM machine under Linux is a Raspberry Pi.\<close>

definition detect :: "string \<Rightarrow> string \<Rightarrow> platform_target" where
  "detect target_os target_arch =
     (if target_os = ''ios'' then IOS
      else if target_os = ''android'' then Android
      else if target_os = ''linux'' \<and> target_arch = ''aarch64'' then RaspberryPi
      else if target_os = ''macos'' then MacOS
      else if target_os = ''windows'' then Windows
      else Linux)"

text \<open>The desktop port comes from the environment.\<close>

definition get_config :: "platform_target \<Rightarrow> environment \<Rightarrow> platform_config" where
  "get_config target env = (case target of
      IOS \<Rightarrow> \<lparr>pc_max_concurrent_requests = 8, pc_batch_interval_secs = 7200, pc_p2p_enabled = False,
        pc_cache_size_mb = 12, pc_http_port = 9000, pc_p2p_port = 9001, pc_battery_mode = True,
        pc_log_level = ''warn'', pc_platform_name = ''iOS''\<rparr>
    | Android \<Rightarrow> \<lparr>pc_max_concurrent_requests = 12, pc_batch_interval_secs = 7200,
        pc_p2p_enabled = False, pc_cache_size_mb = 16, pc_http_port = 9000, pc_p2p_port = 9001,
        pc_battery_mode = True, pc_log_level = ''warn'', pc_platform_name = ''Android''\<rparr>
    | RaspberryPi \<Rightarrow> \<lparr>pc_max_concurrent_requests = 50, pc_batch_interval_secs = 3600,
        pc_p2p_enabled = True, pc_cache_size_mb = 64, pc_http_port = 9000, pc_p2p_port = 9001,
        pc_battery_mode = False, pc_log_level = ''info'', pc_platform_name = ''Raspberry Pi''\<rparr>
    | _ \<Rightarrow>
        (let port = (case (case env ''PORT'' of Some v \<Rightarrow> Some v | None \<Rightarrow> env ''HTTP_PORT'') of
             None \<Rightarrow> 8080
           | Some v \<Rightarrow> (case parse_unsigned (2 ^ 16) v of Some n \<Rightarrow> of_nat n | None \<Rightarrow> 8080)) in
         \<lparr>pc_max_concurrent_requests = 500, pc_batch_interval_secs = 3600, pc_p2p_enabled = True,
          pc_cache_size_mb = 256, pc_http_port = port, pc_p2p_port = 9001, pc_battery_mode = False,
          pc_log_level = ''info'', pc_platform_name = ''Desktop''\<rparr>))"

lemma battery_mode_iff_mobile:
  "pc_battery_mode (get_config target env) \<longleftrightarrow> \<not> pc_p2p_enabled (get_config target env)"
  by (cases target) (simp_all add: get_config_def Let_def)

lemma decimal_8080: "decimal 8080 = ''8080''"
  by (simp add: decimal.simps hex_digits_def)

lemma parse_8080: "parse_unsigned (2 ^ 16) ''8080'' = Some 8080"
  using parse_decimal [of 8080 "2 ^ 16"] by (simp add: decimal_8080)

lemma default_http_port: "http_port (from_env (\<lambda>_. None)) = 8080"
  by (simp add: from_env_def parse_8080 [simplified])

text \<open>On a desktop the platform's port is the port of the daemon's configuration.\<close>

lemma desktop_port:
  "target \<in> {MacOS, Linux, Windows} \<Longrightarrow> pc_http_port (get_config target env) = http_port (from_env env)"
  by (auto simp: get_config_def from_env_def Let_def parse_8080 [simplified] split: option.splits)

end
