(* ===== verification/Wallet_Rewards.thy ===== *)
theory Wallet_Rewards
  imports Json
begin

text \<open>
  \<open>sns-daemon/src/wallet_rewards.rs\<close>: the operator's pending and lifetime rewards and the
  cached on-chain balance. The RPC call for the balance (\<open>post\<close>, from the URL and the body to
  a transport or parse error or the parsed answer) and the conversion of lamports to a
  floating-point amount of SOL are parameters; the clock readings are arguments.
\<close>

record wallet_tracker =
  wt_node_wallet :: string
  wt_pending_lamports :: u64
  wt_confirmed_balance :: u64
  wt_last_balance_fetch :: u64
  wt_rpc_url :: string
  wt_lifetime_earnings :: u64
  wt_session_requests :: u64

datatype wallet_error = InvalidWallet | RpcError string | InvalidBalance

section \<open>Operations\<close>

definition wt_new :: "string \<Rightarrow> string \<Rightarrow> wallet_error + wallet_tracker" where
  "wt_new pubkey url =
     (if length pubkey < 32 \<or> 44 < length pubkey then Inl InvalidWallet
      else Inr \<lparr>wt_node_wallet = pubkey, wt_pending_lamports = 0, wt_confirmed_balance = 0,
        wt_last_balance_fetch = 0, wt_rpc_url = url, wt_lifetime_earnings = 0,
        wt_session_requests = 0\<rparr>)"

definition wt_record_request :: "wallet_tracker \<Rightarrow> wallet_tracker option" where
  "wt_record_request t = do {
     let t = t\<lparr>wt_session_requests := wt_session_requests t + 1\<rparr>;
     pending \<leftarrow> checked_add (wt_pending_lamports t) 100;
     Some (t\<lparr>wt_pending_lamports := pending\<rparr>)
   }"

type_synonym balance_call = "string \<Rightarrow> json \<Rightarrow> string + json"

definition wt_get_onchain_balance ::
  "u64 \<Rightarrow> balance_call \<Rightarrow> wallet_tracker \<Rightarrow> ((wallet_error + u64) \<times> wallet_tracker) option" where
  "wt_get_onchain_balance now post t = do {
     age \<leftarrow> checked_sub now (wt_last_balance_fetch t);
     if age < 30 then Some (Inr (wt_confirmed_balance t), t)
     else
       (let payload = JObj [(''jsonrpc'', JStr ''2.0''), (''id'', JNum (PosInt 1)),
              (''method'', JStr ''getBalance''), (''params'', JArr [JStr (wt_node_wallet t)])] in
        case post (wt_rpc_url t) payload of
          Inl e \<Rightarrow> Some (Inl (RpcError e), t)
        | Inr resp \<Rightarrow>
            (case as_u64 (json_index (json_index resp ''result'') ''value'') of
               None \<Rightarrow> Some (Inl InvalidBalance, t)
             | Some wallet_balance \<Rightarrow> Some (Inr wallet_balance,
                 t\<lparr>wt_confirmed_balance := wallet_balance, wt_last_balance_fetch := now\<rparr>)))
   }"

record reward_status =
  rs_wallet_address :: string
  rs_pending_lamports :: u64
  rs_pending_sol :: f64
  rs_confirmed_lamports :: u64
  rs_confirmed_sol :: f64
  rs_lifetime_lamports :: u64
  rs_lifetime_sol :: f64
  rs_session_requests :: u64
  rs_lamports_per_request :: u64
  rs_next_settlement_in_secs :: u64

definition secs_until_next_settlement :: "u64 \<Rightarrow> u64" where
  "secs_until_next_settlement now = 3600 - now mod 3600"

text \<open>A failed balance query falls back on the cached balance.\<close>

definition wt_get_reward_status ::
  "(u64 \<Rightarrow> f64) \<Rightarrow> u64 \<Rightarrow> balance_call \<Rightarrow> wallet_tracker \<Rightarrow> (reward_status \<times> wallet_tracker) option" where
  "wt_get_reward_status to_sol now post t = do {
     (balance, t') \<leftarrow> wt_get_onchain_balance now post t;
     let confirmed = (case balance of Inr b \<Rightarrow> b | Inl e \<Rightarrow> wt_confirmed_balance t');
     Some (\<lparr>rs_wallet_address = wt_node_wallet t, rs_pending_lamports = wt_pending_lamports t,
       rs_pending_sol = to_sol (wt_pending_lamports t), rs_confirmed_lamports = confirmed,
       rs_confirmed_sol = to_sol confirmed, rs_lifetime_lamports = wt_lifetime_earnings t,
       rs_lifetime_sol = to_sol (wt_lifetime_earnings t),
       rs_session_requests = wt_session_requests t, rs_lamports_per_request = 100,
       rs_next_settlement_in_secs = secs_until_next_settlement now\<rparr>, t')
   }"

definition wt_record_settlement :: "u64 \<Rightarrow> wallet_tracker \<Rightarrow> wallet_tracker option" where
  "wt_record_settlement amount t = do {
     lifetime \<leftarrow> checked_add (wt_lifetime_earnings t) (wt_pending_lamports t);
     Some (t\<lparr>wt_lifetime_earnings := lifetime, wt_pending_lamports := 0\<rparr>)
   }"

section \<open>Runs of the tracker\<close>

datatype wallet_event =
    Request
  | Balance u64 balance_call
  | Settlement u64

fun wt_step :: "wallet_event \<Rightarrow> wallet_tracker \<Rightarrow> wallet_tracker option" where
  "wt_step Request t = wt_record_request t"
| "wt_step (Balance now post) t = map_option snd (wt_get_onchain_balance now post t)"
| "wt_step (Settlement amount) t = wt_record_settlement amount t"

fun wt_run :: "wallet_event list \<Rightarrow> wallet_tracker \<Rightarrow> wallet_tracker option" where
  "wt_run [] t = Some t"
| "wt_run (e # es) t = wt_step e t \<bind> wt_run es"

fun requests :: "wallet_event list \<Rightarrow> nat" where
  "requests [] = 0"
| "requests (Request # es) = Suc (requests es)"
| "requests (_ # es) = requests es"

text \<open>The clock never reads less than at the last balance query that was not from the cache.\<close>

fun clock_forward :: "u64 \<Rightarrow> wallet_event list \<Rightarrow> bool" where
  "clock_forward t [] \<longleftrightarrow> True"
| "clock_forward t (Balance now post # es) \<longleftrightarrow> t \<le> now \<and> clock_forward now es"
| "clock_forward t (_ # es) \<longleftrightarrow> clock_forward t es"

definition earned :: "wallet_tracker \<Rightarrow> nat" where
  "earned t = unat (wt_pending_lamports t) + unat (wt_lifetime_earnings t)"

lemma balance_frame:
  assumes "wt_get_onchain_balance now post t = Some (r, t')"
  shows "t' = t \<or> (\<exists>b. t' = t\<lparr>wt_confirmed_balance := b, wt_last_balance_fetch := now\<rparr>)"
proof (cases "checked_sub now (wt_last_balance_fetch t)")
  case (Some age)
  with assms show ?thesis
    by (cases "age < 30") (auto simp: wt_get_onchain_balance_def Let_def split: sum.split_asm option.split_asm)
qed (use assms in \<open>simp add: wt_get_onchain_balance_def\<close>)

lemma clock_forward_mono: "clock_forward t es \<Longrightarrow> t' \<le> t \<Longrightarrow> clock_forward t' es"
  by (induction es arbitrary: t t' rule: requests.induct) auto

lemma balance_total:
  assumes "wt_last_balance_fetch t \<le> now"
  shows "\<exists>r t'. wt_get_onchain_balance now post t = Some (r, t') \<and>
    wt_last_balance_fetch t' \<le> now \<and> earned t' = earned t \<and>
    wt_session_requests t' = wt_session_requests t \<and>
    wt_lifetime_earnings t' = wt_lifetime_earnings t"
proof (cases "now - wt_last_balance_fetch t < 30")
  case True
  with assms show ?thesis by (simp add: wt_get_onchain_balance_def checked_sub_def)
next
  case False
  with assms show ?thesis
    by (auto simp: wt_get_onchain_balance_def checked_sub_def Let_def earned_def
        split: sum.split option.split)
qed

lemma balance_step:
  assumes "wt_last_balance_fetch t \<le> now"
  obtains t' where "wt_step (Balance now post) t = Some t'" "wt_last_balance_fetch t' \<le> now"
    "earned t' = earned t" "wt_session_requests t' = wt_session_requests t"
    "wt_lifetime_earnings t' = wt_lifetime_earnings t"
  using balance_total [OF assms, of post] by auto

lemma wt_run_total:
  assumes "earned t + 100 * requests es < 2 ^ 64" and "clock_forward (wt_last_balance_fetch t) es"
  shows "\<exists>t'. wt_run es t = Some t' \<and> earned t' = earned t + 100 * requests es \<and>
    wt_session_requests t' = wt_session_requests t + of_nat (requests es) \<and>
    ((\<forall>a. Settlement a \<notin> set es) \<longrightarrow> wt_lifetime_earnings t' = wt_lifetime_earnings t)"
  using assms
proof (induction es arbitrary: t)
  case Nil
  then show ?case by simp
next
  case (Cons e es)
  show ?case
  proof (cases e)
    case Request
    have "checked_add (wt_pending_lamports t) 100 = Some (wt_pending_lamports t + 100)"
      using Cons.prems(1) Request by (intro checked_add_SomeI) (simp add: earned_def)
    then obtain t1 where t1: "wt_step e t = Some t1" "earned t1 = earned t + 100"
      "wt_session_requests t1 = wt_session_requests t + 1"
      "wt_last_balance_fetch t1 = wt_last_balance_fetch t"
      "wt_lifetime_earnings t1 = wt_lifetime_earnings t"
      using checked_add_unat [of "wt_pending_lamports t" 100]
      by (simp add: Request wt_record_request_def earned_def)
    then show ?thesis using Cons.IH [of t1] Cons.prems Request by (auto simp: algebra_simps)
  next
    case (Balance now post)
    then have "wt_last_balance_fetch t \<le> now" using Cons.prems(2) by simp
    then obtain t1 where "wt_step e t = Some t1" "wt_last_balance_fetch t1 \<le> now"
      "earned t1 = earned t" "wt_session_requests t1 = wt_session_requests t"
      "wt_lifetime_earnings t1 = wt_lifetime_earnings t"
      using balance_step Balance by metis
    then show ?thesis using Cons.IH [of t1] Cons.prems Balance clock_forward_mono by auto
  next
    case (Settlement amount)
    have "checked_add (wt_lifetime_earnings t) (wt_pending_lamports t) =
        Some (wt_lifetime_earnings t + wt_pending_lamports t)"
      using Cons.prems(1) Settlement by (intro checked_add_SomeI) (simp add: earned_def)
    then obtain t1 where "wt_step e t = Some t1" "earned t1 = earned t"
      "wt_session_requests t1 = wt_session_requests t"
      "wt_last_balance_fetch t1 = wt_last_balance_fetch t"
      using checked_add_unat [of "wt_lifetime_earnings t" "wt_pending_lamports t"]
      by (simp add: Settlement wt_record_settlement_def earned_def)
    then show ?thesis using Cons.IH [of t1] Cons.prems Settlement by auto
  qed
qed

lemma earned_new: "wt_new pubkey url = Inr t \<Longrightarrow>
    earned t = 0 \<and> wt_session_requests t = 0 \<and> wt_last_balance_fetch t = 0 \<and> wt_lifetime_earnings t = 0"
  by (auto simp: wt_new_def earned_def split: if_splits)

section \<open>Property\<close>

text \<open>C18: the tracker pays 100 lamports for each recorded request and loses none. As long as the
  clock does not step back and the total fits in 64 bits, no operation panics, and pending and
  lifetime earnings together are 100 times the number of requests, however balance queries and
  settlements interleave with them. Without a settlement, and the daemon performs none, the
  lifetime earnings stay zero.\<close>

theorem rewards_conserved:
  assumes "wt_new pubkey url = Inr t" and "100 * requests es < 2 ^ 64" and "clock_forward 0 es"
  shows "\<exists>t'. wt_run es t = Some t' \<and>
    unat (wt_pending_lamports t') + unat (wt_lifetime_earnings t') = 100 * requests es \<and>
    unat (wt_session_requests t') = requests es \<and>
    ((\<forall>a. Settlement a \<notin> set es) \<longrightarrow>
      wt_lifetime_earnings t' = 0 \<and> unat (wt_pending_lamports t') = 100 * requests es)"
proof -
  note t = earned_new [OF assms(1)]
  obtain t' where t': "wt_run es t = Some t'" "earned t' = 100 * requests es"
    "wt_session_requests t' = of_nat (requests es)"
    "(\<forall>a. Settlement a \<notin> set es) \<longrightarrow> wt_lifetime_earnings t' = 0"
    using wt_run_total [of t es] assms t by auto
  moreover have "unat (wt_session_requests t') = requests es"
    using t'(3) assms(2) unat_of_nat64 [of "requests es"] by simp
  ultimately show ?thesis by (auto simp: earned_def)
qed

definition example_wallet_run :: "wallet_event list" where
  "example_wallet_run = [Request, Balance 100 (\<lambda>_ _. Inl ''timeout''), Request, Settlement 200,
     Request, Balance 140 (\<lambda>_ _. Inr (JObj [(''result'', JObj [(''value'', JNum (PosInt 5))])]))]"

theorem rewards_conserved_witness:
  "\<exists>t t'. wt_new (replicate 32 (CHR ''W'')) ''http://rpc'' = Inr t \<and> wt_run example_wallet_run t = Some t' \<and>
     unat (wt_pending_lamports t') + unat (wt_lifetime_earnings t') = 300 \<and> wt_pending_lamports t' = 100"
proof -
  obtain t where t: "wt_new (replicate 32 (CHR ''W'')) ''http://rpc'' = Inr t"
    by (simp add: wt_new_def)
  obtain t' where t': "wt_run example_wallet_run t = Some t'"
      "unat (wt_pending_lamports t') + unat (wt_lifetime_earnings t') = 300"
    using rewards_conserved [OF t, of example_wallet_run] by (auto simp: example_wallet_run_def)
  moreover have "map_option wt_pending_lamports (wt_run example_wallet_run t) = Some 100"
    using t by (auto simp: example_wallet_run_def wt_new_def wt_record_request_def
        wt_get_onchain_balance_def checked_add_def checked_sub_def wt_record_settlement_def json_index_def)
  ultimately show ?thesis using t by auto
qed

end
