(* ===== verification/Parallel_Executor.thy ===== *)
theory Parallel_Executor
  imports Json
begin

text \<open>
  \<open>sns-daemon/src/parallel_executor.rs\<close>: the global semaphore that bounds the requests in
  flight and the table of account semaphores. A \<open>tokio\<close> semaphore is its number of available
  permits: \<open>acquire_owned\<close> waits while there is none (the step is not enabled, \<open>None\<close>), and
  dropping a permit returns it. The semaphores are never closed, so acquiring never fails.
\<close>

record parallel_executor =
  pe_account_locks :: "(string, nat) dashmap"
  pe_available :: nat

text \<open>\<open>Semaphore::new\<close> panics above \<open>usize::MAX >> 3\<close>.\<close>

definition pe_new :: "usize \<Rightarrow> parallel_executor option" where
  "pe_new max_concurrent =
     (if unat max_concurrent \<le> 2 ^ 61 - 1
      then Some \<lparr>pe_account_locks = dm_new, pe_available = unat max_concurrent\<rparr> else None)"

text \<open>The account semaphore is created and its handle cloned and dropped; no permit of it is
  taken.\<close>

definition pe_acquire ::
  "string \<Rightarrow> string option \<Rightarrow> parallel_executor \<Rightarrow> parallel_executor option" where
  "pe_acquire meth account_key s =
     (if pe_available s = 0 then None
      else
        (let s' = s\<lparr>pe_available := pe_available s - 1\<rparr> in
         Some (case account_key of
             None \<Rightarrow> s'
           | Some key \<Rightarrow> s'\<lparr>pe_account_locks :=
               dm_insert key (dm_or_insert (pe_account_locks s') key 1) (pe_account_locks s')\<rparr>)))"

definition pe_release :: "parallel_executor \<Rightarrow> parallel_executor" where
  "pe_release s = s\<lparr>pe_available := pe_available s + 1\<rparr>"

definition pe_get_metrics :: "parallel_executor \<Rightarrow> nat \<times> nat" where
  "pe_get_metrics s = (pe_available s, dm_len (pe_account_locks s))"

definition pe_cleanup_idle_locks :: "parallel_executor \<Rightarrow> parallel_executor" where
  "pe_cleanup_idle_locks s =
     s\<lparr>pe_account_locks := dm_retain (\<lambda>_ permits. permits = 0) (pe_account_locks s)\<rparr>"

section \<open>The requests in flight\<close>

text \<open>A configuration is the executor and the requests that hold a permit, each with the account
  it names. A request enters when its permit is there and leaves at any time.\<close>

type_synonym in_flight = "(string \<times> string option) list"

inductive pe_step :: "parallel_executor \<times> in_flight \<Rightarrow> parallel_executor \<times> in_flight \<Rightarrow> bool" where
  enter: "pe_acquire meth key s = Some s' \<Longrightarrow> pe_step (s, fs) (s', (meth, key) # fs)"
| leave: "pe_step (s, fs @ f # gs) (pe_release s, fs @ gs)"
| tidy: "pe_step (s, fs) (pe_cleanup_idle_locks s, fs)"

inductive pe_reachable :: "usize \<Rightarrow> parallel_executor \<times> in_flight \<Rightarrow> bool" for limit where
  start: "pe_new limit = Some s \<Longrightarrow> pe_reachable limit (s, [])"
| step: "pe_reachable limit c \<Longrightarrow> pe_step c c' \<Longrightarrow> pe_reachable limit c'"

inductive_cases pe_stepE: "pe_step (s, fs) c"

lemma pe_acquire_eq:
  "pe_acquire meth key s = Some s' \<longleftrightarrow> 0 < pe_available s \<and>
     s' = \<lparr>pe_account_locks = (case key of None \<Rightarrow> pe_account_locks s
         | Some k \<Rightarrow> dm_insert k (dm_or_insert (pe_account_locks s) k 1) (pe_account_locks s)),
       pe_available = pe_available s - 1\<rparr>"
  by (auto simp: pe_acquire_def Let_def split: option.splits)

definition locks_free :: "parallel_executor \<Rightarrow> bool" where
  "locks_free s \<longleftrightarrow> (\<forall>k n. dm_get (pe_account_locks s) k = Some n \<longrightarrow> n = 1)"

lemma locks_free_acquire: "pe_acquire meth key s = Some s' \<Longrightarrow> locks_free s \<Longrightarrow> locks_free s'"
  by (cases key) (auto simp: pe_acquire_eq locks_free_def dm_or_insert_def DAList.lookup_update
      split: option.split_asm if_split_asm)

lemma locks_free_release: "locks_free s \<Longrightarrow> locks_free (pe_release s)"
  by (simp add: locks_free_def pe_release_def)

lemma locks_free_cleanup: "locks_free s \<Longrightarrow> locks_free (pe_cleanup_idle_locks s)"
  by (auto simp: locks_free_def pe_cleanup_idle_locks_def split: option.splits if_splits)

lemma cleanup_empties: "locks_free s \<Longrightarrow> pe_account_locks (pe_cleanup_idle_locks s) = dm_new"
  by (simp add: pe_cleanup_idle_locks_def) (rule dm_retain_none, auto simp: locks_free_def)

lemma pe_step_keeps:
  assumes "pe_step (s, fs) (s', fs')"
  shows "pe_available s' + length fs' = pe_available s + length fs \<and> (locks_free s \<longrightarrow> locks_free s')"
  using assms locks_free_acquire locks_free_release [of s] locks_free_cleanup [of s]
  by (elim pe_stepE) (auto simp: pe_acquire_eq pe_release_def pe_cleanup_idle_locks_def)

lemma pe_reachable_keeps:
  assumes "pe_reachable limit c"
  shows "pe_available (fst c) + length (snd c) = unat limit \<and> locks_free (fst c)"
  using assms
proof (induction rule: pe_reachable.induct)
  case (start s)
  then show ?case by (auto simp: pe_new_def locks_free_def split: if_splits)
next
  case (step c c')
  then show ?case using pe_step_keeps [of "fst c" "snd c" "fst c'" "snd c'"] by simp
qed

section \<open>Property\<close>

text \<open>The executor bounds the requests in flight and nothing else. In every reachable
  configuration the available permits and the requests in flight add up to the limit, and a
  request enters if and only if fewer requests than the limit are in flight, whatever account
  it names: requests on the account of one in flight are not serialized. Every account
  semaphore has its permit, so the cleanup of idle locks drops all of them.\<close>

theorem accounts_never_serialize:
  assumes "pe_reachable limit (s, fs)"
  shows "length fs \<le> unat limit \<and>
    (\<forall>meth key. (\<exists>s'. pe_acquire meth key s = Some s') \<longleftrightarrow> length fs < unat limit) \<and>
    pe_account_locks (pe_cleanup_idle_locks s) = dm_new"
proof -
  have inv: "pe_available s + length fs = unat limit" "locks_free s"
    using pe_reachable_keeps [OF assms] by auto
  moreover have "(\<exists>s'. pe_acquire meth key s = Some s') \<longleftrightarrow> 0 < pe_available s" for meth key
    by (simp add: pe_acquire_eq)
  moreover have "pe_account_locks (pe_cleanup_idle_locks s) = dm_new"
    using inv(2) by (rule cleanup_empties)
  ultimately show ?thesis by auto
qed

theorem accounts_never_serialize_witness:
  "\<exists>s s'. pe_reachable 2 (s, [(''sendTransaction'', Some ''acct'')]) \<and>
     pe_acquire ''sendTransaction'' (Some ''acct'') s = Some s'"
proof -
  obtain s0 where s0: "pe_new 2 = Some s0" "pe_available s0 = 2" by (simp add: pe_new_def)
  then obtain s where "pe_acquire ''sendTransaction'' (Some ''acct'') s0 = Some s"
    by (simp add: pe_acquire_eq)
  then have r: "pe_reachable 2 (s, [(''sendTransaction'', Some ''acct'')])"
    by (rule pe_reachable.step [OF pe_reachable.start [OF s0(1)] pe_step.enter])
  have "\<exists>s'. pe_acquire ''sendTransaction'' (Some ''acct'') s = Some s'"
    using accounts_never_serialize [OF r] by simp
  with r show ?thesis by blast
qed

end
