(* ===== verification/Verifier.thy ===== *)
theory Verifier
  imports Json
begin

text \<open>
  \<open>sns-daemon/src/verifier.rs\<close> and \<open>light_client.rs\<close>: the hash commitment a node attaches
  to an answer and its check by a client, and the step of \<open>rpc_proxy.rs\<close> that puts the
  commitment into the body. SHA-256, hex and the JSON printer are parameters
  (\<open>serde_json::to_string\<close> of a \<open>Value\<close> does not fail).
\<close>

record rpc_proof =
  rp_root_hash :: string
  rp_signature :: "string option"

type_synonym hash_fun = "u8 list \<Rightarrow> u8 list"

definition generate_proof ::
  "hash_fun \<Rightarrow> hex_printer \<Rightarrow> (json \<Rightarrow> string) \<Rightarrow> json \<Rightarrow> json \<times> rpc_proof" where
  "generate_proof H hex to_str response =
     (let serialized = to_str response in
      (response, \<lparr>rp_root_hash = hex (H (bytes_of serialized)), rp_signature = None\<rparr>))"

definition verify_proof ::
  "hash_fun \<Rightarrow> hex_printer \<Rightarrow> (json \<Rightarrow> string) \<Rightarrow> json \<Rightarrow> rpc_proof \<Rightarrow> bool" where
  "verify_proof H hex to_str response proof \<longleftrightarrow>
     hex (H (bytes_of (to_str response))) = rp_root_hash proof"

definition verify_node_response ::
  "hash_fun \<Rightarrow> hex_printer \<Rightarrow> (json \<Rightarrow> string) \<Rightarrow> json \<Rightarrow> rpc_proof \<Rightarrow> string + bool" where
  "verify_node_response H hex to_str response proof =
     (if verify_proof H hex to_str response proof then Inr True
      else Inl ''Cryptographic verification failed: Proof does not match response data.'')"

text \<open>\<open>serde_json::to_value(proof)\<close>, and the insertion of the proof into an object.\<close>

definition proof_value :: "rpc_proof \<Rightarrow> json" where
  "proof_value p = JObj [(''root_hash'', JStr (rp_root_hash p)),
     (''signature'', (case rp_signature p of None \<Rightarrow> JNull | Some s \<Rightarrow> JStr s))]"

definition attach_proof ::
  "hash_fun \<Rightarrow> hex_printer \<Rightarrow> (json \<Rightarrow> string) \<Rightarrow> json \<Rightarrow> json" where
  "attach_proof H hex to_str response =
     (let proof = snd (generate_proof H hex to_str response) in
      case response of
        JObj obj \<Rightarrow> JObj (obj_insert ''solnet_proof'' (proof_value proof) obj)
      | v \<Rightarrow> v)"

text \<open>A client that undoes the insertion.\<close>

definition detach_proof :: "json \<Rightarrow> json" where
  "detach_proof v = (case v of
      JObj obj \<Rightarrow> JObj (AList.delete ''solnet_proof'' obj) | w \<Rightarrow> w)"

lemma detach_attach:
  assumes "response = JObj obj" "map_of obj ''solnet_proof'' = None"
  shows "detach_proof (attach_proof H hex to_str response) = response"
proof -
  have fresh: "''solnet_proof'' \<notin> fst ` set obj" using assms(2) by (simp add: map_of_eq_None_iff)
  then have "AList.update ''solnet_proof'' p obj = obj @ [(''solnet_proof'', p)]" for p
    by (induction obj) auto
  moreover have "AList.delete ''solnet_proof'' (obj @ [(''solnet_proof'', p)]) = obj" for p
    using fresh by (force simp: AList.delete_eq filter_id_conv)
  ultimately show ?thesis
    by (simp add: assms(1) attach_proof_def detach_proof_def generate_proof_def obj_insert_def)
qed

lemma attach_changes:
  assumes "response = JObj obj" "map_of obj ''solnet_proof'' = None"
  shows "attach_proof H hex to_str response \<noteq> response"
proof
  assume "attach_proof H hex to_str response = response"
  then obtain p where "obj_insert ''solnet_proof'' p obj = obj"
    by (auto simp: assms(1) attach_proof_def)
  then have "(map_of obj)(''solnet_proof'' \<mapsto> p) = map_of obj"
    using map_of_obj_insert [of "''solnet_proof''" p obj] by simp
  then have "map_of obj ''solnet_proof'' = Some p" by (metis fun_upd_same)
  with assms(2) show False by simp
qed

section \<open>Property\<close>

text \<open>The commitment covers the answer without the commitment. For an object answer a client
  that removes the inserted field verifies it; a client that checks the body as it was
  delivered, with a printer that tells the two apart, succeeds only if it has found a collision
  of the hash.\<close>

theorem proof_covers_bare_answer:
  assumes "response = JObj obj" and "map_of obj ''solnet_proof'' = None" and "hex_law hex unhex"
    and "delivered = attach_proof H hex to_str response" and "inj_on to_str {response, delivered}"
    and "proof = snd (generate_proof H hex to_str response)"
  shows "verify_node_response H hex to_str (detach_proof delivered) proof = Inr True \<and>
    (verify_node_response H hex to_str delivered proof = Inr True \<longrightarrow>
      (\<exists>a b. a \<noteq> b \<and> H a = H b))"
proof (intro conjI impI)
  show "verify_node_response H hex to_str (detach_proof delivered) proof = Inr True"
    using detach_attach [OF assms(1,2)]
    by (simp add: assms(4,6) verify_node_response_def verify_proof_def generate_proof_def)
  assume "verify_node_response H hex to_str delivered proof = Inr True"
  then have "hex (H (bytes_of (to_str delivered))) = hex (H (bytes_of (to_str response)))"
    by (simp add: assms(6) verify_node_response_def verify_proof_def generate_proof_def split: if_splits)
  then have "H (bytes_of (to_str delivered)) = H (bytes_of (to_str response))"
    using assms(3) by (metis hex_law_def option.inject)
  moreover have "to_str delivered \<noteq> to_str response"
    using attach_changes [OF assms(1,2)] inj_onD [OF assms(5)] assms(4) by fastforce
  ultimately show "\<exists>a b. a \<noteq> b \<and> H a = H b" using bytes_of_inj by metis
qed

definition example_answer_body :: json where
  "example_answer_body = JObj [(''result'', JNum (PosInt 7))]"

fun print_size :: "json \<Rightarrow> string" where
  "print_size (JObj obj) = decimal (length obj)"
| "print_size _ = ''null''"

theorem proof_covers_bare_answer_witness:
  "verify_node_response (\<lambda>b. b) hex_encode print_size
     (detach_proof (attach_proof (\<lambda>b. b) hex_encode print_size example_answer_body))
     (snd (generate_proof (\<lambda>b. b) hex_encode print_size example_answer_body)) = Inr True"
  using proof_covers_bare_answer [of example_answer_body _ hex_encode hex_decode, OF _ _ hex_law_instance refl _ refl,
      of "[(''result'', JNum (PosInt 7))]" print_size "\<lambda>b. b"]
  by (simp add: example_answer_body_def attach_proof_def generate_proof_def obj_insert_def inj_on_def
      decimal.simps hex_digits_def)

end
