(* ===== verification/P2p_Node.thy ===== *)
theory P2p_Node
  imports Peer_Guard Device
begin

text \<open>
  \<open>sns-daemon/src/p2p.rs\<close> and \<open>telemetry.rs\<close>: what the mesh task does with the events of the
  swarm. The swarm is \<open>libp2p\<close>: it delivers events, and takes the calls the task makes on it,
  which the model records in order. A peer id and an address are their texts; \<open>parse\<close> reads a
  multiaddress and gives the peer id it ends with, if it has one.
\<close>

section \<open>Telemetry counters\<close>

record telemetry =
  te_enabled :: bool
  te_hole_punch_attempts :: u64
  te_hole_punch_successes :: u64
  te_total_requests :: u64
  te_total_peers_seen :: u64
  te_uptime_start :: nat
  te_version :: string
  te_endpoint :: string

definition te_new :: "environment \<Rightarrow> string \<Rightarrow> nat \<Rightarrow> telemetry" where
  "te_new env version start = \<lparr>
     te_enabled = (case env ''SOLNET_NO_TELEMETRY'' of Some v \<Rightarrow> v \<noteq> ''true'' | None \<Rightarrow> True),
     te_hole_punch_attempts = 0, te_hole_punch_successes = 0, te_total_requests = 0,
     te_total_peers_seen = 0, te_uptime_start = start, te_version = version,
     te_endpoint = var_or env ''SOLNET_TELEMETRY_URL''
       ''https://solnet-production.up.railway.app/telemetry/ingest''\<rparr>"

definition te_record_hole_punch_attempt :: "telemetry \<Rightarrow> telemetry" where
  "te_record_hole_punch_attempt t = t\<lparr>te_hole_punch_attempts := te_hole_punch_attempts t + 1\<rparr>"

definition te_record_hole_punch_success :: "telemetry \<Rightarrow> telemetry" where
  "te_record_hole_punch_success t = t\<lparr>te_hole_punch_successes := te_hole_punch_successes t + 1\<rparr>"

definition te_record_request :: "telemetry \<Rightarrow> telemetry" where
  "te_record_request t = t\<lparr>te_total_requests := te_total_requests t + 1\<rparr>"

definition te_record_new_peer :: "telemetry \<Rightarrow> telemetry" where
  "te_record_new_peer t = t\<lparr>te_total_peers_seen := te_total_peers_seen t + 1\<rparr>"

text \<open>The heartbeat: the endpoint and the body it posts, the outcome being ignored. The rate is
  a double, computed by the parameter \<open>ratio\<close>.\<close>

definition te_send_heartbeat ::
  "(u64 \<Rightarrow> u64 \<Rightarrow> f64) \<Rightarrow> nat \<Rightarrow> telemetry \<Rightarrow> (string \<times> json) option" where
  "te_send_heartbeat ratio now t =
     (if \<not> te_enabled t then None
      else
        (let attempts = te_hole_punch_attempts t; successes = te_hole_punch_successes t;
             punch_rate = (if 0 < attempts then ratio successes attempts else 0) in
         Some (te_endpoint t, JObj [(''v'', JStr (te_version t)), (''event'', JStr ''heartbeat''),
           (''uptime_secs'', JNum (PosInt (of_nat ((now - te_uptime_start t) div 10 ^ 9)))),
           (''requests'', JNum (PosInt (te_total_requests t))),
           (''peers_seen'', JNum (PosInt (te_total_peers_seen t))),
           (''hole_punch_attempts'', JNum (PosInt attempts)),
           (''hole_punch_successes'', JNum (PosInt successes)),
           (''hole_punch_rate_pct'', JNum (Float punch_rate))])))"

section \<open>Start of the mesh task\<close>

datatype swarm_call =
    ListenOn string
  | Dial string
  | AddAddress peer_id string
  | RemoveAddress peer_id string
  | Bootstrap

definition BOOTSTRAP_ADDR :: string where
  "BOOTSTRAP_ADDR = ''/dns4/solnet-production.up.railway.app/tcp/443/wss/p2p/'' @
     ''12D3KooWAH253rSpr8ryATyS45AXq7whPN1giEv6A7pufF5fmmNj''"

definition get_peer_id :: "config \<Rightarrow> string" where
  "get_peer_id cfg = ''sns-'' @ node_name cfg"

text \<open>The limits of the relay server: circuits, circuits per peer (\<open>None\<close> when the default of
  the library stays) and reservations.\<close>

definition relay_limits :: "config \<Rightarrow> platform_config \<Rightarrow> usize \<times> usize option \<times> usize" where
  "relay_limits cfg pc =
     (let is_mobile = \<not> pc_p2p_enabled pc in
      if \<not> is_relay cfg \<or> is_mobile then (0, Some 0, 0)
      else (relay_max_circuits cfg, None, relay_max_reservations cfg))"

type_synonym multiaddr_parser = "string \<Rightarrow> peer_id option option"

definition dial_calls :: "multiaddr_parser \<Rightarrow> string \<Rightarrow> swarm_call list" where
  "dial_calls parse addr_str = (case parse addr_str of
      None \<Rightarrow> []
    | Some None \<Rightarrow> [Dial addr_str]
    | Some (Some peer) \<Rightarrow> [Dial addr_str, AddAddress peer addr_str])"

text \<open>The calls before the event loop. A listen address that does not parse ends the task with
  an error, a bootstrap constant that does not parse panics: \<open>None\<close> for both.\<close>

definition start_calls :: "multiaddr_parser \<Rightarrow> config \<Rightarrow> swarm_call list option" where
  "start_calls parse cfg =
     (let port = decimal (unat (p2p_port cfg));
          tcp_addr = ''/ip4/0.0.0.0/tcp/'' @ port;
          quic_addr = ''/ip4/0.0.0.0/udp/'' @ port @ ''/quic-v1'' in
      if parse tcp_addr = None \<or> parse quic_addr = None \<or> parse BOOTSTRAP_ADDR = None then None
      else Some ([ListenOn tcp_addr, ListenOn quic_addr] @ dial_calls parse BOOTSTRAP_ADDR @
        concat (map (dial_calls parse) (bootstrap_nodes cfg)) @
        (if bootstrap_nodes cfg \<noteq> [] then [Bootstrap] else [])))"

section \<open>The event loop\<close>

text \<open>\<open>split("/ip4/")\<close>: the text after the first occurrence, up to the next slash.\<close>

definition extract_ip_from_multiaddr :: "string \<Rightarrow> string option" where
  "extract_ip_from_multiaddr addr =
     map_option (takeWhile (\<lambda>c. c \<noteq> CHR ''/'')) (after_first ''/ip4/'' addr)"

datatype nat_status = Public | Private | Unknown

datatype swarm_event =
    NewListenAddr string
  | ConnectionEstablished peer_id string
  | ConnectionClosed peer_id bool
  | KademliaEvent
  | MdnsDiscovered "(peer_id \<times> string) list"
  | MdnsExpired "(peer_id \<times> string) list"
  | IdentifyReceived peer_id "string list"
  | AutonatChanged nat_status
  | DcutrEvent
  | OutgoingConnectionError
  | OtherEvent

record p2p_state =
  pn_peer_registry :: "(string, string) dashmap"
  pn_connected_peers :: usize
  pn_hole_punch_attempts :: usize
  pn_nat_status :: string
  pn_multiaddrs :: "string list"
  pn_guard :: peer_guard
  pn_telemetry :: telemetry
  pn_calls :: "swarm_call list"

definition nat_text :: "nat_status \<Rightarrow> string" where
  "nat_text n = (case n of Public \<Rightarrow> ''PublicAddress'' | Private \<Rightarrow> ''Private'' | Unknown \<Rightarrow> ''Unknown'')"

definition issue :: "swarm_call list \<Rightarrow> p2p_state \<Rightarrow> p2p_state" where
  "issue cs s = s\<lparr>pn_calls := pn_calls s @ cs\<rparr>"

text \<open>One turn of the loop; the flag of \<open>ConnectionClosed\<close> says that there was an error as the
  cause. Counters wrap, a panic of the peer guard is \<open>None\<close>.\<close>

definition handle_event :: "u64 \<Rightarrow> config \<Rightarrow> swarm_event \<Rightarrow> p2p_state \<Rightarrow> p2p_state option" where
  "handle_event now cfg ev s = (case ev of
      NewListenAddr address \<Rightarrow> Some (s\<lparr>pn_multiaddrs := pn_multiaddrs s @ [address]\<rparr>)
    | ConnectionEstablished peer addr \<Rightarrow> do {
        let s = s\<lparr>pn_connected_peers := pn_connected_peers s + 1,
          pn_telemetry := te_record_new_peer (pn_telemetry s)\<rparr>;
        let s = (case extract_ip_from_multiaddr addr of
            Some ip \<Rightarrow> s\<lparr>pn_peer_registry := dm_insert peer
              (''http://'' @ ip @ '':'' @ decimal (unat (http_port cfg))) (pn_peer_registry s)\<rparr>
          | None \<Rightarrow> s);
        guard \<leftarrow> on_connected now peer (pn_guard s);
        Some (s\<lparr>pn_guard := guard\<rparr>)
      }
    | ConnectionClosed peer error \<Rightarrow> do {
        let s = s\<lparr>pn_connected_peers := pn_connected_peers s - 1\<rparr>;
        if error then do {
          guard \<leftarrow> on_failed_handshake now peer (pn_guard s);
          Some (s\<lparr>pn_guard := guard\<rparr>)
        }
        else Some s
      }
    | KademliaEvent \<Rightarrow> Some s
    | MdnsDiscovered found \<Rightarrow> Some (issue (map (\<lambda>(p, a). AddAddress p a) found) s)
    | MdnsExpired gone \<Rightarrow> Some (issue (map (\<lambda>(p, a). RemoveAddress p a) gone) s)
    | IdentifyReceived peer addrs \<Rightarrow> Some (issue (map (AddAddress peer) addrs) s)
    | AutonatChanged new \<Rightarrow> Some (s\<lparr>pn_nat_status := nat_text new\<rparr>)
    | DcutrEvent \<Rightarrow> Some (s\<lparr>pn_hole_punch_attempts := pn_hole_punch_attempts s + 1\<rparr>)
    | OutgoingConnectionError \<Rightarrow> Some s
    | OtherEvent \<Rightarrow> Some s)"

fun event_loop :: "config \<Rightarrow> (u64 \<times> swarm_event) list \<Rightarrow> p2p_state \<Rightarrow> p2p_state option" where
  "event_loop cfg [] s = Some s"
| "event_loop cfg ((now, ev) # evs) s = handle_event now cfg ev s \<bind> event_loop cfg evs"

definition p2p_start :: "swarm_call list \<Rightarrow> peer_guard \<Rightarrow> telemetry \<Rightarrow> p2p_state" where
  "p2p_start calls guard te = \<lparr>pn_peer_registry = dm_new, pn_connected_peers = 0,
     pn_hole_punch_attempts = 0, pn_nat_status = ''Unknown'', pn_multiaddrs = [],
     pn_guard = guard, pn_telemetry = te, pn_calls = calls\<rparr>"

section \<open>What the loop keeps\<close>

fun opened :: "(u64 \<times> swarm_event) list \<Rightarrow> nat" where
  "opened [] = 0"
| "opened ((now, ConnectionEstablished p a) # evs) = Suc (opened evs)"
| "opened (_ # evs) = opened evs"

fun closed :: "(u64 \<times> swarm_event) list \<Rightarrow> nat" where
  "closed [] = 0"
| "closed ((now, ConnectionClosed p e) # evs) = Suc (closed evs)"
| "closed (_ # evs) = closed evs"

text \<open>The events the peer guard is told of: every connection counts for the peer, and every
  connection that ends with an error counts as a failed handshake.\<close>

fun guard_events :: "(u64 \<times> swarm_event) list \<Rightarrow> (u64 \<times> guard_event) list" where
  "guard_events [] = []"
| "guard_events ((now, ConnectionEstablished p a) # evs) = (now, Connected p) # guard_events evs"
| "guard_events ((now, ConnectionClosed p True) # evs) = (now, FailedHandshake p) # guard_events evs"
| "guard_events (_ # evs) = guard_events evs"

fun last_endpoint :: "config \<Rightarrow> peer_id \<Rightarrow> string option \<Rightarrow> (u64 \<times> swarm_event) list \<Rightarrow> string option" where
  "last_endpoint cfg p known [] = known"
| "last_endpoint cfg p known ((now, ConnectionEstablished q a) # evs) = last_endpoint cfg p
     (case extract_ip_from_multiaddr a of
        Some ip \<Rightarrow> if p = q then Some (''http://'' @ ip @ '':'' @ decimal (unat (http_port cfg))) else known
      | None \<Rightarrow> known) evs"
| "last_endpoint cfg p known (_ # evs) = last_endpoint cfg p known evs"

fun guard_steps :: "(u64 \<times> guard_event) list \<Rightarrow> peer_guard \<Rightarrow> peer_guard option" where
  "guard_steps [] g = Some g"
| "guard_steps (ev # evs) g = guard_step ev g \<bind> guard_steps evs"

lemma event_loop_counts:
  assumes "event_loop cfg evs s = Some s'"
  shows "pn_connected_peers s' = pn_connected_peers s + of_nat (opened evs) - of_nat (closed evs) \<and>
    te_total_peers_seen (pn_telemetry s') = te_total_peers_seen (pn_telemetry s) + of_nat (opened evs)"
  using assms
  by (induction evs arbitrary: s rule: opened.induct)
    (auto simp: handle_event_def issue_def te_record_new_peer_def Let_def bind_eq_Some_conv
      split: swarm_event.splits option.splits if_splits)

lemma guard_steps_append:
  "guard_steps (es @ fs) g = guard_steps es g \<bind> guard_steps fs"
proof (induction es arbitrary: g)
  case (Cons e es)
  then show ?case by (cases "guard_step e g") simp_all
qed simp

lemma guard_events_Cons: "guard_events (e # evs) = guard_events [e] @ guard_events evs"
  by (cases "(e # evs)" rule: guard_events.cases) auto

lemma handle_event_guard:
  assumes "handle_event now cfg ev s = Some s1"
  shows "guard_steps (guard_events [(now, ev)]) (pn_guard s) = Some (pn_guard s1)"
proof (cases ev)
  case (ConnectionClosed p e)
  with assms show ?thesis
    by (cases e) (auto simp: handle_event_def Let_def bind_eq_Some_conv)
qed (use assms in \<open>auto simp: handle_event_def issue_def Let_def bind_eq_Some_conv split: option.splits\<close>)

lemma event_loop_guard:
  assumes "event_loop cfg evs s = Some s'"
  shows "guard_steps (guard_events evs) (pn_guard s) = Some (pn_guard s')"
  using assms
proof (induction cfg evs s rule: event_loop.induct)
  case (2 cfg now ev evs s)
  then obtain s1 where "handle_event now cfg ev s = Some s1" "event_loop cfg evs s1 = Some s'"
    by (auto simp: bind_eq_Some_conv)
  with 2(1) handle_event_guard show ?case
    by (simp add: guard_events_Cons [of "(now, ev)" evs] guard_steps_append)
qed simp

lemma handle_event_total:
  assumes "guard_steps (guard_events [(now, ev)]) (pn_guard s) = Some g"
  shows "\<exists>s1. handle_event now cfg ev s = Some s1 \<and> pn_guard s1 = g"
proof (cases ev)
  case (ConnectionClosed p e)
  with assms show ?thesis by (cases e) (auto simp: handle_event_def Let_def bind_eq_Some_conv)
qed (use assms in \<open>auto simp: handle_event_def issue_def Let_def bind_eq_Some_conv split: option.splits\<close>)

lemma event_loop_total:
  "guard_steps (guard_events evs) (pn_guard s) = Some g \<Longrightarrow> \<exists>s'. event_loop cfg evs s = Some s'"
proof (induction cfg evs s rule: event_loop.induct)
  case (2 cfg now ev evs s)
  then obtain g1 where "guard_steps (guard_events [(now, ev)]) (pn_guard s) = Some g1"
    "guard_steps (guard_events evs) g1 = Some g"
    by (auto simp: guard_events_Cons [of "(now, ev)" evs] guard_steps_append bind_eq_Some_conv)
  with handle_event_total [of now ev s g1 cfg] 2(1) show ?case by auto
qed simp

lemma event_loop_registry:
  assumes "event_loop cfg evs s = Some s'"
  shows "dm_get (pn_peer_registry s') p = last_endpoint cfg p (dm_get (pn_peer_registry s) p) evs"
  using assms
  by (induction evs arbitrary: s rule: opened.induct)
    (auto simp: handle_event_def issue_def Let_def bind_eq_Some_conv lookup_update
      split: swarm_event.splits option.splits if_splits)

section \<open>Bans are not consulted\<close>

definition with_bans :: "(peer_id, ban_record) dashmap \<Rightarrow> p2p_state \<Rightarrow> p2p_state" where
  "with_bans B s = s\<lparr>pn_guard := (pn_guard s)\<lparr>pg_banned := B\<rparr>\<rparr>"

lemma on_connected_bans:
  "on_connected now p (g\<lparr>pg_banned := B\<rparr>) = map_option (pg_banned_update (\<lambda>_. B)) (on_connected now p g)"
  by (cases "on_connected now p g")
    (auto simp: on_connected_def Let_def bind_eq_None_conv bind_eq_Some_conv)

lemma on_failed_handshake_bans:
  "\<exists>B'. on_failed_handshake now p (g\<lparr>pg_banned := B\<rparr>) =
     map_option (pg_banned_update (\<lambda>_. B')) (on_failed_handshake now p g)"
  unfolding on_failed_handshake_def
  by (cases "checked_add (pr_failed_handshakes (dm_or_insert (pg_scores g) p (default_record now))) 1";
      cases "i32_add (pr_score (dm_or_insert (pg_scores g) p (default_record now))) (- 10)";
      cases "checked_add now 3600"; cases g)
    (auto simp: ban_def Let_def)

lemma handle_event_bans:
  "\<exists>B'. handle_event now cfg ev (with_bans B s) = map_option (with_bans B') (handle_event now cfg ev s)"
proof (cases ev)
  case (ConnectionEstablished p a)
  show ?thesis
    by (rule exI [of _ B], cases "on_connected now p (pn_guard s)")
      (auto simp: ConnectionEstablished handle_event_def with_bans_def on_connected_bans Let_def
        split: option.splits)
next
  case (ConnectionClosed p e)
  obtain B' where "on_failed_handshake now p ((pn_guard s)\<lparr>pg_banned := B\<rparr>) =
      map_option (pg_banned_update (\<lambda>_. B')) (on_failed_handshake now p (pn_guard s))"
    using on_failed_handshake_bans by blast
  then show ?thesis
    by (intro exI [of _ "if e then B' else B"], cases "on_failed_handshake now p (pn_guard s)")
      (auto simp: ConnectionClosed handle_event_def with_bans_def Let_def)
qed (auto simp: handle_event_def with_bans_def issue_def intro!: exI [of _ B])

lemma event_loop_bans:
  "\<exists>B'. event_loop cfg evs (with_bans B s) = map_option (with_bans B') (event_loop cfg evs s)"
proof (induction cfg evs s arbitrary: B rule: event_loop.induct)
  case (1 cfg s)
  then show ?case by auto
next
  case (2 cfg now ev evs s)
  obtain B1 where step: "handle_event now cfg ev (with_bans B s) =
      map_option (with_bans B1) (handle_event now cfg ev s)"
    using handle_event_bans by blast
  show ?case
  proof (cases "handle_event now cfg ev s")
    case None
    with step show ?thesis by simp
  next
    case (Some s1)
    with step 2 [OF Some, of B1] show ?thesis by simp
  qed
qed

section \<open>Properties\<close>

text \<open>C19: the event loop keeps three accounts of the mesh. After any sequence of events the peer
  guard is in the state that the guard events of the sequence lead to, the registry holds for
  each peer the endpoint of its last connection from an IPv4 address, always with this node's
  own HTTP port, and the counter of connected peers is the number of connections opened and not
  yet closed. The loop gets through the sequence whenever the guard does.\<close>

theorem mesh_refines_components:
  assumes "guard_steps (guard_events evs) guard = Some g"
    and "closed evs \<le> opened evs" and "opened evs < 2 ^ 64"
  shows "\<exists>s'. event_loop cfg evs (p2p_start calls guard te) = Some s' \<and> pn_guard s' = g \<and>
    (\<forall>p. dm_get (pn_peer_registry s') p = last_endpoint cfg p None evs) \<and>
    unat (pn_connected_peers s') = opened evs - closed evs"
proof -
  obtain s' where s': "event_loop cfg evs (p2p_start calls guard te) = Some s'"
    using event_loop_total [of evs "p2p_start calls guard te" g cfg] assms(1)
    by (auto simp: p2p_start_def)
  have "pn_connected_peers s' = of_nat (opened evs) - of_nat (closed evs)"
    using event_loop_counts [OF s'] by (simp add: p2p_start_def)
  then have "pn_connected_peers s' = of_nat (opened evs - closed evs)" using assms(2) by simp
  then have "unat (pn_connected_peers s') = opened evs - closed evs"
    using assms(3) by (simp add: unat_of_nat64)
  with event_loop_guard [OF s'] event_loop_registry [OF s'] s' assms(1) show ?thesis
    by (simp add: p2p_start_def)
qed

definition example_mesh :: "(u64 \<times> swarm_event) list" where
  "example_mesh = [(10, ConnectionEstablished ''Qm1'' ''/ip4/10.0.0.7/tcp/4001''),
     (11, ConnectionEstablished ''Qm2'' ''/dns4/relay/tcp/443''), (12, ConnectionClosed ''Qm2'' True)]"

definition example_telemetry :: telemetry where
  "example_telemetry = te_new (\<lambda>_. None) ''2.1.2'' 0"

theorem mesh_refines_components_witness:
  "\<exists>s. event_loop (from_env (\<lambda>_. None)) example_mesh (p2p_start [] pg_new example_telemetry) = Some s \<and>
     dm_get (pn_peer_registry s) ''Qm1'' = Some ''http://10.0.0.7:8080'' \<and>
     dm_get (pn_peer_registry s) ''Qm2'' = None \<and> unat (pn_connected_peers s) = 1"
proof -
  let ?cfg = "from_env (\<lambda>_. None)"
  have port: "decimal (unat (http_port ?cfg)) = ''8080''"
    by (simp add: default_http_port decimal_8080)
  obtain g where g: "guard_steps (guard_events example_mesh) pg_new = Some g"
    by (simp add: example_mesh_def on_connected_def pg_new_def on_failed_handshake_def
        dm_or_insert_def default_record_def checked_add_def i32_add_def lookup_update Let_def
        word_le_nat_alt)
  have "last_endpoint ?cfg ''Qm1'' None example_mesh = Some ''http://10.0.0.7:8080''"
    and "last_endpoint ?cfg ''Qm2'' None example_mesh = None"
    using port by (simp_all add: example_mesh_def extract_ip_from_multiaddr_def)
  moreover have "opened example_mesh = 2" "closed example_mesh = 1" by (simp_all add: example_mesh_def)
  ultimately show ?thesis
    using mesh_refines_components [OF g, of ?cfg "[]" example_telemetry] by (auto simp del: event_loop.simps)
qed

text \<open>Bans have no effect on the mesh. Whatever peers are banned, the event loop runs the same
  way, admits the same connections and ends with the same registry, counters and scores: a
  banned peer that connects is registered and counted like any other.\<close>

theorem bans_never_consulted:
  assumes "event_loop cfg evs s = Some s'"
  shows "\<exists>t. event_loop cfg evs (with_bans B s) = Some t \<and>
    pn_peer_registry t = pn_peer_registry s' \<and> pn_connected_peers t = pn_connected_peers s' \<and>
    pn_calls t = pn_calls s' \<and> pg_scores (pn_guard t) = pg_scores (pn_guard s')"
proof -
  obtain B' where "event_loop cfg evs (with_bans B s) = map_option (with_bans B') (event_loop cfg evs s)"
    using event_loop_bans by blast
  with assms show ?thesis by (simp add: with_bans_def)
qed

theorem bans_never_consulted_witness:
  "\<exists>t. event_loop (from_env (\<lambda>_. None)) [(10, ConnectionEstablished ''Qm1'' ''/ip4/10.0.0.7/tcp/4001'')]
       (p2p_start [] (ban 5 ''Qm1'' ''abuse'' None pg_new) example_telemetry) = Some t \<and>
     \<not> fst (is_allowed 10 ''Qm1'' (ban 5 ''Qm1'' ''abuse'' None pg_new)) \<and>
     pn_connected_peers t = 1"
proof -
  let ?evs = "[(10, ConnectionEstablished ''Qm1'' ''/ip4/10.0.0.7/tcp/4001'')]"
  let ?s = "p2p_start [] pg_new example_telemetry"
  have bans: "with_bans (pg_banned (ban 5 ''Qm1'' ''abuse'' None pg_new)) ?s =
      p2p_start [] (ban 5 ''Qm1'' ''abuse'' None pg_new) example_telemetry"
    by (simp add: with_bans_def p2p_start_def ban_def pg_new_def dm_remove_new)
  obtain s where s: "event_loop (from_env (\<lambda>_. None)) ?evs ?s = Some s" "pn_connected_peers s = 1"
    by (simp add: handle_event_def p2p_start_def on_connected_def pg_new_def dm_or_insert_def
        default_record_def checked_add_def i32_add_def extract_ip_from_multiaddr_def Let_def)
  have banned: "\<not> fst (is_allowed 10 ''Qm1'' (ban 5 ''Qm1'' ''abuse'' None pg_new))"
    by (simp add: is_allowed_def ban_check_def ban_def pg_new_def lookup_update)
  obtain t where "event_loop (from_env (\<lambda>_. None)) ?evs
      (p2p_start [] (ban 5 ''Qm1'' ''abuse'' None pg_new) example_telemetry) = Some t"
    "pn_connected_peers t = pn_connected_peers s"
    using bans_never_consulted [OF s(1), of "pg_banned (ban 5 ''Qm1'' ''abuse'' None pg_new)"]
    unfolding bans by blast
  with banned s(2) show ?thesis by auto
qed

end
