(* ===== verification/Rpc_State.thy ===== *)
theory Rpc_State
  imports Security Attack_Prevention Latency_Engine Load_Balancer Zk_Payments Onion
    Wallet_Rewards Parallel_Executor Verifier P2p_Node
begin

text \<open>
  The state the handlers of \<open>sns-daemon/src/rpc_proxy.rs\<close> share, the requests and responses
  they see, and what they get from outside: clock readings, the random pick of the balancer,
  \<open>serde_json\<close>, SHA-256 and hex, and the HTTP calls. The calls a handler makes are recorded in
  order in \<open>sh_sent\<close>, a field of the model only.
\<close>

section \<open>Bytes that are UTF-8\<close>

text \<open>\<open>str::from_utf8\<close> accepts the well-formed byte sequences: no overlong forms, no
  surrogates, nothing above \<open>U+10FFFF\<close>.\<close>

definition in_range :: "nat \<Rightarrow> nat \<Rightarrow> u8 \<Rightarrow> bool" where
  "in_range lo hi b \<longleftrightarrow> lo \<le> unat b \<and> unat b \<le> hi"

abbreviation continuation :: "u8 \<Rightarrow> bool" where
  "continuation \<equiv> in_range 0x80 0xBF"

definition second_byte :: "u8 \<Rightarrow> u8 \<Rightarrow> bool" where
  "second_byte a b \<longleftrightarrow>
     (if a = 0xE0 then in_range 0xA0 0xBF b else if a = 0xED then in_range 0x80 0x9F b
      else if a = 0xF0 then in_range 0x90 0xBF b else if a = 0xF4 then in_range 0x80 0x8F b
      else continuation b)"

fun valid_utf8 :: "u8 list \<Rightarrow> bool" where
  "valid_utf8 [] \<longleftrightarrow> True"
| "valid_utf8 (a # bs) \<longleftrightarrow>
     (if in_range 0 0x7F a then valid_utf8 bs
      else if in_range 0xC2 0xDF a
      then (case bs of b # r \<Rightarrow> continuation b \<and> valid_utf8 r | _ \<Rightarrow> False)
      else if in_range 0xE0 0xEF a
      then (case bs of b # c # r \<Rightarrow> second_byte a b \<and> continuation c \<and> valid_utf8 r | _ \<Rightarrow> False)
      else if in_range 0xF0 0xF4 a
      then (case bs of b # c # d # r \<Rightarrow>
          second_byte a b \<and> continuation c \<and> continuation d \<and> valid_utf8 r | _ \<Rightarrow> False)
      else False)"

definition text_of :: "u8 list \<Rightarrow> string" where
  "text_of bs = map (\<lambda>b. char_of (unat b)) bs"

definition str_from_utf8 :: "u8 list \<Rightarrow> string option" where
  "str_from_utf8 bs = (if valid_utf8 bs then Some (text_of bs) else None)"

lemma valid_utf8_ascii: "\<forall>b\<in>set bs. unat b < 128 \<Longrightarrow> valid_utf8 bs"
  by (induction bs) (auto simp: in_range_def)

section \<open>Responses\<close>

text \<open>A response has the headers the handler adds; the content type belongs to \<open>axum\<close>.\<close>

datatype body = Empty | Text string | JsonBody json | Raw "u8 list"

record http_response =
  hr_status :: nat
  hr_headers :: "(string \<times> string) list"
  hr_body :: body

definition plain :: "nat \<Rightarrow> body \<Rightarrow> http_response" where
  "plain status b = \<lparr>hr_status = status, hr_headers = [], hr_body = b\<rparr>"

definition security_headers :: "(string \<times> string) list" where
  "security_headers = [(''X-Content-Type-Options'', ''nosniff''), (''X-Frame-Options'', ''DENY''),
     (''X-XSS-Protection'', ''1; mode=block''), (''Referrer-Policy'', ''no-referrer''),
     (''Content-Security-Policy'', ''default-src '' @ [CHR 0x27] @ ''none'' @ [CHR 0x27]),
     (''Strict-Transport-Security'', ''max-age=31536000; includeSubDomains'')]"

definition secured :: "nat \<Rightarrow> body \<Rightarrow> http_response" where
  "secured status b = \<lparr>hr_status = status, hr_headers = security_headers, hr_body = b\<rparr>"

text \<open>What an HTTP client gets back: a status and, if it arrives, a body.\<close>

record http_answer =
  ha_status :: nat
  ha_body :: "u8 list option"

definition status_from_u16 :: "nat \<Rightarrow> nat" where
  "status_from_u16 n = (if 100 \<le> n \<and> n < 1000 then n else 500)"

datatype outgoing =
    MeshCall string "u8 list"
  | BrahmanCall json
  | UpstreamCall string string
  | OnionCall string json

section \<open>Shared state\<close>

record proxy_stats =
  ps_node_id :: string
  ps_node_name :: string
  ps_requests_served :: u64
  ps_earnings_lamports :: u64
  ps_started_at :: int
  ps_peer_count :: u64

record daily_salt =
  ds_salt :: string
  ds_date :: string

definition ds_new :: daily_salt where
  "ds_new = \<lparr>ds_salt = [], ds_date = []\<rparr>"

text \<open>\<open>today\<close> is the date as text, \<open>fresh1\<close> and \<open>fresh2\<close> are the two random UUIDs.\<close>

definition get_or_rotate :: "string \<Rightarrow> string \<Rightarrow> string \<Rightarrow> daily_salt \<Rightarrow> string \<times> daily_salt" where
  "get_or_rotate today fresh1 fresh2 s =
     (let s' = (if ds_date s \<noteq> today
        then \<lparr>ds_salt = filter (\<lambda>c. c \<noteq> CHR ''-'') fresh1 @ filter (\<lambda>c. c \<noteq> CHR ''-'') fresh2,
          ds_date = today\<rparr>
        else s) in
      (ds_salt s', s'))"

record shared_state =
  sh_stats :: proxy_stats
  sh_solana_rpc_url :: string
  sh_breaker :: circuit_breaker
  sh_slot :: u64
  sh_batch :: zk_receipt_batch
  sh_disk :: disk
  sh_registry :: "(string, string) dashmap"
  sh_salt :: daily_salt
  sh_shard :: shard_router
  sh_executor :: parallel_executor
  sh_geo :: geo_router
  sh_balancer :: load_balancer
  sh_ap :: attack_prevention
  sh_wallet :: "wallet_tracker option"
  sh_engine :: latency_engine
  sh_config :: config
  sh_battery :: battery_guard
  sh_connected_peers :: usize
  sh_hole_punch_attempts :: usize
  sh_hole_punch_successes :: usize
  sh_nat_status :: string
  sh_multiaddrs :: "string list"
  sh_guard :: peer_guard
  sh_telemetry :: telemetry
  sh_sent :: "outgoing list"

definition send_out :: "outgoing \<Rightarrow> shared_state \<Rightarrow> shared_state" where
  "send_out c s = s\<lparr>sh_sent := sh_sent s @ [c]\<rparr>"

section \<open>Start of the daemon\<close>

text \<open>\<open>main.rs\<close> and \<open>create_rpc_router\<close>: the components of a fresh node. The wallet's
  length check can end the start with an error and the semaphore's limit can panic it; both
  are \<open>None\<close>. \<open>fresh_id\<close> and \<open>batch_id\<close> are random UUIDs, \<open>started\<close> the current time.\<close>

definition local_node :: "config \<Rightarrow> geo_node" where
  "local_node cfg = \<lparr>gn_peer_id = ''local'',
     gn_endpoint = ''http://0.0.0.0:'' @ decimal (unat (http_port cfg)), gn_region = cfg_region cfg,
     gn_latency_ms = 0, gn_load_percent = 0, gn_alive = True\<rparr>"

definition boot_wallet :: "config \<Rightarrow> wallet_tracker option option" where
  "boot_wallet cfg =
     (if node_wallet_pubkey cfg = [] then Some None
      else (case wt_new (node_wallet_pubkey cfg) (solana_rpc_url cfg) of
          Inl e \<Rightarrow> None | Inr t \<Rightarrow> Some (Some t)))"

text \<open>The state \<open>create_rpc_router\<close> builds from what \<open>main\<close> hands it, with the statistics and the
  breaker of its own; the key of the onion router is a field of the onion worlds, the disk and
  the calls made are the model's.\<close>

definition create_rpc_router ::
  "config \<Rightarrow> string \<Rightarrow> int \<Rightarrow> u64 \<Rightarrow> zk_receipt_batch \<Rightarrow> (string, string) dashmap \<Rightarrow> daily_salt \<Rightarrow> shard_router \<Rightarrow>
   parallel_executor \<Rightarrow> geo_router \<Rightarrow> load_balancer \<Rightarrow> attack_prevention \<Rightarrow> wallet_tracker option \<Rightarrow>
   latency_engine \<Rightarrow> battery_guard \<Rightarrow> usize \<Rightarrow> usize \<Rightarrow> usize \<Rightarrow> string \<Rightarrow> string list \<Rightarrow> peer_guard \<Rightarrow>
   telemetry \<Rightarrow> disk \<Rightarrow> shared_state" where
  "create_rpc_router cfg node_id started slot_cache zk_batch registry salt shard executor geo balancer
     ap wallet engine battery connected attempts successes status multiaddrs guard te d =
     \<lparr>sh_stats = \<lparr>ps_node_id = node_id, ps_node_name = node_name cfg, ps_requests_served = 0,
         ps_earnings_lamports = 0, ps_started_at = started, ps_peer_count = 0\<rparr>,
       sh_solana_rpc_url = solana_rpc_url cfg, sh_breaker = cb_new, sh_slot = slot_cache,
       sh_batch = zk_batch, sh_disk = d, sh_registry = registry, sh_salt = salt, sh_shard = shard,
       sh_executor = executor, sh_geo = geo, sh_balancer = balancer, sh_ap = ap, sh_wallet = wallet,
       sh_engine = engine, sh_config = cfg, sh_battery = battery, sh_connected_peers = connected,
       sh_hole_punch_attempts = attempts, sh_hole_punch_successes = successes, sh_nat_status = status,
       sh_multiaddrs = multiaddrs, sh_guard = guard, sh_telemetry = te, sh_sent = []\<rparr>"

definition boot ::
  "config \<Rightarrow> platform_config \<Rightarrow> telemetry \<Rightarrow> string \<Rightarrow> string \<Rightarrow> int \<Rightarrow> disk \<Rightarrow> shared_state option" where
  "boot cfg pc te fresh_id batch_id started d = do {
     executor \<leftarrow> pe_new (max_concurrent_requests cfg);
     wallet \<leftarrow> boot_wallet cfg;
     Some (create_rpc_router cfg fresh_id started 0 (zb_new batch_id) dm_new ds_new
       (shard_router_new (cfg_shard_type cfg)) executor
       (geo_register_node (local_node cfg) (geo_router_new (cfg_region cfg)))
       (lb_add_node (solana_rpc_url cfg) 100 (lb_new Adaptive)) ap_new wallet le_new
       (bg_new (pc_battery_mode pc)) 0 0 0 ''Unknown'' [] pg_new te d)
   }"

text \<open>One turn of the task that follows the chain's slot; \<open>answer\<close> is the parsed answer to its
  \<open>getSlot\<close> call, if there is one.\<close>

definition update_slot :: "json option \<Rightarrow> shared_state \<Rightarrow> shared_state" where
  "update_slot answer s = (case answer of
      None \<Rightarrow> s
    | Some v \<Rightarrow> (case as_u64 (json_index v ''result'') of
          Some slot \<Rightarrow> s\<lparr>sh_slot := slot\<rparr> | None \<Rightarrow> s))"

end
