(* ===== verification/Rpc_Handler.thy ===== *)
theory Rpc_Handler
  imports Rpc_State
begin

text \<open>
  \<open>rpc_handler\<close> of \<open>sns-daemon/src/rpc_proxy.rs\<close>, step by step: admission, the cache, the
  permit, the mesh, the slot answer and the upstream call. A panic is \<open>None\<close>. A request that
  waits for a permit or for the mesh is a value of \<open>progress\<close>, so the calls of a node to
  itself can be followed.
\<close>

record rpc_world =
  rw_battery_secs :: u64
  rw_ban_secs :: u64
  rw_limit_secs :: u64
  rw_breaker_secs :: u64
  rw_failure_secs :: u64
  rw_cache_now :: instant
  rw_store_now :: instant
  rw_elapsed_us :: u64
  rw_random :: u32
  rw_parse :: "string \<Rightarrow> json option"
  rw_parse_bytes :: "u8 list \<Rightarrow> json option"
  rw_print :: "json \<Rightarrow> string"
  rw_hash :: "u8 list \<Rightarrow> u8 list"
  rw_hex :: hex_printer
  rw_mesh :: "string \<Rightarrow> u8 list \<Rightarrow> string + http_answer"
  rw_brahman :: "json \<Rightarrow> string + (string + json)"
  rw_upstream :: "string \<Rightarrow> string \<Rightarrow> http_answer option"

text \<open>A header that is present and is visible ASCII.\<close>

type_synonym header_map = "string \<rightharpoonup> string"

definition extract_ip :: "header_map \<Rightarrow> string" where
  "extract_ip headers = (case headers ''x-forwarded-for'' of
      Some v \<Rightarrow> trim (hd (split_char (CHR '','') v))
    | None \<Rightarrow> ''unknown'')"

definition sanitize_header_value :: "string \<Rightarrow> string" where
  "sanitize_header_value v = filter (\<lambda>c. c \<noteq> CHR 0x0D \<and> c \<noteq> CHR 0x0A) v"

section \<open>Admission\<close>

text \<open>The body of an admitted request: its text and its value, or the early response.\<close>

definition read_request :: "rpc_world \<Rightarrow> u8 list \<Rightarrow> http_response + string \<times> json" where
  "read_request w body = (case str_from_utf8 body of
      None \<Rightarrow> Inl (plain 400 Empty)
    | Some body_str \<Rightarrow>
        (case scan_payload body_str of
           Blocked reason \<Rightarrow> Inl (plain 400 (Text (''Malicious payload: '' @ reason)))
         | Clean \<Rightarrow>
             (case rw_parse w body_str of
                None \<Rightarrow> Inl (plain 400 Empty)
              | Some rpc_req \<Rightarrow> Inr (body_str, rpc_req))))"

text \<open>Steps 0 to 2: battery, host, ban, limit, then the body.\<close>

definition admit ::
  "rpc_world \<Rightarrow> header_map \<Rightarrow> u8 list \<Rightarrow> shared_state \<Rightarrow>
   ((http_response + string \<times> json) \<times> shared_state) option" where
  "admit w headers body s =
     (let client_ip = extract_ip headers;
          (accepts, battery) = bg_should_accept_request (rw_battery_secs w) (sh_battery s);
          s = s\<lparr>sh_battery := battery\<rparr> in
      if \<not> accepts then Some (Inl (plain 503 (JsonBody (JObj
        [(''error'', JStr (''node throttled '' @ [CHR 0xE2, CHR 0x80, CHR 0x94] @ '' low battery'')),
         (''retry_after'', JNum (PosInt 30))]))), s)
      else if \<not> validate_host (unwrap_or (headers ''host'') ''unknown'') (sh_config s)
      then Some (Inl (plain 400 (Text ''Invalid Host header'')), s)
      else
        (let (banned, ap) = is_banned (rw_ban_secs w) client_ip (sh_ap s);
             s = s\<lparr>sh_ap := ap\<rparr> in
         if banned then Some (Inl (plain 403 (Text ''IP Banned for abuse'')), s)
         else do {
           (ap, verdict) \<leftarrow> check_rate_limit (rw_limit_secs w) client_ip (sh_ap s);
           let s = s\<lparr>sh_ap := ap\<rparr>;
           Some (case verdict of
               Banned \<Rightarrow> Inl (plain 403 (Text ''IP Banned for abuse''))
             | Limited retry_after \<Rightarrow> Inl \<lparr>hr_status = 429,
                 hr_headers = [(''Retry-After'', decimal (unat retry_after))],
                 hr_body = Text ''Rate limit exceeded''\<rparr>
             | Allowed \<Rightarrow> read_request w body, s)
         }))"

definition method_of :: "json \<Rightarrow> string" where
  "method_of rpc_req = unwrap_or (Option.bind (json_get rpc_req ''method'') as_str) ''unknown''"

definition params_of :: "json \<Rightarrow> json" where
  "params_of rpc_req = unwrap_or (json_get rpc_req ''params'') JNull"

section \<open>Verification of state-changing methods\<close>

definition skip_methods :: "string list" where
  "skip_methods = [''getBalance'', ''getSlot'', ''getBlock'', ''getTransaction'', ''getAccountInfo'',
     ''getRecentBlockhash'', ''getLatestBlockhash'']"

definition karaka_payload :: "(json \<Rightarrow> string) \<Rightarrow> string \<Rightarrow> json \<Rightarrow> json" where
  "karaka_payload to_str meth params = JObj
     [(''karaka_protocol'', JObj
        [(''kriya'', JObj [(''surface'', JStr meth), (''resolved_root'', JStr ''transfer'')]),
         (''karta'', JObj [(''surface'', JStr ''sender''), (''lemma'', JStr ''sender''),
            (''constraints'', JArr [])])]),
      (''raw_input'', JStr (meth @ '' '' @ to_str params))]"

definition read_verdict :: "(json \<Rightarrow> string) \<Rightarrow> json \<Rightarrow> (string + bool) option" where
  "read_verdict to_str result =
     (let verdict = unwrap_or (as_str (json_index result ''verdict'')) ''AMBIGUOUS'';
          logic_hash = unwrap_or (as_str (json_index result ''logic_hash'')) '''' in
      if verdict = ''VALID'' then
        (if 8 \<le> length logic_hash \<and> \<not> char_boundary logic_hash 8 then None else Some (Inr True))
      else if verdict = ''INVALID'' then
        Some (Inl (''Transaction blocked by Brahman: '' @ to_str (json_index result ''violations'')))
      else Some (Inr True))"

definition verify_with_brahman ::
  "rpc_world \<Rightarrow> string \<Rightarrow> json \<Rightarrow> shared_state \<Rightarrow> ((string + bool) \<times> shared_state) option" where
  "verify_with_brahman w meth params s =
     (if meth \<in> set skip_methods then Some (Inr True, s)
      else
        (let payload = karaka_payload (rw_print w) meth params;
             s = send_out (BrahmanCall payload) s in
         case rw_brahman w payload of
           Inl e \<Rightarrow> Some (Inl (''Brahman unreachable: '' @ e), s)
         | Inr (Inl e) \<Rightarrow> Some (Inl (''Brahman parse error: '' @ e), s)
         | Inr (Inr result) \<Rightarrow> map_option (\<lambda>v. (v, s)) (read_verdict (rw_print w) result)))"

section \<open>Answering from the node\<close>

definition record_reward :: "shared_state \<Rightarrow> shared_state option" where
  "record_reward s = (case sh_wallet s of
      None \<Rightarrow> Some s
    | Some t \<Rightarrow> map_option (\<lambda>t'. s\<lparr>sh_wallet := Some t'\<rparr>) (wt_record_request t))"

definition record_time :: "rpc_world \<Rightarrow> string \<Rightarrow> shared_state \<Rightarrow> shared_state option" where
  "record_time w meth s =
     map_option (\<lambda>e. s\<lparr>sh_engine := e\<rparr>) (record_latency meth (rw_elapsed_us w) (sh_engine s))"

definition store_answer :: "rpc_world \<Rightarrow> string \<Rightarrow> json \<Rightarrow> json \<Rightarrow> shared_state \<Rightarrow> shared_state" where
  "store_answer w meth params v s =
     s\<lparr>sh_engine := set_cache (rw_print w) (rw_store_now w) meth params v (sh_engine s)\<rparr>"

definition answer_cached :: "rpc_world \<Rightarrow> string \<Rightarrow> json \<Rightarrow> shared_state \<Rightarrow> (http_response \<times> shared_state) option" where
  "answer_cached w meth cached s = do {
     s \<leftarrow> record_time w meth s;
     s \<leftarrow> record_reward s;
     Some (secured 200 (JsonBody cached), s)
   }"

text \<open>The answer to \<open>getSlot\<close>: the proof is made of the bare answer, then the proof and the mark
  \<open>cached\<close> are put into it.\<close>

definition slot_answer :: "rpc_world \<Rightarrow> json \<Rightarrow> u64 \<Rightarrow> json" where
  "slot_answer w rpc_req slot =
     (let bare = JObj [(''jsonrpc'', JStr ''2.0''), (''result'', JNum (PosInt slot)),
            (''id'', unwrap_or (json_get rpc_req ''id'') JNull)] in
      case attach_proof (rw_hash w) (rw_hex w) (rw_print w) bare of
        JObj obj \<Rightarrow> JObj (obj_insert ''cached'' (JBool True) obj)
      | v \<Rightarrow> v)"

definition answer_slot ::
  "rpc_world \<Rightarrow> string \<Rightarrow> json \<Rightarrow> json \<Rightarrow> shared_state \<Rightarrow> (http_response \<times> shared_state) option" where
  "answer_slot w meth params rpc_req s = do {
     let v = slot_answer w rpc_req (sh_slot s);
     s \<leftarrow> record_time w meth s;
     let s = store_answer w meth params v s;
     s \<leftarrow> record_reward s;
     Some (secured 200 (JsonBody v), s)
   }"

section \<open>Answering from upstream\<close>

definition upstream_failed :: "rpc_world \<Rightarrow> string \<Rightarrow> shared_state \<Rightarrow> (http_response \<times> shared_state) option" where
  "upstream_failed w url s = do {
     b \<leftarrow> lb_record_error url (sh_balancer s);
     Some (plain 502 Empty, s\<lparr>sh_balancer := b,
       sh_breaker := cb_record_failure (rw_failure_secs w) (sh_breaker s)\<rparr>)
   }"

text \<open>The status of the upstream answer is not looked at.\<close>

definition upstream_answered ::
  "rpc_world \<Rightarrow> string \<Rightarrow> json \<Rightarrow> string \<Rightarrow> http_answer \<Rightarrow> shared_state \<Rightarrow> (http_response \<times> shared_state) option" where
  "upstream_answered w meth params url answer s = do {
     s \<leftarrow> record_time w meth s;
     b \<leftarrow> lb_record_success url (rw_elapsed_us w div 1000) (sh_balancer s);
     let s = s\<lparr>sh_balancer := b\<rparr>;
     case ha_body answer of
       None \<Rightarrow> Some (plain 502 Empty, s)
     | Some bytes \<Rightarrow> do {
         let s = s\<lparr>sh_breaker := cb_record_success (sh_breaker s)\<rparr>;
         s \<leftarrow> record_reward s;
         case rw_parse_bytes w bytes of
           None \<Rightarrow> Some (plain 502 Empty, s)
         | Some v \<Rightarrow> Some (secured 200 (JsonBody (attach_proof (rw_hash w) (rw_hex w) (rw_print w) v)),
             store_answer w meth params v s)
       }
   }"

definition answer_upstream ::
  "rpc_world \<Rightarrow> string \<Rightarrow> json \<Rightarrow> string \<Rightarrow> shared_state \<Rightarrow> (http_response \<times> shared_state) option" where
  "answer_upstream w meth params body_str s =
     (if cb_is_open (rw_breaker_secs w) (sh_breaker s) then Some (plain 503 Empty, s)
      else do {
        (picked, b) \<leftarrow> select_node (rw_random w) (sh_balancer s);
        let s = s\<lparr>sh_balancer := b\<rparr>;
        let url = unwrap_or picked (sh_solana_rpc_url s);
        (verdict, s) \<leftarrow> verify_with_brahman w meth params s;
        case verdict of
          Inl violation \<Rightarrow> Some (secured 403 (JsonBody (JObj [(''error'', JStr violation)])), s)
        | Inr _ \<Rightarrow>
            (let s = send_out (UpstreamCall url body_str) s in
             case rw_upstream w url body_str of
               None \<Rightarrow> upstream_failed w url s
             | Some answer \<Rightarrow> upstream_answered w meth params url answer s)
      })"

definition answer_locally ::
  "rpc_world \<Rightarrow> string \<Rightarrow> json \<Rightarrow> shared_state \<Rightarrow> (http_response \<times> shared_state) option" where
  "answer_locally w body_str rpc_req s =
     (let meth = method_of rpc_req; params = params_of rpc_req;
          s = s\<lparr>sh_ap := increment_total (sh_ap s)\<rparr> in
      if meth = ''getSlot'' then answer_slot w meth params rpc_req s
      else answer_upstream w meth params body_str s)"

section \<open>The handler\<close>

text \<open>A request up to the point where it is finished, waits for a permit, is about to be
  forwarded to a mesh node, or is to be answered here. The last two hold a permit.\<close>

datatype progress =
    Finished http_response
  | Waiting
  | ToMesh string string json
  | Here string json

definition rpc_begin ::
  "rpc_world \<Rightarrow> header_map \<Rightarrow> u8 list \<Rightarrow> shared_state \<Rightarrow> (progress \<times> shared_state) option" where
  "rpc_begin w headers body s = do {
     (admitted, s) \<leftarrow> admit w headers body s;
     case admitted of
       Inl resp \<Rightarrow> Some (Finished resp, s)
     | Inr (body_str, rpc_req) \<Rightarrow> do {
         let meth = method_of rpc_req;
         let params = params_of rpc_req;
         (cached, e) \<leftarrow> get_cached (rw_print w) (rw_cache_now w) meth params (sh_engine s);
         let s = s\<lparr>sh_engine := e\<rparr>;
         case cached of
           Some v \<Rightarrow> map_option (\<lambda>(r, s). (Finished r, s)) (answer_cached w meth v s)
         | None \<Rightarrow>
             (case pe_acquire meth (Option.bind (json_nth params 0) as_str) (sh_executor s) of
                None \<Rightarrow> Some (Waiting, s)
              | Some ex \<Rightarrow>
                  (let s = s\<lparr>sh_executor := ex\<rparr> in
                   if should_handle (sh_shard s) meth then Some (Here body_str rpc_req, s)
                   else (case find_best_node (sh_geo s) (cfg_region (sh_config s)) of
                       None \<Rightarrow> Some (Here body_str rpc_req, s)
                     | Some node \<Rightarrow> Some (ToMesh (gn_endpoint node) body_str rpc_req,
                         send_out (MeshCall (gn_endpoint node) body) s))))
       }
   }"

text \<open>The permit is returned when the handler is done.\<close>

definition rpc_finish :: "(http_response \<times> shared_state) option \<Rightarrow> (progress \<times> shared_state) option" where
  "rpc_finish r = map_option (\<lambda>(resp, s). (Finished resp, s\<lparr>sh_executor := pe_release (sh_executor s)\<rparr>)) r"

definition mesh_response :: "http_answer \<Rightarrow> http_response" where
  "mesh_response answer = secured (status_from_u16 (ha_status answer)) (Raw (unwrap_or (ha_body answer) []))"

definition rpc_handler ::
  "rpc_world \<Rightarrow> header_map \<Rightarrow> u8 list \<Rightarrow> shared_state \<Rightarrow> (progress \<times> shared_state) option" where
  "rpc_handler w headers body s = do {
     (p, s) \<leftarrow> rpc_begin w headers body s;
     case p of
       Here body_str rpc_req \<Rightarrow> rpc_finish (answer_locally w body_str rpc_req s)
     | ToMesh endpoint body_str rpc_req \<Rightarrow>
         (case rw_mesh w endpoint body of
            Inr answer \<Rightarrow> rpc_finish (Some (mesh_response answer, s))
          | Inl e \<Rightarrow> rpc_finish (answer_locally w body_str rpc_req s))
     | _ \<Rightarrow> Some (p, s)
   }"

end
