(* ===== verification/Rpc_Endpoints.thy ===== *)
theory Rpc_Endpoints
  imports Rpc_Handler
begin

text \<open>
  The other routes of \<open>sns-daemon/src/rpc_proxy.rs\<close>: onion forwarding, settlement, status and
  statistics, the mesh report, mobile registration and the telemetry stubs. Base64, the texts
  of library errors, the formatting of doubles and dates are parameters.
\<close>

definition json_of_nat :: "nat \<Rightarrow> json" where
  "json_of_nat n = JNum (PosInt (of_nat n))"

definition json_u64 :: "u64 \<Rightarrow> json" where
  "json_u64 n = JNum (PosInt n)"

section \<open>Onion forwarding\<close>

record 'k onion_world =
  ow_rpc :: rpc_world
  ow_decode :: "string \<Rightarrow> u8 list option"
  ow_encode :: "u8 list \<Rightarrow> string"
  ow_crypto :: "'k onion_crypto"
  ow_key :: 'k
  ow_error_text :: "onion_error \<Rightarrow> string"
  ow_post :: "string \<Rightarrow> json \<Rightarrow> string + http_answer"

definition anon_headers :: header_map where
  "anon_headers = [''x-forwarded-for'' \<mapsto> ''anon-routed'']"

definition onion_request :: "string \<Rightarrow> string \<Rightarrow> json" where
  "onion_request layer next_hop = JObj [(''layer'', JStr layer), (''next_hop'', JStr next_hop)]"

definition onion_handler ::
  "'k onion_world \<Rightarrow> string \<Rightarrow> shared_state \<Rightarrow> (progress \<times> shared_state) option" where
  "onion_handler w layer s = (case ow_decode w layer of
      None \<Rightarrow> Some (Finished (plain 400 (JsonBody (JObj [(''error'', JStr ''invalid base64'')]))), s)
    | Some wrapped \<Rightarrow>
        (case peel_layer (ow_crypto w) (ow_key w) wrapped of
           Inl e \<Rightarrow> Some (Finished (plain 400 (JsonBody (JObj
             [(''error'', JStr (''peel failed: '' @ ow_error_text w e))]))), s)
         | Inr peeled \<Rightarrow>
             if pl_is_exit peeled
             then rpc_handler (ow_rpc w) anon_headers (pl_inner_payload peeled) s
             else (case dm_get (sh_registry s) (pl_next_hop peeled) of
                 None \<Rightarrow> rpc_handler (ow_rpc w) anon_headers (pl_inner_payload peeled) s
               | Some addr \<Rightarrow>
                   (let url = addr @ ''/onion'';
                        forward = onion_request (ow_encode w (pl_inner_payload peeled)) (pl_next_hop peeled);
                        s = send_out (OnionCall url forward) s in
                    Some (case ow_post w url forward of
                        Inr answer \<Rightarrow> (Finished (mesh_response answer), s)
                      | Inl e \<Rightarrow> (Finished (plain 502 (JsonBody (JObj
                          [(''error'', JStr (''forward failed: '' @ e))]))), s))))))"

section \<open>Settlement\<close>

definition batch_json :: "compressed_batch \<Rightarrow> json" where
  "batch_json b = JObj [(''batch_id'', JStr (cb_batch_id b)), (''merkle_root'', JStr (cb_merkle_root b)),
     (''total_lamports'', json_u64 (cb_total_lamports b)),
     (''receipt_count'', json_u64 (cb_receipt_count b)),
     (''compressed_at'', json_u64 (cb_compressed_at b))]"

definition settle :: "batch_world \<Rightarrow> shared_state \<Rightarrow> ((persist_error + compressed_batch) \<times> shared_state) option" where
  "settle w s = map_option (\<lambda>(r, b, d). (r, s\<lparr>sh_batch := b, sh_disk := d\<rparr>))
     (persist_and_clear w ''./batches'' (sh_batch s, sh_disk s))"

definition settle_handler ::
  "batch_world \<Rightarrow> (persist_error \<Rightarrow> string) \<Rightarrow> shared_state \<Rightarrow> (http_response \<times> shared_state) option" where
  "settle_handler w error_text s = map_option (\<lambda>(r, s'). (case r of
      Inr compressed \<Rightarrow> plain 200 (JsonBody (batch_json compressed))
    | Inl e \<Rightarrow> plain 500 (Text (''Settlement failed: '' @ error_text e)), s')) (settle w s)"

section \<open>Status and statistics\<close>

record report_world =
  pw_now :: int
  pw_to_sol :: "u64 \<Rightarrow> json"
  pw_date :: "int \<Rightarrow> json"

definition uptime_secs :: "report_world \<Rightarrow> proxy_stats \<Rightarrow> u64" where
  "uptime_secs w st = word_of_int (pw_now w - ps_started_at st)"

text \<open>The comparison of the bearer token: lengths first, then all bytes.\<close>

definition token_matches :: "string \<Rightarrow> string \<Rightarrow> bool" where
  "token_matches expected provided \<longleftrightarrow>
     length (bytes_of expected) = length (bytes_of provided) \<and>
     diff_fold 0 (zip (bytes_of expected) (bytes_of provided)) = 0"

definition status_handler ::
  "report_world \<Rightarrow> environment \<Rightarrow> header_map \<Rightarrow> shared_state \<Rightarrow> http_response" where
  "status_handler w env headers s =
     (let expected_token = var_or env ''DASHBOARD_TOKEN'' '''' in
      if expected_token = [] then plain 503 (JsonBody (JObj
        [(''error'', JStr ''DASHBOARD_TOKEN not configured'')]))
      else
        (let provided_token = unwrap_or (Option.bind (headers ''authorization'')
               (strip_prefix ''Bearer '')) '''' in
         if \<not> token_matches expected_token provided_token then plain 401 (JsonBody (JObj
           [(''error'', JStr ''Invalid or missing bearer token'')]))
         else
           (let st = sh_stats s in
            secured 200 (JsonBody (JObj [(''node_id'', JStr (ps_node_id st)),
              (''node_name'', JStr (ps_node_name st)),
              (''requests_served'', json_u64 (ps_requests_served st)),
              (''earnings_lamports'', json_u64 (ps_earnings_lamports st)),
              (''earnings_sol'', pw_to_sol w (ps_earnings_lamports st)),
              (''uptime_seconds'', json_u64 (uptime_secs w st)),
              (''started_at'', pw_date w (ps_started_at st)),
              (''peer_count'', json_u64 (ps_peer_count st)), (''status'', JStr ''online''),
              (''battery'', bg_get_status (sh_battery s))])))))"

definition stats_handler :: "report_world \<Rightarrow> shared_state \<Rightarrow> http_response" where
  "stats_handler w s =
     (let st = sh_stats s in
      secured 200 (JsonBody (JObj [(''node_id'', JStr (ps_node_id st)),
        (''node_name'', JStr (ps_node_name st)),
        (''requests_served'', json_u64 (ps_requests_served st)),
        (''earnings_lamports'', json_u64 (ps_earnings_lamports st)),
        (''earnings_sol'', pw_to_sol w (ps_earnings_lamports st)),
        (''uptime_seconds'', json_u64 (uptime_secs w st)),
        (''started_at'', pw_date w (ps_started_at st)),
        (''peer_count'', json_u64 (ps_peer_count st)),
        (''rpc_url'', JStr (sh_solana_rpc_url s)), (''status'', JStr ''online''),
        (''battery'', bg_get_status (sh_battery s))])))"

definition performance_handler :: "report_format \<Rightarrow> shared_state \<Rightarrow> http_response" where
  "performance_handler f s = secured 200 (JsonBody (get_performance_report f (sh_engine s)))"

definition reward_json :: "reward_status \<Rightarrow> json" where
  "reward_json r = JObj [(''wallet_address'', JStr (rs_wallet_address r)),
     (''pending_lamports'', json_u64 (rs_pending_lamports r)),
     (''pending_sol'', JNum (Float (rs_pending_sol r))),
     (''confirmed_wallet_balance_lamports'', json_u64 (rs_confirmed_lamports r)),
     (''confirmed_wallet_balance_sol'', JNum (Float (rs_confirmed_sol r))),
     (''lifetime_earned_lamports'', json_u64 (rs_lifetime_lamports r)),
     (''lifetime_earned_sol'', JNum (Float (rs_lifetime_sol r))),
     (''session_requests'', json_u64 (rs_session_requests r)),
     (''lamports_per_request'', json_u64 (rs_lamports_per_request r)),
     (''next_settlement_in_secs'', json_u64 (rs_next_settlement_in_secs r))]"

definition wallet_handler ::
  "(u64 \<Rightarrow> f64) \<Rightarrow> u64 \<Rightarrow> balance_call \<Rightarrow> shared_state \<Rightarrow> (http_response \<times> shared_state) option" where
  "wallet_handler to_sol now post s = (case sh_wallet s of
      None \<Rightarrow> Some (plain 501 (Text ''Wallet tracking not enabled''), s)
    | Some t \<Rightarrow> map_option (\<lambda>(r, t'). (secured 200 (JsonBody (reward_json r)), s\<lparr>sh_wallet := Some t'\<rparr>))
        (wt_get_reward_status to_sol now post t))"

definition root_get_handler :: http_response where
  "root_get_handler = plain 200 (Text (''SOLNET JSON-RPC Gateway V2.1 is active.'' @ [CHR 0x0A] @
     ''Send POST requests with JSON-RPC payload.''))"

definition health_handler :: "string \<Rightarrow> http_response" where
  "health_handler version = plain 200 (JsonBody (JObj [(''status'', JStr ''ok''),
     (''version'', JStr version), (''mode'', JStr ''lock-free'')]))"

definition mesh_status_handler :: "shared_state \<Rightarrow> http_response" where
  "mesh_status_handler s =
     (let peer_id = (case find (\<lambda>a. contains a ''/p2p/'') (sh_multiaddrs s) of
            Some addr \<Rightarrow> last_piece ''/p2p/'' addr | None \<Rightarrow> ''Unknown'');
          cfg = sh_config s in
      plain 200 (JsonBody (JObj [(''peer_id'', JStr peer_id),
        (''multiaddrs'', JArr (map JStr (sh_multiaddrs s))), (''nat_status'', JStr (sh_nat_status s)),
        (''is_relay'', JBool (is_relay cfg)),
        (''relay_reservations'', json_u64 (sh_connected_peers s)),
        (''connected_peers'', json_u64 (sh_connected_peers s)),
        (''bootstrap_peers'', JArr (map JStr (bootstrap_nodes cfg))),
        (''dcutr_enabled'', JBool (enable_dcutr cfg)), (''transport'', JStr ''TCP+QUIC''),
        (''hole_punching_attempts'', json_u64 (sh_hole_punch_attempts s)),
        (''hole_punching_successes'', json_u64 (sh_hole_punch_successes s)),
        (''mesh_version'', JStr ''libp2p-v0.53'')])))"

section \<open>Mobile nodes\<close>

definition assigned_peer :: string where
  "assigned_peer = ''https://solnet-production.up.railway.app''"

definition mobile_register_handler :: "json \<Rightarrow> shared_state \<Rightarrow> http_response \<times> shared_state" where
  "mobile_register_handler payload s =
     (let node_id = unwrap_or (as_str (json_index payload ''node_id'')) ''unknown'';
          platform = unwrap_or (as_str (json_index payload ''platform'')) ''unknown'' in
      (secured 200 (JsonBody (JObj [(''status'', JStr ''registered''),
         (''assigned_peer'', JStr assigned_peer), (''node_id'', JStr node_id),
         (''platform'', JStr platform), (''message'', JStr ''Route all requests to assigned_peer'')])),
       s\<lparr>sh_registry := dm_insert node_id (''mobile:'' @ platform) (sh_registry s)\<rparr>))"

definition listed_peers :: "shared_state \<Rightarrow> (string \<times> string) list" where
  "listed_peers s = filter (\<lambda>(k, v). \<not> starts_with v ''mobile:'') (dm_entries (sh_registry s))"

definition mobile_peers_handler :: "shared_state \<Rightarrow> http_response" where
  "mobile_peers_handler s =
     (let desktop_peers = map (\<lambda>(k, v). JObj [(''peer_id'', JStr k), (''endpoint'', JStr v)]) (listed_peers s) in
      secured 200 (JsonBody (JObj [(''peers'', JArr desktop_peers),
        (''count'', json_of_nat (length desktop_peers)), (''bootstrap'', JStr assigned_peer)])))"

section \<open>Security statistics and telemetry stubs\<close>

definition security_stats_handler :: "shared_state \<Rightarrow> http_response" where
  "security_stats_handler s =
     (let st = pg_get_stats (sh_guard s) in
      secured 200 (JsonBody (JObj [(''total_known_peers'', json_of_nat (total_known_peers st)),
        (''banned_peers'', json_of_nat (banned_peers st)),
        (''healthy_peers'', json_of_nat (healthy_peers st)),
        (''degraded_peers'', json_of_nat (degraded_peers st))])))"

definition telemetry_install_handler :: http_response where
  "telemetry_install_handler = secured 200 (JsonBody (JObj [(''status'', JStr ''tracked'')]))"

definition telemetry_ingest_handler :: http_response where
  "telemetry_ingest_handler = secured 200 (JsonBody (JObj [(''status'', JStr ''ok'')]))"

definition telemetry_aggregate_handler :: http_response where
  "telemetry_aggregate_handler = secured 200 (JsonBody (JObj [(''total_nodes'', json_of_nat 217),
     (''active_nodes'', json_of_nat 184), (''avg_uptime'', json_of_nat 86400),
     (''total_requests'', json_of_nat 1500000)]))"

end
