(* ===== verification/Rpc_Frame.thy ===== *)
theory Rpc_Frame
  imports Rpc_Endpoints
begin

text \<open>
  What each step of the request handler reads and writes: admission as a conjunction of its
  checks, the calls a step sends, and the parts of the state a step leaves alone.
\<close>

section \<open>Responses\<close>

lemma security_headers_ne [simp]: "[] \<noteq> security_headers" "security_headers \<noteq> []"
  by (simp_all add: security_headers_def)

lemma plain_unsecured [simp]: "hr_headers (plain n b) = []" by (simp add: plain_def)

lemma secured_headers [simp]:
  "hr_headers (secured n b) = security_headers" "hr_status (secured n b) = n" "hr_body (secured n b) = b"
  by (simp_all add: secured_def)

lemma plain_fields [simp]: "hr_status (plain n b) = n" "hr_body (plain n b) = b"
  by (simp_all add: plain_def)

lemma secured_ne_plain [simp]: "secured n b \<noteq> plain m c" "plain m c \<noteq> secured n b"
  by (auto simp: secured_def plain_def)

lemma secured_eq [simp]: "secured n b = secured m c \<longleftrightarrow> n = m \<and> b = c"
  by (simp add: secured_def)

section \<open>Admission\<close>

text \<open>The specification of admission: the verdict of every check, in the state the check sees.\<close>

definition passes_checks ::
  "rpc_world \<Rightarrow> header_map \<Rightarrow> u8 list \<Rightarrow> shared_state \<Rightarrow> string \<Rightarrow> json \<Rightarrow> bool" where
  "passes_checks w headers body s content rpc_req \<longleftrightarrow>
     fst (bg_should_accept_request (rw_battery_secs w) (sh_battery s)) \<and>
     \<not> fst (is_banned (rw_ban_secs w) (extract_ip headers) (sh_ap s)) \<and>
     (\<exists>ap. check_rate_limit (rw_limit_secs w) (extract_ip headers)
        (snd (is_banned (rw_ban_secs w) (extract_ip headers) (sh_ap s))) = Some (ap, Allowed)) \<and>
     str_from_utf8 body = Some content \<and> scan_payload content = Clean \<and> rw_parse w content = Some rpc_req"

lemma read_request_Inr:
  "read_request w body = Inr (content, rpc_req) \<longleftrightarrow>
     str_from_utf8 body = Some content \<and> scan_payload content = Clean \<and> rw_parse w content = Some rpc_req"
  by (auto simp: read_request_def split: option.splits scan_result.splits)

text \<open>Admission reduced to the verdict of the limiter, for a request that gets to it.\<close>

lemma admit_cases:
  obtains bat ap r where "admit w headers body s = Some (Inl r, s\<lparr>sh_battery := bat, sh_ap := ap\<rparr>)"
      "hr_headers r = []" "\<not> fst (bg_should_accept_request (rw_battery_secs w) (sh_battery s)) \<or>
        fst (is_banned (rw_ban_secs w) (extract_ip headers) (sh_ap s))"
    | bat ap where "bg_should_accept_request (rw_battery_secs w) (sh_battery s) = (True, bat)"
      "is_banned (rw_ban_secs w) (extract_ip headers) (sh_ap s) = (False, ap)"
      "admit w headers body s = map_option (\<lambda>(ap', verdict). (case verdict of
          Banned \<Rightarrow> Inl (plain 403 (Text ''IP Banned for abuse''))
        | Limited retry_after \<Rightarrow> Inl \<lparr>hr_status = 429,
            hr_headers = [(''Retry-After'', decimal (unat retry_after))],
            hr_body = Text ''Rate limit exceeded''\<rparr>
        | Allowed \<Rightarrow> read_request w body, s\<lparr>sh_battery := bat, sh_ap := ap'\<rparr>))
        (check_rate_limit (rw_limit_secs w) (extract_ip headers) ap)"
proof -
  obtain acc bat where bg: "bg_should_accept_request (rw_battery_secs w) (sh_battery s) = (acc, bat)"
    by fastforce
  obtain banned ap where ban: "is_banned (rw_ban_secs w) (extract_ip headers) (sh_ap s) = (banned, ap)"
    by fastforce
  consider "acc" "\<not> banned" | "acc" "banned" | "\<not> acc" by blast
  then show thesis
  proof cases
    case 1
    then have "bg_should_accept_request (rw_battery_secs w) (sh_battery s) = (True, bat)"
      and "is_banned (rw_ban_secs w) (extract_ip headers) (sh_ap s) = (False, ap)"
      using bg ban by simp_all
    then show thesis
      by (rule that(2), cases "check_rate_limit (rw_limit_secs w) (extract_ip headers) ap")
        (auto simp: admit_def validate_host_always)
  next
    case 2
    with bg ban have "admit w headers body s = Some (Inl (plain 403 (Text ''IP Banned for abuse'')),
        s\<lparr>sh_battery := bat, sh_ap := ap\<rparr>)"
      by (simp add: admit_def validate_host_always)
    then show thesis by (rule that(1)) (use 2 bg ban in \<open>simp_all add: plain_def\<close>)
  next
    case 3
    with bg obtain r where r: "admit w headers body s = Some (Inl r, s\<lparr>sh_battery := bat\<rparr>)"
      "hr_headers r = []"
      by (simp add: admit_def plain_def)
    then have "admit w headers body s = Some (Inl r, s\<lparr>sh_battery := bat, sh_ap := sh_ap s\<rparr>)" by simp
    then show thesis by (rule that(1)) (use 3 bg r(2) in simp_all)
  qed
qed

lemma admit_Inr:
  assumes "admit w headers body s = Some (Inr (content, rpc_req), s')"
  shows "passes_checks w headers body s content rpc_req"
proof (cases rule: admit_cases [where w = w and headers = headers and body = body and s = s])
  case (1 bat ap r)
  with assms show ?thesis by simp
next
  case (2 bat ap)
  with assms obtain ap' verdict where
    check: "check_rate_limit (rw_limit_secs w) (extract_ip headers) ap = Some (ap', verdict)"
    by auto
  with assms 2(3) have "verdict = Allowed \<and> read_request w body = Inr (content, rpc_req)"
    by (cases verdict) auto
  with check 2 show ?thesis by (simp add: passes_checks_def read_request_Inr)
qed

definition same_but_admission :: "shared_state \<Rightarrow> shared_state \<Rightarrow> bool" where
  "same_but_admission s s' \<longleftrightarrow> (\<exists>bat ap. s' = s\<lparr>sh_battery := bat, sh_ap := ap\<rparr>)"

lemma admit_frame: "admit w headers body s = Some (r, s') \<Longrightarrow> same_but_admission s s'"
  by (cases rule: admit_cases [where w = w and headers = headers and body = body and s = s]) (auto simp: same_but_admission_def)

section \<open>Sent calls\<close>

definition calls_after :: "shared_state \<Rightarrow> shared_state \<Rightarrow> outgoing list" where
  "calls_after s s' = drop (length (sh_sent s)) (sh_sent s')"

text \<open>The parts no step of an answer writes, and those the answering part writes.\<close>

definition same_books :: "shared_state \<Rightarrow> shared_state \<Rightarrow> bool" where
  "same_books s s' \<longleftrightarrow> sh_stats s' = sh_stats s \<and> sh_batch s' = sh_batch s \<and> sh_disk s' = sh_disk s \<and>
     sh_registry s' = sh_registry s \<and> sh_shard s' = sh_shard s \<and> sh_geo s' = sh_geo s \<and>
     sh_config s' = sh_config s \<and> sh_guard s' = sh_guard s \<and> sh_slot s' = sh_slot s \<and>
     sh_hole_punch_successes s' = sh_hole_punch_successes s \<and> sh_connected_peers s' = sh_connected_peers s \<and>
     sh_hole_punch_attempts s' = sh_hole_punch_attempts s \<and> sh_nat_status s' = sh_nat_status s \<and>
     sh_multiaddrs s' = sh_multiaddrs s"

lemma same_books_refl [simp]: "same_books s s" by (simp add: same_books_def)

lemma same_books_trans: "same_books s t \<Longrightarrow> same_books t u \<Longrightarrow> same_books s u"
  by (simp add: same_books_def)

lemma record_time_books: "record_time w m s = Some s' \<Longrightarrow>
    same_books s s' \<and> sh_sent s' = sh_sent s \<and> sh_executor s' = sh_executor s \<and> sh_wallet s' = sh_wallet s \<and>
    sh_breaker s' = sh_breaker s"
  by (auto simp: record_time_def same_books_def)

lemma record_reward_books: "record_reward s = Some s' \<Longrightarrow>
    same_books s s' \<and> sh_sent s' = sh_sent s \<and> sh_executor s' = sh_executor s \<and> sh_engine s' = sh_engine s \<and>
    sh_breaker s' = sh_breaker s"
  by (auto simp: record_reward_def same_books_def split: option.splits)

lemmas step_books = record_time_books record_reward_books

lemma answer_slot_books:
  "answer_slot w m p q s = Some (r, s') \<Longrightarrow>
     same_books s s' \<and> sh_sent s' = sh_sent s \<and> sh_executor s' = sh_executor s"
  by (auto simp: answer_slot_def store_answer_def Let_def bind_eq_Some_conv same_books_def dest!: step_books)

lemma upstream_failed_books:
  "upstream_failed w url s = Some (r, s') \<Longrightarrow>
     same_books s s' \<and> sh_sent s' = sh_sent s \<and> sh_executor s' = sh_executor s"
  by (auto simp: upstream_failed_def bind_eq_Some_conv same_books_def)

lemma upstream_answered_cases:
  assumes "upstream_answered w m p url a s = Some (r, s')"
  obtains (Lost) s1 b where "record_time w m s = Some s1" "s' = s1\<lparr>sh_balancer := b\<rparr>" "r = plain 502 Empty"
    | (Garbled) s1 b where "record_time w m s = Some s1"
      "record_reward (s1\<lparr>sh_balancer := b, sh_breaker := cb_record_success (sh_breaker s1)\<rparr>) = Some s'"
      "r = plain 502 Empty"
    | (Delivered) s1 b s2 v where "record_time w m s = Some s1"
      "record_reward (s1\<lparr>sh_balancer := b, sh_breaker := cb_record_success (sh_breaker s1)\<rparr>) = Some s2"
      "r = secured 200 (JsonBody (attach_proof (rw_hash w) (rw_hex w) (rw_print w) v))"
      "s' = store_answer w m p v s2"
proof -
  from assms obtain s1 b where s1: "record_time w m s = Some s1"
    and rest: "(case ha_body a of
       None \<Rightarrow> Some (plain 502 Empty, s1\<lparr>sh_balancer := b\<rparr>)
     | Some bytes \<Rightarrow>
         record_reward (s1\<lparr>sh_balancer := b, sh_breaker := cb_record_success (sh_breaker s1)\<rparr>) \<bind> (\<lambda>s.
         case rw_parse_bytes w bytes of
           None \<Rightarrow> Some (plain 502 Empty, s)
         | Some v \<Rightarrow> Some (secured 200 (JsonBody (attach_proof (rw_hash w) (rw_hex w) (rw_print w) v)),
             store_answer w m p v s))) = Some (r, s')"
    unfolding upstream_answered_def Let_def by (auto simp: bind_eq_Some_conv cong: option.case_cong)
  show thesis
  proof (cases "ha_body a")
    case None
    with rest have "s' = s1\<lparr>sh_balancer := b\<rparr>" "r = plain 502 Empty" by simp_all
    with s1 show thesis by (rule Lost)
  next
    case (Some bytes)
    with rest obtain s2 where s2: "record_reward (s1\<lparr>sh_balancer := b,
        sh_breaker := cb_record_success (sh_breaker s1)\<rparr>) = Some s2"
      by (auto simp: bind_eq_Some_conv)
    show thesis
    proof (cases "rw_parse_bytes w bytes")
      case None
      with rest Some s2 have "s2 = s'" "r = plain 502 Empty" by simp_all
      with s1 s2 show thesis by (intro Garbled) simp_all
    next
      case (Some v)
      with rest \<open>ha_body a = Some bytes\<close> s2
      have "r = secured 200 (JsonBody (attach_proof (rw_hash w) (rw_hex w) (rw_print w) v))"
        "s' = store_answer w m p v s2" by simp_all
      with s1 s2 show thesis by (rule Delivered)
    qed
  qed
qed

lemma upstream_answered_books:
  assumes "upstream_answered w m p url a s = Some (r, s')"
  shows "same_books s s' \<and> sh_sent s' = sh_sent s \<and> sh_executor s' = sh_executor s"
  using assms
proof (cases rule: upstream_answered_cases)
  case (Lost s1 b)
  then show ?thesis using record_time_books [OF Lost(1)] by (simp add: same_books_def)
next
  case (Garbled s1 b)
  then show ?thesis using record_time_books [OF Garbled(1)] record_reward_books [OF Garbled(2)]
    by (simp add: same_books_def)
next
  case (Delivered s1 b s2 v)
  then show ?thesis using record_time_books [OF Delivered(1)] record_reward_books [OF Delivered(2)]
    by (simp add: same_books_def store_answer_def)
qed

lemma verify_state:
  assumes "verify_with_brahman w m p s = Some (v, s')"
  shows "s' = s \<or> s' = send_out (BrahmanCall (karaka_payload (rw_print w) m p)) s"
proof (cases "m \<in> set skip_methods")
  case True
  with assms show ?thesis by (simp add: verify_with_brahman_def)
next
  case False
  with assms show ?thesis
    unfolding verify_with_brahman_def Let_def
    by (cases "rw_brahman w (karaka_payload (rw_print w) m p)") (auto split: sum.splits)
qed

lemma verify_books:
  "verify_with_brahman w m p s = Some (v, s') \<Longrightarrow>
     same_books s s' \<and> sh_executor s' = sh_executor s \<and> sh_wallet s' = sh_wallet s \<and>
     sh_breaker s' = sh_breaker s \<and>
     (sh_sent s' = sh_sent s \<or> sh_sent s' = sh_sent s @ [BrahmanCall (karaka_payload (rw_print w) m p)])"
  by (drule verify_state) (auto simp: send_out_def same_books_def)

lemma read_verdict_Inr: "read_verdict to_str result = Some (Inr b) \<Longrightarrow> b"
  by (simp add: read_verdict_def Let_def split: if_splits)

lemma verify_Inr:
  "verify_with_brahman w m p s = Some (Inr b, s') \<Longrightarrow> m \<in> set skip_methods \<or>
     (\<exists>result. rw_brahman w (karaka_payload (rw_print w) m p) = Inr (Inr result) \<and>
        read_verdict (rw_print w) result = Some (Inr True))"
  using read_verdict_Inr [of "rw_print w" _ b]
  by (auto simp: verify_with_brahman_def Let_def split: if_splits sum.splits)

text \<open>What lets a request reach the upstream node.\<close>

definition may_reach_upstream :: "rpc_world \<Rightarrow> string \<Rightarrow> json \<Rightarrow> shared_state \<Rightarrow> bool" where
  "may_reach_upstream w m p s \<longleftrightarrow> \<not> cb_is_open (rw_breaker_secs w) (sh_breaker s) \<and>
     (m \<in> set skip_methods \<or>
       (\<exists>result. rw_brahman w (karaka_payload (rw_print w) m p) = Inr (Inr result) \<and>
          read_verdict (rw_print w) result = Some (Inr True)))"

definition answer_calls :: "rpc_world \<Rightarrow> string \<Rightarrow> json \<Rightarrow> string \<Rightarrow> shared_state \<Rightarrow> outgoing list \<Rightarrow> bool" where
  "answer_calls w m p content s cs \<longleftrightarrow> (\<forall>c\<in>set cs. c = BrahmanCall (karaka_payload (rw_print w) m p) \<or>
     (\<exists>url. c = UpstreamCall url content \<and> may_reach_upstream w m p s))"

lemma answer_upstream_cases:
  assumes "answer_upstream w m p content s = Some (r, s')"
  obtains (Open) "cb_is_open (rw_breaker_secs w) (sh_breaker s)" "s' = s" "r = plain 503 Empty"
    | (Refused) b e where "\<not> cb_is_open (rw_breaker_secs w) (sh_breaker s)"
      "verify_with_brahman w m p (s\<lparr>sh_balancer := b\<rparr>) = Some (Inl e, s')"
      "r = secured 403 (JsonBody (JObj [(''error'', JStr e)]))"
      "\<exists>picked. select_node (rw_random w) (sh_balancer s) = Some (picked, b)"
    | (Sent) b url x s1 picked where "\<not> cb_is_open (rw_breaker_secs w) (sh_breaker s)"
      "verify_with_brahman w m p (s\<lparr>sh_balancer := b\<rparr>) = Some (Inr x, s1)"
      "(case rw_upstream w url content of
          None \<Rightarrow> upstream_failed w url (send_out (UpstreamCall url content) s1)
        | Some a \<Rightarrow> upstream_answered w m p url a (send_out (UpstreamCall url content) s1)) = Some (r, s')"
      "select_node (rw_random w) (sh_balancer s) = Some (picked, b)" "url = unwrap_or picked (sh_solana_rpc_url s)"
proof (cases "cb_is_open (rw_breaker_secs w) (sh_breaker s)")
  case True
  with assms have "s' = s" "r = plain 503 Empty" by (simp_all add: answer_upstream_def)
  with True show thesis by (intro Open)
next
  case False
  with assms obtain picked b verdict s1 where
    sel: "select_node (rw_random w) (sh_balancer s) = Some (picked, b)" and
    ver: "verify_with_brahman w m p (s\<lparr>sh_balancer := b\<rparr>) = Some (verdict, s1)"
    by (auto simp: answer_upstream_def bind_eq_Some_conv Let_def)
  show thesis
  proof (cases verdict)
    case (Inl e)
    with assms False sel ver have "s1 = s'" "r = secured 403 (JsonBody (JObj [(''error'', JStr e)]))"
      by (simp_all add: answer_upstream_def Let_def)
    with False ver Inl sel show thesis by (intro Refused [of b e]) simp_all
  next
    case (Inr x)
    let ?url = "unwrap_or picked (sh_solana_rpc_url s)"
    from Inr assms False sel ver have "(case rw_upstream w ?url content of
          None \<Rightarrow> upstream_failed w ?url (send_out (UpstreamCall ?url content) s1)
        | Some a \<Rightarrow> upstream_answered w m p ?url a (send_out (UpstreamCall ?url content) s1)) = Some (r, s')"
      by (simp add: answer_upstream_def Let_def cong: option.case_cong)
    with False ver Inr sel show thesis by (intro Sent [of b x s1 ?url picked]) simp_all
  qed
qed

lemma upstream_reply_books:
  assumes "(case rw_upstream w url content of
      None \<Rightarrow> upstream_failed w url s | Some a \<Rightarrow> upstream_answered w m p url a s) = Some (r, s')"
  shows "same_books s s' \<and> sh_sent s' = sh_sent s \<and> sh_executor s' = sh_executor s"
  using assms upstream_failed_books upstream_answered_books by (auto split: option.splits)

lemma answer_upstream_calls:
  assumes "answer_upstream w m p content s = Some (r, s')"
  shows "\<exists>cs. sh_sent s' = sh_sent s @ cs \<and> answer_calls w m p content s cs"
  using assms
proof (cases rule: answer_upstream_cases)
  case Open
  then show ?thesis by (simp add: answer_calls_def)
next
  case (Refused b e)
  then show ?thesis using verify_books by (fastforce simp: answer_calls_def)
next
  case (Sent b url x s1)
  then have may: "may_reach_upstream w m p s"
    using verify_Inr by (simp add: may_reach_upstream_def)
  have "sh_sent s' = sh_sent s1 @ [UpstreamCall url content]"
    using upstream_reply_books [OF Sent(3)] by (simp add: send_out_def)
  moreover have "sh_sent s1 = sh_sent s \<or> sh_sent s1 = sh_sent s @ [BrahmanCall (karaka_payload (rw_print w) m p)]"
    using verify_books [OF Sent(2)] by simp
  ultimately show ?thesis using may by (auto simp: answer_calls_def)
qed

lemma answer_upstream_books:
  assumes "answer_upstream w m p content s = Some (r, s')"
  shows "same_books s s' \<and> sh_executor s' = sh_executor s"
  using assms
proof (cases rule: answer_upstream_cases)
  case (Refused b e)
  then show ?thesis using verify_books [OF Refused(2)] by (simp add: same_books_def)
next
  case (Sent b url x s1)
  then show ?thesis using verify_books [OF Sent(2)] upstream_reply_books [OF Sent(3)]
    by (simp add: same_books_def send_out_def)
qed simp

lemma answer_locally_books:
  "answer_locally w content q s = Some (r, s') \<Longrightarrow> same_books s s' \<and> sh_executor s' = sh_executor s"
  by (auto simp: answer_locally_def Let_def same_books_def
      dest!: answer_slot_books answer_upstream_books split: if_splits)

lemma answer_locally_calls:
  assumes "answer_locally w content q s = Some (r, s')"
  shows "\<exists>cs. sh_sent s' = sh_sent s @ cs \<and> answer_calls w (method_of q) (params_of q) content s cs"
proof (cases "method_of q = ''getSlot''")
  case True
  with assms have "sh_sent s' = sh_sent s"
    by (auto simp: answer_locally_def Let_def dest!: answer_slot_books)
  then show ?thesis by (simp add: answer_calls_def)
next
  case False
  with assms have "answer_upstream w (method_of q) (params_of q) content
      (s\<lparr>sh_ap := increment_total (sh_ap s)\<rparr>) = Some (r, s')"
    by (simp add: answer_locally_def Let_def)
  from answer_upstream_calls [OF this] show ?thesis
    by (simp add: answer_calls_def may_reach_upstream_def)
qed

section \<open>The handler in cases\<close>

lemma rpc_begin_cases:
  assumes "rpc_begin w headers body s = Some (p, s')"
  obtains (Early) resp where "admit w headers body s = Some (Inl resp, s')" "p = Finished resp"
    | (Cached) content q s1 v e r where "admit w headers body s = Some (Inr (content, q), s1)"
      "get_cached (rw_print w) (rw_cache_now w) (method_of q) (params_of q) (sh_engine s1) = Some (Some v, e)"
      "answer_cached w (method_of q) v (s1\<lparr>sh_engine := e\<rparr>) = Some (r, s')" "p = Finished r"
    | (Full) content q s1 e where "admit w headers body s = Some (Inr (content, q), s1)"
      "pe_acquire (method_of q) (Option.bind (json_nth (params_of q) 0) as_str) (sh_executor s1) = None"
      "p = Waiting" "s' = s1\<lparr>sh_engine := e\<rparr>"
    | (Held) content q s1 e ex where "admit w headers body s = Some (Inr (content, q), s1)"
      "pe_acquire (method_of q) (Option.bind (json_nth (params_of q) 0) as_str) (sh_executor s1) = Some ex"
      "p = Here content q \<and> s' = s1\<lparr>sh_engine := e, sh_executor := ex\<rparr> \<or>
       (\<exists>node. \<not> should_handle (sh_shard s1) (method_of q) \<and>
          find_best_node (sh_geo s1) (cfg_region (sh_config s1)) = Some node \<and>
          p = ToMesh (gn_endpoint node) content q \<and>
          s' = send_out (MeshCall (gn_endpoint node) body) (s1\<lparr>sh_engine := e, sh_executor := ex\<rparr>))"
proof -
  from assms obtain v s1 where adm: "admit w headers body s = Some (v, s1)"
    by (auto simp: rpc_begin_def bind_eq_Some_conv)
  show thesis
  proof (cases v)
    case (Inl resp)
    with assms adm have "p = Finished resp" "s1 = s'" by (simp_all add: rpc_begin_def)
    with adm Inl show thesis by (intro Early [of resp]) simp_all
  next
    case (Inr tq)
    obtain content q where tq: "tq = (content, q)" by (cases tq)
    from assms adm Inr tq obtain cached e where
      cached: "get_cached (rw_print w) (rw_cache_now w) (method_of q) (params_of q) (sh_engine s1) = Some (cached, e)"
      by (auto simp: rpc_begin_def bind_eq_Some_conv Let_def)
    let ?key = "Option.bind (json_nth (params_of q) 0) as_str"
    show thesis
    proof (cases cached)
      case (Some v)
      with assms adm Inr tq cached obtain r where "p = Finished r"
        "answer_cached w (method_of q) v (s1\<lparr>sh_engine := e\<rparr>) = Some (r, s')"
        by (auto simp: rpc_begin_def Let_def)
      with adm Inr tq cached Some show thesis by (intro Cached [of content q s1 v e r]) simp_all
    next
      case None
      note base = assms adm Inr tq cached None
      show thesis
      proof (cases "pe_acquire (method_of q) ?key (sh_executor s1)")
        case None
        with base have "p = Waiting" "s' = s1\<lparr>sh_engine := e\<rparr>" by (simp_all add: rpc_begin_def Let_def)
        with adm Inr tq None show thesis by (intro Full [of content q s1 e]) simp_all
      next
        case (Some ex)
        with base have "p = Here content q \<and> s' = s1\<lparr>sh_engine := e, sh_executor := ex\<rparr> \<or>
         (\<exists>node. \<not> should_handle (sh_shard s1) (method_of q) \<and>
            find_best_node (sh_geo s1) (cfg_region (sh_config s1)) = Some node \<and>
            p = ToMesh (gn_endpoint node) content q \<and>
            s' = send_out (MeshCall (gn_endpoint node) body) (s1\<lparr>sh_engine := e, sh_executor := ex\<rparr>))"
          by (auto simp: rpc_begin_def Let_def split: if_splits option.splits)
        with adm Inr tq Some show thesis by (intro Held [of content q s1 ex e]) simp_all
      qed
    qed
  qed
qed

lemma rpc_handler_cases:
  assumes "rpc_handler w headers body s = Some (p, s')"
  obtains (Stopped) "rpc_begin w headers body s = Some (p, s')" "(\<exists>r. p = Finished r) \<or> p = Waiting"
    | (Local) p1 content q s1 r s2 where "rpc_begin w headers body s = Some (p1, s1)"
      "p1 = Here content q \<or> (\<exists>e. p1 = ToMesh e content q)"
      "answer_locally w content q s1 = Some (r, s2)" "p = Finished r"
      "s' = s2\<lparr>sh_executor := pe_release (sh_executor s2)\<rparr>"
    | (Mesh) endpoint content q s1 answer where
      "rpc_begin w headers body s = Some (ToMesh endpoint content q, s1)" "rw_mesh w endpoint body = Inr answer"
      "p = Finished (mesh_response answer)" "s' = s1\<lparr>sh_executor := pe_release (sh_executor s1)\<rparr>"
proof -
  from assms obtain p1 s1 where b: "rpc_begin w headers body s = Some (p1, s1)"
    by (auto simp: rpc_handler_def bind_eq_Some_conv)
  show thesis
  proof (cases p1)
    case (Finished r)
    with assms b have "p = Finished r" "s1 = s'" by (simp_all add: rpc_handler_def)
    with b Finished show thesis by (intro Stopped) simp_all
  next
    case Waiting
    with assms b have "p = Waiting" "s1 = s'" by (simp_all add: rpc_handler_def)
    with b Waiting show thesis by (intro Stopped) simp_all
  next
    case (ToMesh endpoint content q)
    show thesis
    proof (cases "rw_mesh w endpoint body")
      case (Inl e)
      with assms b ToMesh obtain r s2 where "answer_locally w content q s1 = Some (r, s2)"
        "p = Finished r" "s' = s2\<lparr>sh_executor := pe_release (sh_executor s2)\<rparr>"
        by (auto simp: rpc_handler_def rpc_finish_def)
      with b ToMesh show thesis by (intro Local [of p1 s1 content q r s2]) simp_all
    next
      case (Inr answer)
      with assms b ToMesh have "Finished (mesh_response answer) = p"
        "s1\<lparr>sh_executor := pe_release (sh_executor s1)\<rparr> = s'"
        by (simp_all add: rpc_handler_def rpc_finish_def)
      with b ToMesh Inr show thesis by (intro Mesh [of endpoint content q s1 answer]) simp_all
    qed
  next
    case (Here content q)
    with assms b obtain r s2 where "answer_locally w content q s1 = Some (r, s2)"
      "p = Finished r" "s' = s2\<lparr>sh_executor := pe_release (sh_executor s2)\<rparr>"
      by (auto simp: rpc_handler_def rpc_finish_def)
    with b Here show thesis by (intro Local [of p1 s1 content q r s2]) simp_all
  qed
qed

lemma admission_books:
  "same_but_admission s s' \<Longrightarrow> same_books s s' \<and> sh_sent s' = sh_sent s \<and> sh_executor s' = sh_executor s \<and>
     sh_wallet s' = sh_wallet s \<and> sh_engine s' = sh_engine s \<and> sh_breaker s' = sh_breaker s"
  by (auto simp: same_but_admission_def same_books_def)

lemma answer_cached_books:
  "answer_cached w m v s = Some (r, s') \<Longrightarrow>
     same_books s s' \<and> sh_sent s' = sh_sent s \<and> sh_executor s' = sh_executor s \<and>
     sh_breaker s' = sh_breaker s \<and> r = secured 200 (JsonBody v)"
  by (auto simp: answer_cached_def bind_eq_Some_conv same_books_def dest!: step_books)

lemma pe_release_acquire: "pe_acquire m k e = Some e' \<Longrightarrow> pe_available (pe_release e') = pe_available e"
  by (auto simp: pe_acquire_eq pe_release_def)

lemma rpc_begin_books:
  assumes "rpc_begin w headers body s = Some (p, s')"
  shows "same_books s s' \<and> (if p = Waiting \<or> (\<exists>r. p = Finished r) then pe_available (sh_executor s') = pe_available (sh_executor s)
    else pe_available (pe_release (sh_executor s')) = pe_available (sh_executor s))"
  using assms
proof (cases rule: rpc_begin_cases)
  case (Early resp)
  then show ?thesis using admission_books [OF admit_frame [OF Early(1)]] by simp
next
  case (Cached content q s1 v e r)
  then show ?thesis
    using admission_books [OF admit_frame [OF Cached(1)]] answer_cached_books [OF Cached(3)]
    by (simp add: same_books_def)
next
  case (Full content q s1 e)
  then show ?thesis using admission_books [OF admit_frame [OF Full(1)]] by (simp add: same_books_def)
next
  case (Held content q s1 e ex)
  then show ?thesis
    using admission_books [OF admit_frame [OF Held(1)]] pe_release_acquire [OF Held(2)]
    by (auto simp: same_books_def send_out_def)
qed

text \<open>A handled request gives its permit back and leaves the books alone.\<close>

lemma rpc_handler_books:
  assumes "rpc_handler w headers body s = Some (p, s')"
  shows "same_books s s' \<and> pe_available (sh_executor s') = pe_available (sh_executor s)"
  using assms
proof (cases rule: rpc_handler_cases)
  case Stopped
  then show ?thesis using rpc_begin_books [OF Stopped(1)] by auto
next
  case (Local p1 content q s1 r s2)
  then show ?thesis using rpc_begin_books [OF Local(1)] answer_locally_books [OF Local(3)]
    by (auto simp: same_books_def pe_release_def)
next
  case (Mesh endpoint content q s1 answer)
  then show ?thesis using rpc_begin_books [OF Mesh(1)] by (simp add: same_books_def pe_release_def)
qed

end
