(* ===== verification/Rpc_Node.thy ===== *)
theory Rpc_Node
  imports Rpc_Frame Device
begin

text \<open>
  The node as it is started: what \<open>boot\<close> fixes, the steps of the handler that succeed there,
  and a concrete node with concrete surroundings for the examples.
\<close>

section \<open>Steps that succeed\<close>

lemma admit_allowed:
  assumes "bg_untouched (sh_battery s)" and "dm_get (banned_ips (sh_ap s)) (extract_ip headers) = None"
    and "check_rate_limit (rw_limit_secs w) (extract_ip headers) (sh_ap s) = Some (ap, Allowed)"
    and "read_request w body = Inr x"
  shows "admit w headers body s =
    Some (Inr x, s\<lparr>sh_battery := snd (bg_should_accept_request (rw_battery_secs w) (sh_battery s)), sh_ap := ap\<rparr>)"
proof -
  obtain bat where "bg_should_accept_request (rw_battery_secs w) (sh_battery s) = (True, bat)"
    using bg_untouched_accepts [OF assms(1)] by (metis prod.collapse)
  with assms(2-4) show ?thesis by (simp add: admit_def validate_host_always is_banned_def)
qed

lemma rpc_begin_forward:
  assumes "admit w headers body s = Some (Inr (content, q), s1)"
    and "get_cached (rw_print w) (rw_cache_now w) (method_of q) (params_of q) (sh_engine s1) = Some (None, sh_engine s1)"
    and "pe_acquire (method_of q) (Option.bind (json_nth (params_of q) 0) as_str) (sh_executor s1) = Some ex"
    and "\<not> should_handle (sh_shard s1) (method_of q)"
    and "find_best_node (sh_geo s1) (cfg_region (sh_config s1)) = Some node"
  shows "rpc_begin w headers body s = Some (ToMesh (gn_endpoint node) content q,
    send_out (MeshCall (gn_endpoint node) body) (s1\<lparr>sh_executor := ex\<rparr>))"
  using assms by (simp add: rpc_begin_def)

lemma rpc_begin_full:
  assumes "admit w headers body s = Some (Inr (content, q), s1)"
    and "get_cached (rw_print w) (rw_cache_now w) (method_of q) (params_of q) (sh_engine s1) = Some (None, sh_engine s1)"
    and "pe_available (sh_executor s1) = 0"
  shows "rpc_begin w headers body s = Some (Waiting, s1)"
  using assms by (simp add: rpc_begin_def pe_acquire_def)

lemma get_cached_new: "get_cached to_str now m p le_new = Some (None, le_new)"
  by (simp add: get_cached_def le_new_def tier_cache_def Let_def)

text \<open>An address the limiter has counted at most 99 times is allowed once more.\<close>

lemma limiter_allows:
  assumes "\<forall>r. dm_get (ip_requests ap) ip = Some r \<longrightarrow> unat (ir_count r) \<le> k \<and> ir_window_start r \<le> now"
    and "k < 100"
  obtains r where "check_rate_limit now ip ap = Some (ap\<lparr>ip_requests := dm_insert ip r (ip_requests ap)\<rparr>, Allowed)"
    and "unat (ir_count r) \<le> Suc k" and "ir_window_start r \<le> now"
proof -
  let ?old = "dm_or_insert (ip_requests ap) ip \<lparr>ir_count = 0, ir_window_start = now, ir_last_seen = now\<rparr>"
  have old: "unat (ir_count ?old) \<le> k" "ir_window_start ?old \<le> now"
    using assms(1) by (auto simp: dm_or_insert_def split: option.splits)
  let ?r = "if 60 < now - ir_window_start ?old then ?old\<lparr>ir_count := 0, ir_window_start := now\<rparr> else ?old"
  have small: "unat (ir_count ?r) \<le> k" using old(1) by simp
  let ?new = "?r\<lparr>ir_count := ir_count ?r + 1, ir_last_seen := now\<rparr>"
  have sum: "unat (ir_count ?r) + unat (1::u64) < 2 ^ 64" using small assms(2) by simp
  have count: "unat (ir_count ?r + 1) = unat (ir_count ?r) + 1"
    using unat_add_exact [of "ir_count ?r" 1] sum by simp
  have touched: "touch now ?old = Some ?new"
    using old(2) sum by (simp add: touch_def checked_sub_SomeI checked_add_def Let_def)
  have "check_rate_limit now ip ap = Some (ap\<lparr>ip_requests := dm_insert ip ?new (ip_requests ap)\<rparr>, Allowed)"
    using touched count small assms(2) by (simp add: check_rate_limit_def word_less_nat_alt)
  moreover have "unat (ir_count ?new) \<le> Suc k" using count small by simp
  moreover have "ir_window_start ?new \<le> now" using old(2) by simp
  ultimately show thesis by (rule that)
qed

section \<open>A fresh node\<close>

lemma boot_fields:
  assumes "boot cfg pc te fresh_id batch_id started d = Some s"
  shows "sh_shard s = shard_router_new (cfg_shard_type cfg)" "sh_engine s = le_new" "sh_ap s = ap_new"
    "sh_geo s = geo_register_node (local_node cfg) (geo_router_new (cfg_region cfg))" "sh_config s = cfg"
    "sh_sent s = []" "bg_untouched (sh_battery s)"
    "sh_executor s = \<lparr>pe_account_locks = dm_new, pe_available = unat (max_concurrent_requests cfg)\<rparr>"
    "boot_wallet cfg = Some (sh_wallet s)" "sh_balancer s = lb_add_node (solana_rpc_url cfg) 100 (lb_new Adaptive)"
    "sh_solana_rpc_url s = solana_rpc_url cfg" "sh_breaker s = cb_new" "sh_registry s = dm_new"
    "zb_receipts (sh_batch s) = []" "sh_hole_punch_successes s = 0"
    "ps_requests_served (sh_stats s) = 0" "ps_earnings_lamports (sh_stats s) = 0" "ps_peer_count (sh_stats s) = 0"
  using assms by (auto simp: boot_def create_rpc_router_def bind_eq_Some_conv pe_new_def zb_new_def split: if_splits)

lemma local_node_alone:
  "geo_values (geo_register_node (local_node cfg) (geo_router_new r)) = [local_node cfg]"
  by (simp add: geo_values_def geo_register_node_def geo_router_new_def DAList.update.rep_eq
      DAList.empty.rep_eq)

text \<open>The best node of a fresh node is the node itself.\<close>

lemma best_node_is_local:
  "find_best_node (geo_register_node (local_node cfg) (geo_router_new (cfg_region cfg))) (cfg_region cfg) =
     Some (local_node cfg)"
  unfolding find_best_node_def local_node_alone by (simp add: local_node_def)

section \<open>A concrete node\<close>

lemma unat_of_char: "unat (of_char c :: u8) = of_char c"
proof -
  have "unat (of_nat (of_char c) :: u8) = of_char c"
    using nat_of_char_less_256 [of c]
    by (simp add: unat_of_nat take_bit_nat_eq_self_iff del: nat_of_char_less_256)
  then show ?thesis by (simp add: of_nat_of_char)
qed

lemma text_of_bytes: "text_of (bytes_of t) = t"
  by (simp add: text_of_def bytes_of_def o_def unat_of_char map_idI)

lemma str_from_utf8_ascii:
  "\<forall>c\<in>set t. (of_char c :: nat) < 128 \<Longrightarrow> str_from_utf8 (bytes_of t) = Some t"
  using valid_utf8_ascii [of "bytes_of t"] text_of_bytes [of t]
  by (simp add: str_from_utf8_def bytes_of_def unat_of_char)

definition example_world :: "u64 \<Rightarrow> rpc_world" where
  "example_world now = \<lparr>rw_battery_secs = now, rw_ban_secs = now, rw_limit_secs = now, rw_breaker_secs = now,
     rw_failure_secs = now, rw_cache_now = 0, rw_store_now = 0, rw_elapsed_us = 40, rw_random = 0,
     rw_parse = (\<lambda>text. if text = ''slot'' then Some (JObj [(''method'', JStr ''getSlot''), (''id'', JStr ''a'')])
       else if text = ''slot2'' then Some (JObj [(''method'', JStr ''getSlot''), (''id'', JStr ''b'')])
       else if text = ''send'' then Some (JObj [(''method'', JStr ''sendTransaction'')]) else None),
     rw_parse_bytes = (\<lambda>_. None), rw_print = (\<lambda>_. ''v''), rw_hash = id, rw_hex = hex_encode,
     rw_mesh = (\<lambda>_ _. Inl ''refused''), rw_brahman = (\<lambda>_. Inl ''refused''), rw_upstream = (\<lambda>_ _. None)\<rparr>"

definition example_env :: environment where
  "example_env = [''NODE_WALLET_PUBKEY'' \<mapsto> replicate 44 (CHR ''A''), ''MAX_CONCURRENT'' \<mapsto> ''2'']"

definition example_config :: config where
  "example_config = from_env example_env"

lemma example_config_fields:
  "node_wallet_pubkey example_config = replicate 44 (CHR ''A'')" "max_concurrent_requests example_config = 2"
  "cfg_shard_type example_config = General" "http_port example_config = 8080"
  using parsed_word_decimal [of example_env "''MAX_CONCURRENT''" "2::usize"] parse_8080
  by (simp_all add: example_config_def from_env_def example_env_def var_or_def shard_from_str_def
      decimal.simps hex_digits_def to_lowercase_def)

definition example_node :: shared_state where
  "example_node = the (boot example_config (get_config Linux (\<lambda>_. None))
     (te_new (\<lambda>_. None) ''2.1.2'' 0) ''n1'' ''b1'' 0 Map.empty)"

lemma example_boot:
  "boot example_config (get_config Linux (\<lambda>_. None)) (te_new (\<lambda>_. None) ''2.1.2'' 0) ''n1'' ''b1'' 0 Map.empty =
     Some example_node"
proof -
  obtain s where "boot example_config (get_config Linux (\<lambda>_. None)) (te_new (\<lambda>_. None) ''2.1.2'' 0)
      ''n1'' ''b1'' 0 Map.empty = Some s"
    by (simp add: boot_def boot_wallet_def wt_new_def example_config_fields pe_new_def)
  then show ?thesis by (simp add: example_node_def)
qed

lemmas example_node_fields = boot_fields [OF example_boot, unfolded example_config_fields]

end
