(* ===== verification/Rpc_Stale.thy ===== *)
theory Rpc_Stale
  imports Rpc_Node
begin

text \<open>
  The answer a node gives to \<open>getSlot\<close> from its own counter, and what the cache does with it.
\<close>

lemma passes_admitted:
  assumes "passes_checks w headers body s content q"
  obtains s' where "admit w headers body s = Some (Inr (content, q), s')" and "same_but_admission s s'"
proof (cases rule: admit_cases [where w = w and headers = headers and body = body and s = s])
  case (1 bat ap r)
  then show thesis using assms by (simp add: passes_checks_def)
next
  case (2 bat ap)
  then obtain ap' where "check_rate_limit (rw_limit_secs w) (extract_ip headers) ap = Some (ap', Allowed)"
    using assms by (auto simp: passes_checks_def)
  then have "admit w headers body s = Some (Inr (content, q), s\<lparr>sh_battery := bat, sh_ap := ap'\<rparr>)"
    using 2(3) assms by (simp add: passes_checks_def read_request_Inr [symmetric])
  then show thesis by (rule that) (auto simp: same_but_admission_def)
qed

lemma admission_shard: "same_but_admission s s' \<Longrightarrow> sh_shard s' = sh_shard s \<and> sh_slot s' = sh_slot s \<and> sh_wallet s' = sh_wallet s"
  by (auto simp: same_but_admission_def)

text \<open>A request that passes the checks and hits the cache is answered with the stored value.\<close>

lemma hit_answered:
  assumes "passes_checks w headers body s content q"
    and "get_cached (rw_print w) (rw_cache_now w) (method_of q) (params_of q) (sh_engine s) = Some (Some v, e)"
    and "rpc_handler w headers body s = Some (p, s')"
  shows "p = Finished (secured 200 (JsonBody v))"
proof -
  obtain s1 where s1: "admit w headers body s = Some (Inr (content, q), s1)" "same_but_admission s s1"
    by (rule passes_admitted [OF assms(1)])
  then have "sh_engine s1 = sh_engine s" using admission_books by blast
  with assms(2,3) s1(1) obtain r s2 where "answer_cached w (method_of q) v (s1\<lparr>sh_engine := e\<rparr>) = Some (r, s2)" "p = Finished r"
    by (auto simp: rpc_handler_def rpc_begin_def bind_eq_Some_conv Let_def)
  then show ?thesis using answer_cached_books by blast
qed

text \<open>A request that misses the cache and belongs to the node's shard is answered here.\<close>

lemma miss_answered:
  assumes "passes_checks w headers body s content q"
    and "get_cached (rw_print w) (rw_cache_now w) (method_of q) (params_of q) (sh_engine s) = Some (None, e)"
    and "should_handle (sh_shard s) (method_of q)"
    and "rpc_handler w headers body s = Some (Finished r, s')"
  obtains s1 s2 where "answer_locally w content q s1 = Some (r, s2)" "sh_slot s1 = sh_slot s"
    "sh_engine s2 = sh_engine s'"
proof -
  obtain s0 where s0: "admit w headers body s = Some (Inr (content, q), s0)" "same_but_admission s s0"
    by (rule passes_admitted [OF assms(1)])
  from s0(2) have same: "sh_engine s0 = sh_engine s" "sh_shard s0 = sh_shard s" "sh_slot s0 = sh_slot s"
    using admission_books [OF s0(2)] admission_shard [OF s0(2)] by simp_all
  show thesis
  proof (cases "pe_acquire (method_of q) (Option.bind (json_nth (params_of q) 0) as_str) (sh_executor s0)")
    case None
    with assms(2,4) s0(1) same show thesis by (simp add: rpc_handler_def rpc_begin_def)
  next
    case (Some ex)
    let ?s1 = "s0\<lparr>sh_engine := e, sh_executor := ex\<rparr>"
    from Some assms(2,3) s0(1) same have "rpc_begin w headers body s = Some (Here content q, ?s1)"
      by (simp add: rpc_begin_def)
    with assms(4) obtain s2 where "answer_locally w content q ?s1 = Some (r, s2)"
      "s' = s2\<lparr>sh_executor := pe_release (sh_executor s2)\<rparr>"
      by (auto simp: rpc_handler_def rpc_finish_def)
    then show thesis using same by (intro that [of ?s1 s2]) simp_all
  qed
qed

lemma slot_tier: "get_cache_tier ''getSlot'' = 1" "get_ttl ''getSlot'' = Some (millis 500)"
  by (simp_all add: get_cache_tier_def get_ttl_def L1_HOT_def NO_CACHE_def)

lemma slot_stored:
  assumes "now < stored + millis 500"
    and "get_cached to_str now ''getSlot'' p (set_cache to_str stored ''getSlot'' p v e) = Some (x, e')"
  shows "x = Some v"
proof -
  have "now - stored < millis 500" using assms(1) by (simp add: millis_def)
  with assms(2) show ?thesis
    by (auto simp: get_cached_def set_cache_def slot_tier tier_cache_def set_tier_cache_def lookup_update
        Let_def bind_eq_Some_conv)
qed

lemma answer_slot_stores:
  assumes "answer_slot w m p q s = Some (r, s')"
  obtains e where "r = secured 200 (JsonBody (slot_answer w q (sh_slot s)))"
    "sh_engine s' = set_cache (rw_print w) (rw_store_now w) m p (slot_answer w q (sh_slot s)) e"
proof -
  from assms obtain s1 where s1: "record_time w m s = Some s1"
    "record_reward (store_answer w m p (slot_answer w q (sh_slot s)) s1) = Some s'"
    "r = secured 200 (JsonBody (slot_answer w q (sh_slot s)))"
    by (auto simp: answer_slot_def bind_eq_Some_conv Let_def)
  then show thesis using record_reward_books [OF s1(2)]
    by (intro that [of "sh_engine s1"]) (simp_all add: store_answer_def)
qed

lemma slot_answer_fields:
  "json_get (slot_answer w q slot) ''id'' = Some (unwrap_or (json_get q ''id'') JNull)"
  "json_get (slot_answer w q slot) ''result'' = Some (JNum (PosInt slot))"
  by (simp_all add: slot_answer_def attach_proof_def generate_proof_def Let_def)


section \<open>The example node\<close>

lemma record_reward_total:
  assumes "sh_wallet s = Some t" and "unat (wt_pending_lamports t) < 2 ^ 63"
  obtains t' where "record_reward s = Some (s\<lparr>sh_wallet := Some t'\<rparr>)" and "wt_record_request t = Some t'"
proof -
  have "unat (wt_pending_lamports t) + unat (100::u64) < 2 ^ 64" using assms(2) by simp
  then have "wt_record_request t = Some (t\<lparr>wt_session_requests := wt_session_requests t + 1,
      wt_pending_lamports := wt_pending_lamports t + 100\<rparr>)"
    by (simp add: wt_record_request_def checked_add_def)
  with assms(1) show thesis by (intro that) (simp_all add: record_reward_def)
qed

text \<open>A first request for the slot, to a node with nothing cached.\<close>

lemma slot_served:
  assumes "admit w headers body s = Some (Inr (content, q), s1)" and "method_of q = ''getSlot''"
    and "sh_engine s1 = le_new" and "pe_available (sh_executor s1) \<noteq> 0" and "should_handle (sh_shard s1) ''getSlot''"
    and "sh_wallet s1 = Some t" and "unat (wt_pending_lamports t) < 2 ^ 63" and "rw_elapsed_us w = 40"
  obtains s' where "rpc_handler w headers body s = Some (Finished (secured 200 (JsonBody (slot_answer w q (sh_slot s1)))), s')"
    and "sh_ap s' = increment_total (sh_ap s1)" and "sh_battery s' = sh_battery s1"
    and "\<exists>e. record_latency ''getSlot'' 40 le_new = Some e \<and> sh_engine s' =
      set_cache (rw_print w) (rw_store_now w) ''getSlot'' (params_of q) (slot_answer w q (sh_slot s1)) e"
    and "\<exists>t'. sh_wallet s' = Some t' \<and> wt_record_request t = Some t'"
proof -
  obtain ex where ex: "pe_acquire ''getSlot'' (Option.bind (json_nth (params_of q) 0) as_str) (sh_executor s1) = Some ex"
    using assms(4) by (auto simp: pe_acquire_def Let_def)
  have start: "rpc_begin w headers body s = Some (Here content q, s1\<lparr>sh_executor := ex\<rparr>)"
    using assms(1-3,5) ex by (simp add: rpc_begin_def get_cached_new)
  obtain e where e: "record_latency ''getSlot'' 40 le_new = Some e"
    by (simp add: record_latency_def le_new_def dm_or_insert_def metrics_default_def checked_add_def Let_def)
  let ?s2 = "store_answer w ''getSlot'' (params_of q) (slot_answer w q (sh_slot s1))
    (s1\<lparr>sh_executor := ex, sh_ap := increment_total (sh_ap s1), sh_engine := e\<rparr>)"
  obtain t' where "record_reward ?s2 = Some (?s2\<lparr>sh_wallet := Some t'\<rparr>)" "wt_record_request t = Some t'"
    by (rule record_reward_total [of ?s2 t]) (use assms(6,7) in \<open>simp_all add: store_answer_def\<close>)
  with e start assms(2,3,8) show thesis
    by (intro that [of "?s2\<lparr>sh_wallet := Some t', sh_executor := pe_release ex\<rparr>"])
      (simp_all add: rpc_handler_def answer_locally_def answer_slot_def record_time_def rpc_finish_def
        store_answer_def Let_def)
qed

text \<open>A request that hits the cache.\<close>

lemma hit_served:
  assumes "admit w headers body s = Some (Inr (content, q), s1)"
    and "get_cached (rw_print w) (rw_cache_now w) (method_of q) (params_of q) (sh_engine s1) = Some (Some v, e)"
    and "record_latency (method_of q) (rw_elapsed_us w) e = Some e2"
    and "sh_wallet s1 = Some t" and "unat (wt_pending_lamports t) < 2 ^ 63"
  shows "\<exists>s'. rpc_handler w headers body s = Some (Finished (secured 200 (JsonBody v)), s')"
proof -
  obtain t' where "record_reward (s1\<lparr>sh_engine := e2\<rparr>) = Some (s1\<lparr>sh_engine := e2, sh_wallet := Some t'\<rparr>)"
    by (rule record_reward_total [of "s1\<lparr>sh_engine := e2\<rparr>" t]) (use assms(4,5) in simp_all)
  with assms(1-3) show ?thesis
    by (simp add: rpc_handler_def rpc_begin_def answer_cached_def record_time_def)
qed

lemma slot_cached_again:
  assumes "record_latency ''getSlot'' 40 le_new = Some e"
  shows "\<exists>e1 e2. get_cached to_str 0 ''getSlot'' p (set_cache to_str 0 ''getSlot'' p v e) = Some (Some v, e1) \<and>
    record_latency ''getSlot'' 40 e1 = Some e2"
  using assms
  by (auto simp: record_latency_def le_new_def dm_or_insert_def metrics_default_def checked_add_def Let_def
      get_cached_def set_cache_def slot_tier tier_cache_def set_tier_cache_def lookup_update millis_def)

text \<open>The first request of an address.\<close>

lemma first_request_passes:
  assumes "dm_get (ip_requests (sh_ap s)) (extract_ip headers) = None" "dm_get (banned_ips (sh_ap s)) (extract_ip headers) = None"
    "bg_untouched (sh_battery s)" "str_from_utf8 body = Some content" "scan_payload content = Clean" "rw_parse w content = Some q"
  shows "passes_checks w headers body s content q"
proof -
  obtain r where "check_rate_limit (rw_limit_secs w) (extract_ip headers) (sh_ap s) =
      Some (sh_ap s\<lparr>ip_requests := dm_insert (extract_ip headers) r (ip_requests (sh_ap s))\<rparr>, Allowed)"
    by (rule limiter_allows [of "sh_ap s" "extract_ip headers" 0 "rw_limit_secs w"]) (use assms(1) in simp_all)
  with assms bg_untouched_accepts [OF assms(3), of "rw_battery_secs w"] show ?thesis
    by (auto simp: passes_checks_def is_banned_def)
qed

definition slot_request :: "string \<Rightarrow> json" where
  "slot_request i = JObj [(''method'', JStr ''getSlot''), (''id'', JStr i)]"

definition from_address :: "string \<Rightarrow> header_map" where
  "from_address ip = [''x-forwarded-for'' \<mapsto> ip]"

lemma example_addresses: "extract_ip (from_address ''10.0.0.7'') = ''10.0.0.7''" "extract_ip (from_address ''10.0.0.8'') = ''10.0.0.8''"
  by code_simp+

lemma example_slot_text: "str_from_utf8 (bytes_of ''slot'') = Some ''slot''" "scan_payload ''slot'' = Clean"
    "str_from_utf8 (bytes_of ''slot2'') = Some ''slot2''" "scan_payload ''slot2'' = Clean"
  by (simp_all add: str_from_utf8_ascii scan_payload_def attack_patterns_def open_brackets_def
      to_lowercase_def lower_char_def)

lemma example_slot_parsed: "rw_parse (example_world n) ''slot'' = Some (slot_request ''a'')"
    "rw_parse (example_world n) ''slot2'' = Some (slot_request ''b'')"
  by (simp_all add: example_world_def slot_request_def)

lemma slot_request_fields [simp]: "method_of (slot_request i) = ''getSlot''" "params_of (slot_request i) = JNull"
    "json_get (slot_request i) ''id'' = Some (JStr i)"
  by (simp_all add: method_of_def params_of_def slot_request_def)

lemma example_admitted:
  assumes "bg_untouched (sh_battery s)" "dm_get (banned_ips (sh_ap s)) (extract_ip headers) = None"
    "dm_get (ip_requests (sh_ap s)) (extract_ip headers) = None" "read_request w body = Inr x"
  obtains r where "admit w headers body s = Some (Inr x,
    s\<lparr>sh_battery := snd (bg_should_accept_request (rw_battery_secs w) (sh_battery s)),
      sh_ap := sh_ap s\<lparr>ip_requests := dm_insert (extract_ip headers) r (ip_requests (sh_ap s))\<rparr>\<rparr>)"
proof -
  obtain r where "check_rate_limit (rw_limit_secs w) (extract_ip headers) (sh_ap s) =
      Some (sh_ap s\<lparr>ip_requests := dm_insert (extract_ip headers) r (ip_requests (sh_ap s))\<rparr>, Allowed)"
    by (rule limiter_allows [of "sh_ap s" "extract_ip headers" 0 "rw_limit_secs w"]) (use assms(3) in simp_all)
  from that admit_allowed [OF assms(1,2) this assms(4)] show thesis by blast
qed

lemma example_wallet: obtains t where "sh_wallet example_node = Some t" "wt_pending_lamports t = 0"
proof -
  obtain t where "boot_wallet example_config = Some (Some t)" "wt_pending_lamports t = 0"
    by (simp add: boot_wallet_def wt_new_def example_config_fields)
  then have "sh_wallet example_node = Some t" using example_node_fields(9) by simp
  with \<open>wt_pending_lamports t = 0\<close> show thesis by (intro that)
qed

lemma example_slot_run:
  obtains s' where "rpc_handler (example_world 5) (from_address ''10.0.0.7'') (bytes_of ''slot'') example_node =
      Some (Finished (secured 200 (JsonBody (slot_answer (example_world 5) (slot_request ''a'') (sh_slot example_node)))), s')"
    and "dm_get (ip_requests (sh_ap s')) ''10.0.0.8'' = None" "dm_get (banned_ips (sh_ap s')) ''10.0.0.8'' = None"
    "bg_untouched (sh_battery s')" "\<exists>t. sh_wallet s' = Some t \<and> wt_pending_lamports t = 100"
    "\<exists>e. record_latency ''getSlot'' 40 le_new = Some e \<and> sh_engine s' = set_cache (rw_print (example_world 5)) 0
      ''getSlot'' JNull (slot_answer (example_world 5) (slot_request ''a'') (sh_slot example_node)) e"
proof -
  note node = example_node_fields
  obtain t where t: "sh_wallet example_node = Some t" "wt_pending_lamports t = 0" by (rule example_wallet)
  have read: "read_request (example_world 5) (bytes_of ''slot'') = Inr (''slot'', slot_request ''a'')"
    by (simp add: read_request_def example_slot_text example_slot_parsed)
  obtain r where adm: "admit (example_world 5) (from_address ''10.0.0.7'') (bytes_of ''slot'') example_node =
    Some (Inr (''slot'', slot_request ''a''),
      example_node\<lparr>sh_battery := snd (bg_should_accept_request (rw_battery_secs (example_world 5)) (sh_battery example_node)),
        sh_ap := sh_ap example_node\<lparr>ip_requests := dm_insert ''10.0.0.7'' r (ip_requests (sh_ap example_node))\<rparr>\<rparr>)"
    by (rule example_admitted [OF node(7) _ _ read, of "from_address ''10.0.0.7''"])
      (simp_all add: node(3) ap_new_def example_addresses)
  obtain s' where "rpc_handler (example_world 5) (from_address ''10.0.0.7'') (bytes_of ''slot'') example_node =
      Some (Finished (secured 200 (JsonBody (slot_answer (example_world 5) (slot_request ''a'') (sh_slot example_node)))), s')"
    "sh_ap s' = increment_total (sh_ap example_node\<lparr>ip_requests := dm_insert ''10.0.0.7'' r (ip_requests (sh_ap example_node))\<rparr>)"
    "sh_battery s' = snd (bg_should_accept_request (rw_battery_secs (example_world 5)) (sh_battery example_node))"
    "\<exists>e. record_latency ''getSlot'' 40 le_new = Some e \<and> sh_engine s' = set_cache (rw_print (example_world 5)) 0
      ''getSlot'' JNull (slot_answer (example_world 5) (slot_request ''a'') (sh_slot example_node)) e"
    "\<exists>t'. sh_wallet s' = Some t' \<and> wt_record_request t = Some t'"
    by (rule slot_served [OF adm, of t]) (use node t in \<open>simp_all add: should_handle_iff get_shard_new defi_methods_def
        nft_methods_def example_world_def\<close>)
  then show thesis
    by (intro that [of s']) (use node bg_untouched_accepts [OF node(7)] in \<open>simp_all add: increment_total_def ap_new_def lookup_update
      wt_record_request_def checked_add_def t(2) Let_def\<close>)
qed

lemma example_slot_checks:
  "passes_checks (example_world 5) (from_address ''10.0.0.7'') (bytes_of ''slot'') example_node ''slot'' (slot_request ''a'')"
  by (rule first_request_passes)
    (simp_all add: example_node_fields ap_new_def example_slot_text example_slot_parsed)


end
