(* ===== verification/Rpc_Properties.thy ===== *)
theory Rpc_Properties
  imports Rpc_Stale
begin

text \<open>
  Properties of the request handler: what has been checked before a request has any effect,
  what it earns, the answers the cache gives, and the routes that are guarded by a token or
  not guarded at all.
\<close>

section \<open>Checks before effects\<close>

lemma retry_unsecured: "[(''Retry-After'', v)] \<noteq> security_headers"
  by (simp add: security_headers_def)

lemma read_request_Inl: "read_request w body = Inl r \<Longrightarrow> hr_headers r = []"
  by (auto simp: read_request_def split: option.splits scan_result.splits)

lemma admit_Inl_unsecured:
  assumes "admit w headers body s = Some (Inl r, s')"
  shows "hr_headers r \<noteq> security_headers"
proof (cases rule: admit_cases [where w = w and headers = headers and body = body and s = s])
  case (1 bat ap r')
  with assms show ?thesis by simp
next
  case (2 bat ap)
  with assms obtain ap' verdict where
    "check_rate_limit (rw_limit_secs w) (extract_ip headers) ap = Some (ap', verdict)"
    by auto
  with assms 2(3) show ?thesis using read_request_Inl [of w body r] retry_unsecured
    by (cases verdict) auto
qed

text \<open>The calls a request may cause, once it is admitted.\<close>

definition justified_call :: "rpc_world \<Rightarrow> u8 list \<Rightarrow> shared_state \<Rightarrow> string \<Rightarrow> json \<Rightarrow> outgoing \<Rightarrow> bool" where
  "justified_call w body s content q c \<longleftrightarrow>
     (\<exists>e. c = MeshCall e body \<and> \<not> should_handle (sh_shard s) (method_of q)) \<or>
     c = BrahmanCall (karaka_payload (rw_print w) (method_of q) (params_of q)) \<or>
     (\<exists>url. c = UpstreamCall url content \<and> may_reach_upstream w (method_of q) (params_of q) s)"

lemma rpc_begin_calls:
  assumes "rpc_begin w headers body s = Some (p, s')"
  shows "(\<exists>r. p = Finished r \<and> hr_headers r \<noteq> security_headers \<and> sh_sent s' = sh_sent s) \<or>
    (\<exists>content q cs. passes_checks w headers body s content q \<and> sh_breaker s' = sh_breaker s \<and>
       (\<forall>c q'. p = Here c q' \<or> (\<exists>e. p = ToMesh e c q') \<longrightarrow> c = content \<and> q' = q) \<and>
       sh_sent s' = sh_sent s @ cs \<and> (\<forall>c\<in>set cs. justified_call w body s content q c))"
  using assms
proof (cases rule: rpc_begin_cases)
  case (Early resp)
  then show ?thesis using admit_Inl_unsecured [OF Early(1)] admission_books [OF admit_frame [OF Early(1)]]
    by simp
next
  case (Cached content q s1 v e r)
  have "sh_sent s' = sh_sent s" "sh_breaker s' = sh_breaker s"
    using admission_books [OF admit_frame [OF Cached(1)]] answer_cached_books [OF Cached(3)] by simp_all
  then show ?thesis using admit_Inr [OF Cached(1)] Cached(4) by (intro disjI2 exI [of _ content] exI [of _ q] exI [of _ "[]"]) simp
next
  case (Full content q s1 e)
  then show ?thesis using admit_Inr [OF Full(1)] admission_books [OF admit_frame [OF Full(1)]]
    by (intro disjI2 exI [of _ content] exI [of _ q] exI [of _ "[]"]) simp
next
  case (Held content q s1 e ex)
  note frame = admission_books [OF admit_frame [OF Held(1)]]
  from Held(3) frame show ?thesis
  proof (elim disjE exE conjE)
    fix node
    assume "\<not> should_handle (sh_shard s1) (method_of q)" "p = ToMesh (gn_endpoint node) content q"
      "s' = send_out (MeshCall (gn_endpoint node) body) (s1\<lparr>sh_engine := e, sh_executor := ex\<rparr>)"
    then show ?thesis using admit_Inr [OF Held(1)] frame
      by (intro disjI2 exI [of _ content] exI [of _ q] exI [of _ "[MeshCall (gn_endpoint node) body]"])
        (simp add: justified_call_def send_out_def same_books_def)
  qed (use admit_Inr [OF Held(1)] in \<open>intro disjI2 exI [of _ content] exI [of _ q] exI [of _ "[]"], simp\<close>)
qed

text \<open>C20: a request has no effect before it has passed every check. If the handler calls another
  node, answers with the security headers or makes the request wait for a permit, then the
  battery guard accepted it, its address was neither banned nor over the limit, and its body is
  UTF-8 text that passed the payload scan and parses. It calls a mesh node only for a method
  outside the node's shard, it calls the upstream node only with the scanned text, and only with
  the circuit closed and a method that needs no verification or that the verifier did not
  refuse.\<close>

theorem served_only_after_checks:
  assumes "rpc_handler w headers body s = Some (p, s')"
    and "sh_sent s' \<noteq> sh_sent s \<or> p = Waiting \<or> (\<exists>r. p = Finished r \<and> hr_headers r = security_headers)"
  shows "\<exists>content q cs. passes_checks w headers body s content q \<and> sh_sent s' = sh_sent s @ cs \<and>
    (\<forall>c\<in>set cs. justified_call w body s content q c)"
  using assms(1)
proof (cases rule: rpc_handler_cases)
  case Stopped
  with rpc_begin_calls [OF Stopped(1)] assms(2) show ?thesis by auto
next
  case (Local p1 content q s1 r s2)
  then obtain cs where b: "passes_checks w headers body s content q" "sh_breaker s1 = sh_breaker s"
      "sh_sent s1 = sh_sent s @ cs" "\<forall>c\<in>set cs. justified_call w body s content q c"
    using rpc_begin_calls [OF Local(1)] by auto
  obtain ds where "sh_sent s2 = sh_sent s1 @ ds" "answer_calls w (method_of q) (params_of q) content s1 ds"
    using answer_locally_calls [OF Local(3)] by blast
  with b Local(5) show ?thesis
    by (intro exI [of _ content] exI [of _ q] exI [of _ "cs @ ds"])
      (auto simp: answer_calls_def justified_call_def may_reach_upstream_def)
next
  case (Mesh endpoint content q s1 answer)
  then show ?thesis using rpc_begin_calls [OF Mesh(1)] by auto
qed

theorem served_only_after_checks_witness:
  "\<exists>content q. passes_checks (example_world 5) (from_address ''10.0.0.7'') (bytes_of ''slot'') example_node content q"
proof -
  obtain s' where s': "rpc_handler (example_world 5) (from_address ''10.0.0.7'') (bytes_of ''slot'') example_node =
      Some (Finished (secured 200 (JsonBody (slot_answer (example_world 5) (slot_request ''a'') (sh_slot example_node)))), s')"
    by (rule example_slot_run)
  show ?thesis using served_only_after_checks [OF s'] by simp blast
qed

section \<open>Rewards\<close>

text \<open>What a response earns: one recorded request for an answer of the node's own, nothing for
  any other, except that a bad gateway may or may not have been counted.\<close>

definition earns :: "wallet_tracker \<Rightarrow> http_response \<Rightarrow> wallet_tracker option \<Rightarrow> bool" where
  "earns t r x \<longleftrightarrow> (\<exists>t'. x = Some t' \<and>
     (if \<exists>v. r = secured 200 (JsonBody v) then wt_record_request t = Some t'
      else if hr_status r = 502 then t' = t \<or> wt_record_request t = Some t'
      else t' = t))"

lemma earns_one: "wt_record_request t = Some t' \<Longrightarrow> earns t (secured 200 (JsonBody v)) (Some t')"
  by (auto simp: earns_def)

lemma earns_none: "\<not> (\<exists>v. r = secured 200 (JsonBody v)) \<Longrightarrow> earns t r (Some t)"
  by (simp add: earns_def)

lemma earns_502: "wt_record_request t = Some t' \<Longrightarrow> earns t (plain 502 b) (Some t')"
  by (simp add: earns_def)

lemma record_reward_wallet:
  "record_reward s = Some s' \<Longrightarrow> sh_wallet s = Some t \<Longrightarrow>
     \<exists>t'. wt_record_request t = Some t' \<and> sh_wallet s' = Some t'"
  by (auto simp: record_reward_def)

lemma answer_cached_earns:
  "answer_cached w m v s = Some (r, s') \<Longrightarrow> sh_wallet s = Some t \<Longrightarrow> earns t r (sh_wallet s')"
  by (auto simp: answer_cached_def bind_eq_Some_conv dest!: record_time_books record_reward_wallet
      intro: earns_one)

lemma answer_slot_earns:
  "answer_slot w m p q s = Some (r, s') \<Longrightarrow> sh_wallet s = Some t \<Longrightarrow> earns t r (sh_wallet s')"
  by (auto simp: answer_slot_def Let_def bind_eq_Some_conv store_answer_def
      dest!: record_time_books record_reward_wallet intro: earns_one)

lemma upstream_answered_earns:
  assumes "upstream_answered w m p url a s = Some (r, s')" and "sh_wallet s = Some t"
  shows "earns t r (sh_wallet s')"
  using assms(1)
proof (cases rule: upstream_answered_cases)
  case (Lost s1 b)
  then show ?thesis using record_time_books [OF Lost(1)] assms(2) by (simp add: earns_none)
next
  case (Garbled s1 b)
  then show ?thesis using record_time_books [OF Garbled(1)] record_reward_wallet [OF Garbled(2), of t] assms(2)
    by (auto intro: earns_502)
next
  case (Delivered s1 b s2 v)
  then show ?thesis using record_time_books [OF Delivered(1)] record_reward_wallet [OF Delivered(2), of t] assms(2)
    by (auto simp: store_answer_def intro: earns_one)
qed

lemma answer_locally_earns:
  assumes "answer_locally w content q s = Some (r, s')" and "sh_wallet s = Some t"
  shows "earns t r (sh_wallet s')"
proof (cases "method_of q = ''getSlot''")
  case True
  with assms show ?thesis by (auto simp: answer_locally_def Let_def intro: answer_slot_earns)
next
  case False
  let ?s = "s\<lparr>sh_ap := increment_total (sh_ap s)\<rparr>"
  from False assms have "answer_upstream w (method_of q) (params_of q) content ?s = Some (r, s')"
    by (simp add: answer_locally_def Let_def)
  then show ?thesis
  proof (cases rule: answer_upstream_cases)
    case Open
    with assms(2) show ?thesis by (simp add: earns_none)
  next
    case (Refused b e)
    with assms(2) show ?thesis using verify_books [OF Refused(2)] by (simp add: earns_none)
  next
    case (Sent b url x s1)
    have "sh_wallet (send_out (UpstreamCall url content) s1) = Some t"
      using verify_books [OF Sent(2)] assms(2) by (simp add: send_out_def)
    with Sent(3) show ?thesis
      by (cases "rw_upstream w url content")
        (auto simp: upstream_failed_def bind_eq_Some_conv earns_none intro: upstream_answered_earns)
  qed
qed

lemma rpc_begin_earns:
  assumes "rpc_begin w headers body s = Some (p, s')" and "sh_wallet s = Some t"
  shows "if \<exists>r. p = Finished r then \<exists>r. p = Finished r \<and> earns t r (sh_wallet s') else sh_wallet s' = Some t"
  using assms(1)
proof (cases rule: rpc_begin_cases)
  case (Early resp)
  then have "\<not> (\<exists>v. resp = secured 200 (JsonBody v))" using admit_Inl_unsecured [OF Early(1)] by auto
  then show ?thesis using admission_books [OF admit_frame [OF Early(1)]] Early(2) assms(2)
    by (simp add: earns_none)
next
  case (Cached content q s1 v e r)
  then show ?thesis using admission_books [OF admit_frame [OF Cached(1)]] assms(2) answer_cached_earns [OF Cached(3)]
    by simp
next
  case (Full content q s1 e)
  then show ?thesis using admission_books [OF admit_frame [OF Full(1)]] assms(2) by simp
next
  case (Held content q s1 e ex)
  then show ?thesis using admission_books [OF admit_frame [OF Held(1)]] assms(2) by (auto simp: send_out_def)
qed

text \<open>Every request the node answers itself earns one reward, and nothing else does. An answer
  from the cache, of the slot or from upstream adds one recorded request to the wallet; a
  rejection and an answer forwarded from the mesh add none; a bad gateway adds at most one (it
  adds one when the upstream body came but was not JSON). The permit the request took is there
  again when it is finished.\<close>

theorem one_reward_per_answer:
  assumes "rpc_handler w headers body s = Some (Finished r, s')" and "sh_wallet s = Some t"
  shows "earns t r (sh_wallet s') \<and> pe_available (sh_executor s') = pe_available (sh_executor s)"
proof -
  have "earns t r (sh_wallet s')" using assms(1)
  proof (cases rule: rpc_handler_cases)
    case Stopped
    then show ?thesis using rpc_begin_earns [OF Stopped(1) assms(2)] by simp
  next
    case (Local p1 content q s1 r' s2)
    then have "sh_wallet s1 = Some t" using rpc_begin_earns [OF Local(1) assms(2)] by auto
    with Local answer_locally_earns [OF Local(3)] show ?thesis by simp
  next
    case (Mesh endpoint content q s1 answer)
    then show ?thesis using rpc_begin_earns [OF Mesh(1) assms(2)]
      by (auto simp: mesh_response_def intro: earns_none)
  qed
  with rpc_handler_books [OF assms(1)] show ?thesis by simp
qed

theorem one_reward_per_answer_witness:
  "\<exists>v s' t. rpc_handler (example_world 5) (from_address ''10.0.0.7'') (bytes_of ''slot'') example_node =
      Some (Finished (secured 200 (JsonBody v)), s') \<and> sh_wallet example_node = Some t \<and>
    wt_record_request t = sh_wallet s'"
proof -
  obtain s' where s': "rpc_handler (example_world 5) (from_address ''10.0.0.7'') (bytes_of ''slot'') example_node =
      Some (Finished (secured 200 (JsonBody (slot_answer (example_world 5) (slot_request ''a'') (sh_slot example_node)))), s')"
    by (rule example_slot_run)
  obtain t where t: "sh_wallet example_node = Some t" by (rule example_wallet)
  from s' t one_reward_per_answer [OF s' t] show ?thesis by (auto simp: earns_def)
qed

section \<open>The token of the status page\<close>

lemma token_matches_iff: "token_matches a b \<longleftrightarrow> a = b"
  using diff_fold_eq [of "bytes_of a" "bytes_of b"] by (auto simp: token_matches_def)

lemma stripped_header:
  assumes "token \<noteq> []"
  shows "token = unwrap_or (Option.bind h (strip_prefix p)) [] \<longleftrightarrow> h = Some (p @ token)"
proof (cases "Option.bind h (strip_prefix p)")
  case None
  then have "h \<noteq> Some (p @ token)" using strip_prefix_Some [of p "p @ token" token] by (cases h) auto
  with None assms show ?thesis by (simp add: unwrap_or_def)
next
  case (Some t)
  then have "h = Some (p @ t)" by (auto simp: bind_eq_Some_conv strip_prefix_Some)
  with Some show ?thesis by (auto simp: unwrap_or_def)
qed

text \<open>The status page is shown to the holder of the token only. The byte-by-byte comparison
  decides equality, and the page is returned if and only if a token is configured, is not empty,
  and the request carries exactly it as bearer token; otherwise the answer is the same for every
  state of the node and every reading of its clock.\<close>

theorem status_needs_token:
  "(hr_status (status_handler w env headers s) = 200 \<longleftrightarrow>
     (\<exists>token. env ''DASHBOARD_TOKEN'' = Some token \<and> token \<noteq> [] \<and>
        headers ''authorization'' = Some (''Bearer '' @ token))) \<and>
   (hr_status (status_handler w env headers s) = 200 \<or>
     (\<forall>w' s'. status_handler w' env headers s' = status_handler w env headers s))"
proof (cases "var_or env ''DASHBOARD_TOKEN'' [] = []")
  case True
  then show ?thesis by (auto simp: status_handler_def var_or_def split: option.splits)
next
  case False
  then obtain token where token: "env ''DASHBOARD_TOKEN'' = Some token" "token \<noteq> []"
    by (auto simp: var_or_def split: option.splits)
  let ?sent = "unwrap_or (Option.bind (headers ''authorization'') (strip_prefix ''Bearer '')) []"
  have "hr_status (status_handler w env headers s) = 200 \<longleftrightarrow> token = ?sent"
    and "token = ?sent \<or> (\<forall>w' s'. status_handler w' env headers s' = status_handler w env headers s)"
    using token by (simp_all add: status_handler_def var_or_def token_matches_iff Let_def)
  then show ?thesis using token stripped_header [of token "headers ''authorization''" "''Bearer ''"]
    by auto
qed

end
