(* ===== verification/Rpc_Self_Forward.thy ===== *)
theory Rpc_Self_Forward
  imports Rpc_Node
begin

text \<open>
  What a node does with a method outside its shard: it forwards the call to the best node of
  its geographic table, which after the start holds the node itself only, so the call comes back
  to the handler's own route while the first one still holds its permit.
\<close>

text \<open>The calls that arrive one after the other while none of them is finished: the first with
  the client's headers, the others as the node's own HTTP client sends them, without a
  forwarding address.\<close>

definition own_headers :: header_map where
  "own_headers = Map.empty"

lemma own_address [simp]: "extract_ip own_headers = ''unknown''"
  by (simp add: extract_ip_def own_headers_def)

fun own_arrivals :: "u8 list \<Rightarrow> rpc_world list \<Rightarrow> shared_state \<Rightarrow> (progress list \<times> shared_state) option" where
  "own_arrivals body [] s = Some ([], s)"
| "own_arrivals body (w # ws) s = do {
     (p, s) \<leftarrow> rpc_begin w own_headers body s;
     (ps, s) \<leftarrow> own_arrivals body ws s;
     Some (p # ps, s)
   }"

definition arrivals ::
  "header_map \<Rightarrow> u8 list \<Rightarrow> rpc_world \<Rightarrow> rpc_world list \<Rightarrow> shared_state \<Rightarrow> (progress list \<times> shared_state) option" where
  "arrivals headers body w ws s = do {
     (p, s) \<leftarrow> rpc_begin w headers body s;
     (ps, s) \<leftarrow> own_arrivals body ws s;
     Some (p # ps, s)
   }"

text \<open>A node whose only known node is itself and that has nothing cached, after \<open>k\<close> calls of its
  own up to the time \<open>t\<close>, with \<open>free\<close> permits left.\<close>

definition looping :: "config \<Rightarrow> nat \<Rightarrow> u64 \<Rightarrow> nat \<Rightarrow> shared_state \<Rightarrow> bool" where
  "looping cfg k t free s \<longleftrightarrow> bg_untouched (sh_battery s) \<and>
     dm_get (banned_ips (sh_ap s)) ''unknown'' = None \<and>
     (\<forall>r. dm_get (ip_requests (sh_ap s)) ''unknown'' = Some r \<longrightarrow> unat (ir_count r) \<le> k \<and> ir_window_start r \<le> t) \<and>
     sh_engine s = le_new \<and> sh_shard s = shard_router_new (cfg_shard_type cfg) \<and> sh_config s = cfg \<and>
     sh_geo s = geo_register_node (local_node cfg) (geo_router_new (cfg_region cfg)) \<and>
     pe_available (sh_executor s) = free"

text \<open>Texts that pass the checks of the body and name a method of another shard.\<close>

definition forwarded_call :: "config \<Rightarrow> u8 list \<Rightarrow> string \<Rightarrow> json \<Rightarrow> rpc_world \<Rightarrow> bool" where
  "forwarded_call cfg body content q w \<longleftrightarrow> str_from_utf8 body = Some content \<and> scan_payload content = Clean \<and>
     rw_parse w content = Some q \<and> get_shard_for_method (shard_router_new (cfg_shard_type cfg)) (method_of q) \<noteq> cfg_shard_type cfg"

lemma forwarded_read: "forwarded_call cfg body content q w \<Longrightarrow> read_request w body = Inr (content, q)"
  by (simp add: forwarded_call_def read_request_Inr)

lemma forwarded_elsewhere:
  "forwarded_call cfg body content q w \<Longrightarrow> \<not> should_handle (shard_router_new (cfg_shard_type cfg)) (method_of q)"
  by (simp add: forwarded_call_def should_handle_iff)

lemma untouched_next:
  "bg_untouched b \<Longrightarrow> bg_untouched (snd (bg_should_accept_request now b))"
  using bg_untouched_accepts by blast

text \<open>One call of an address the limiter allows: it takes a permit and is sent to the node.\<close>

lemma call_forwarded:
  assumes "bg_untouched (sh_battery s)" and "dm_get (banned_ips (sh_ap s)) (extract_ip headers) = None"
    and limit: "check_rate_limit (rw_limit_secs w) (extract_ip headers) (sh_ap s) = Some (ap, Allowed)"
    and call: "forwarded_call cfg body content q w"
    and state: "sh_engine s = le_new" "sh_shard s = shard_router_new (cfg_shard_type cfg)" "sh_config s = cfg"
      "sh_geo s = geo_register_node (local_node cfg) (geo_router_new (cfg_region cfg))"
    and free: "pe_available (sh_executor s) = Suc n"
  obtains ex where "pe_available ex = n"
    and "rpc_begin w headers body s = Some (ToMesh (gn_endpoint (local_node cfg)) content q,
      send_out (MeshCall (gn_endpoint (local_node cfg)) body)
        (s\<lparr>sh_battery := snd (bg_should_accept_request (rw_battery_secs w) (sh_battery s)), sh_ap := ap,
          sh_executor := ex\<rparr>))"
proof -
  let ?s = "s\<lparr>sh_battery := snd (bg_should_accept_request (rw_battery_secs w) (sh_battery s)), sh_ap := ap\<rparr>"
  have adm: "admit w headers body s = Some (Inr (content, q), ?s)"
    by (rule admit_allowed [OF assms(1-2) limit forwarded_read [OF call]])
  obtain ex where ex: "pe_acquire (method_of q) (Option.bind (json_nth (params_of q) 0) as_str) (sh_executor s) = Some ex"
    and "pe_available ex = n"
    using free by (auto simp: pe_acquire_def Let_def split: option.splits)
  moreover have "rpc_begin w headers body s = Some (ToMesh (gn_endpoint (local_node cfg)) content q,
      send_out (MeshCall (gn_endpoint (local_node cfg)) body) (?s\<lparr>sh_executor := ex\<rparr>))"
    by (rule rpc_begin_forward [OF adm])
      (use ex state call in \<open>simp_all add: get_cached_new best_node_is_local forwarded_elsewhere\<close>)
  ultimately show thesis by (intro that [of ex]) simp_all
qed

lemma own_call_limit:
  assumes "looping cfg k t free s" and "k < 100" and "t \<le> rw_limit_secs w"
  obtains r where "check_rate_limit (rw_limit_secs w) ''unknown'' (sh_ap s) =
      Some (sh_ap s\<lparr>ip_requests := dm_insert ''unknown'' r (ip_requests (sh_ap s))\<rparr>, Allowed)"
    and "unat (ir_count r) \<le> Suc k" and "ir_window_start r \<le> rw_limit_secs w"
proof (rule limiter_allows [of "sh_ap s" "''unknown''" k "rw_limit_secs w"])
  show "\<forall>r. dm_get (ip_requests (sh_ap s)) ''unknown'' = Some r \<longrightarrow>
      unat (ir_count r) \<le> k \<and> ir_window_start r \<le> rw_limit_secs w"
    using assms(1,3) by (auto simp: looping_def)
qed (use assms(2) that in auto)

lemma own_call_forwarded:
  assumes "looping cfg k t (Suc n) s" and "k < 100" and "t \<le> rw_limit_secs w"
    and "forwarded_call cfg body content q w"
  obtains s1 where "rpc_begin w own_headers body s = Some (ToMesh (gn_endpoint (local_node cfg)) content q, s1)"
    and "looping cfg (Suc k) (rw_limit_secs w) n s1"
    and "sh_sent s1 = sh_sent s @ [MeshCall (gn_endpoint (local_node cfg)) body]"
proof -
  obtain r where r: "check_rate_limit (rw_limit_secs w) ''unknown'' (sh_ap s) =
      Some (sh_ap s\<lparr>ip_requests := dm_insert ''unknown'' r (ip_requests (sh_ap s))\<rparr>, Allowed)"
    "unat (ir_count r) \<le> Suc k" "ir_window_start r \<le> rw_limit_secs w"
    by (rule own_call_limit [OF assms(1-3)])
  obtain ex where ex: "pe_available ex = n"
    and step: "rpc_begin w own_headers body s = Some (ToMesh (gn_endpoint (local_node cfg)) content q,
      send_out (MeshCall (gn_endpoint (local_node cfg)) body)
        (s\<lparr>sh_battery := snd (bg_should_accept_request (rw_battery_secs w) (sh_battery s)),
          sh_ap := sh_ap s\<lparr>ip_requests := dm_insert ''unknown'' r (ip_requests (sh_ap s))\<rparr>, sh_executor := ex\<rparr>))"
    by (rule call_forwarded [of s own_headers w _ cfg body content q n])
      (use assms(1,4) r(1) in \<open>simp_all add: looping_def\<close>)
  from step show thesis
    by (rule that) (use assms(1) r(2-3) ex in \<open>simp_all add: looping_def untouched_next send_out_def lookup_update\<close>)
qed

lemma own_call_waits:
  assumes "looping cfg k t 0 s" and "k < 100" and "t \<le> rw_limit_secs w"
    and "forwarded_call cfg body content q w"
  obtains s1 where "rpc_begin w own_headers body s = Some (Waiting, s1)"
    and "pe_available (sh_executor s1) = 0" and "sh_sent s1 = sh_sent s"
proof -
  obtain r where r: "check_rate_limit (rw_limit_secs w) ''unknown'' (sh_ap s) =
      Some (sh_ap s\<lparr>ip_requests := dm_insert ''unknown'' r (ip_requests (sh_ap s))\<rparr>, Allowed)"
    by (rule own_call_limit [OF assms(1-3)])
  let ?s = "s\<lparr>sh_battery := snd (bg_should_accept_request (rw_battery_secs w) (sh_battery s)),
      sh_ap := sh_ap s\<lparr>ip_requests := dm_insert ''unknown'' r (ip_requests (sh_ap s))\<rparr>\<rparr>"
  have "admit w own_headers body s = Some (Inr (content, q), ?s)"
    by (rule admit_allowed) (use assms(1,4) r in \<open>simp_all add: looping_def forwarded_read\<close>)
  then have "rpc_begin w own_headers body s = Some (Waiting, ?s)"
    by (rule rpc_begin_full) (use assms(1) in \<open>simp_all add: looping_def get_cached_new\<close>)
  then show thesis by (rule that) (use assms(1) in \<open>simp_all add: looping_def\<close>)
qed

lemma own_calls_exhaust:
  assumes "looping cfg k t n s" and "k + n < 100" and "length ws = Suc n"
    and "sorted (t # map rw_limit_secs ws)" and "\<forall>w\<in>set ws. forwarded_call cfg body content q w"
  shows "\<exists>s'. own_arrivals body ws s =
      Some (replicate n (ToMesh (gn_endpoint (local_node cfg)) content q) @ [Waiting], s') \<and>
    pe_available (sh_executor s') = 0 \<and>
    sh_sent s' = sh_sent s @ replicate n (MeshCall (gn_endpoint (local_node cfg)) body)"
  using assms
proof (induction n arbitrary: k t s ws)
  case 0
  then obtain w where "ws = [w]" by (cases ws) auto
  with 0 show ?case using own_call_waits [OF 0(1), of w body content q] by fastforce
next
  case (Suc n)
  then obtain w vs where ws: "ws = w # vs" by (cases ws) auto
  with Suc obtain s1 where s1: "rpc_begin w own_headers body s = Some (ToMesh (gn_endpoint (local_node cfg)) content q, s1)"
    "looping cfg (Suc k) (rw_limit_secs w) n s1"
    "sh_sent s1 = sh_sent s @ [MeshCall (gn_endpoint (local_node cfg)) body]"
    by (auto elim: own_call_forwarded [of cfg k t n s w body content q])
  from Suc.IH [OF s1(2), of vs] Suc.prems ws s1 show ?case by auto
qed

text \<open>C32: a fresh node is stopped by one request. A client request, with a forwarding address, for
  a method of another shard is sent by the node to itself, and so is every copy of it that
  arrives: each takes a permit and waits for the next, until all permits are taken and the last
  copy waits for one as well. No call has been answered, nothing was asked upstream and no
  permit is free, for every limit of at most 100 permits, the default among them.\<close>

theorem one_request_stops_node:
  assumes "boot cfg pc te fresh_id batch_id started d = Some s"
    and "max_concurrent_requests cfg = of_nat (Suc n)" and "n < 100"
    and "extract_ip headers \<noteq> ''unknown''"
    and "length ws = Suc n" and "sorted (map rw_limit_secs (w # ws))"
    and "\<forall>v\<in>set (w # ws). forwarded_call cfg body content q v"
  shows "\<exists>s'. arrivals headers body w ws s =
      Some (replicate (Suc n) (ToMesh (''http://0.0.0.0:'' @ decimal (unat (http_port cfg))) content q) @ [Waiting], s') \<and>
    pe_available (sh_executor s') = 0 \<and>
    sh_sent s' = replicate (Suc n) (MeshCall (''http://0.0.0.0:'' @ decimal (unat (http_port cfg))) body)"
proof -
  note boot = boot_fields [OF assms(1)]
  have permits: "pe_available (sh_executor s) = Suc n"
    using boot(8) assms(2,3) unat_of_nat64 [of "Suc n"] by simp
  obtain r where limit: "check_rate_limit (rw_limit_secs w) (extract_ip headers) (sh_ap s) =
      Some (sh_ap s\<lparr>ip_requests := dm_insert (extract_ip headers) r (ip_requests (sh_ap s))\<rparr>, Allowed)"
    by (rule limiter_allows [of "sh_ap s" "extract_ip headers" 0 "rw_limit_secs w"]) (use boot(3) in \<open>simp_all add: ap_new_def\<close>)
  obtain ex where ex: "pe_available ex = n"
    and first: "rpc_begin w headers body s = Some (ToMesh (gn_endpoint (local_node cfg)) content q,
      send_out (MeshCall (gn_endpoint (local_node cfg)) body)
        (s\<lparr>sh_battery := snd (bg_should_accept_request (rw_battery_secs w) (sh_battery s)),
          sh_ap := sh_ap s\<lparr>ip_requests := dm_insert (extract_ip headers) r (ip_requests (sh_ap s))\<rparr>, sh_executor := ex\<rparr>))"
      (is "_ = Some (_, ?s1)")
    by (rule call_forwarded [of s headers w _ cfg body content q n])
      (use boot limit permits assms(7) in \<open>simp_all add: ap_new_def\<close>)
  have loop: "looping cfg 0 (rw_limit_secs w) n ?s1"
    using boot assms(4) ex
    by (simp add: looping_def untouched_next send_out_def lookup_update ap_new_def)
  have "0 + n < 100" "sorted (rw_limit_secs w # map rw_limit_secs ws)" "\<forall>v\<in>set ws. forwarded_call cfg body content q v"
    using assms(3,6,7) by simp_all
  from own_calls_exhaust [OF loop this(1) assms(5) this(2-3)] first boot(6)
  show ?thesis by (auto simp: arrivals_def send_out_def local_node_def)
qed

lemma example_text: "str_from_utf8 (bytes_of ''send'') = Some ''send''" "scan_payload ''send'' = Clean"
  by (simp_all add: str_from_utf8_ascii scan_payload_def attack_patterns_def open_brackets_def
      to_lowercase_def lower_char_def)

lemma example_forwarded:
  "forwarded_call example_config (bytes_of ''send'') ''send'' (JObj [(''method'', JStr ''sendTransaction'')]) (example_world 5)"
  by (simp add: forwarded_call_def example_text example_config_fields get_shard_new defi_methods_def
      nft_methods_def example_world_def method_of_def)

lemma example_address: "extract_ip [''x-forwarded-for'' \<mapsto> ''10.0.0.7''] = ''10.0.0.7''"
  by code_simp

theorem one_request_stops_node_witness:
  "\<exists>s'. arrivals [''x-forwarded-for'' \<mapsto> ''10.0.0.7''] (bytes_of ''send'') (example_world 5)
      [example_world 5, example_world 5] example_node =
    Some (replicate (Suc 1) (ToMesh (''http://0.0.0.0:'' @ decimal (unat (8080::u16))) ''send''
      (JObj [(''method'', JStr ''sendTransaction'')])) @ [Waiting], s') \<and>
    pe_available (sh_executor s') = 0"
proof -
  have "\<forall>v\<in>set [example_world 5, example_world 5, example_world 5].
      forwarded_call example_config (bytes_of ''send'') ''send'' (JObj [(''method'', JStr ''sendTransaction'')]) v"
    using example_forwarded by simp
  from one_request_stops_node [OF example_boot, of 1 "[''x-forwarded-for'' \<mapsto> ''10.0.0.7'']"
      "[example_world 5, example_world 5]" "example_world 5", OF _ _ _ _ _ this]
  show ?thesis unfolding example_config_fields(4) by (auto simp: example_config_fields example_address)
qed

end
