(* ===== verification/Daemon.thy ===== *)
theory Daemon
  imports Rpc_Self_Forward
begin

text \<open>
  The daemon as a whole: the events \<open>main.rs\<close> and the router feed to the shared state (HTTP
  requests, the mesh events of \<open>p2p.rs\<close>, the periodic tasks), their runs from a fresh node,
  and what no run can change. A request runs to its end in one event; a request that would wait
  leaves the state it has reached.
\<close>

section \<open>Invariants of runs\<close>

locale kept_by_steps =
  fixes step :: "'e \<Rightarrow> 's \<Rightarrow> 's option"
    and ok :: "'e \<Rightarrow> bool"
    and keeps :: "'s \<Rightarrow> bool"
  assumes step_keeps: "step ev s = Some s' \<Longrightarrow> ok ev \<Longrightarrow> keeps s \<Longrightarrow> keeps s'"
begin

fun run :: "'e list \<Rightarrow> 's \<Rightarrow> 's option" where
  "run [] s = Some s"
| "run (ev # evs) s = step ev s \<bind> run evs"

lemma run_keeps: "run evs s = Some s' \<Longrightarrow> \<forall>ev\<in>set evs. ok ev \<Longrightarrow> keeps s \<Longrightarrow> keeps s'"
  by (induction evs arbitrary: s) (auto simp: bind_eq_Some_conv dest: step_keeps)

end

section \<open>Events\<close>

datatype 'k daemon_event =
    RpcRequest rpc_world header_map "u8 list"
  | OnionRequest "'k onion_world" string
  | SettleBatch batch_world
  | RegisterMobile json
  | AskWallet "u64 \<Rightarrow> f64" u64 balance_call
  | SlotAnswer "json option"
  | CleanAttacks u64
  | CleanPeers u64
  | EvictCache instant
  | MeshEvent u64 swarm_event

text \<open>The part of the shared state the mesh loop holds. Its calls to the swarm are not state.\<close>

definition mesh_part :: "shared_state \<Rightarrow> p2p_state" where
  "mesh_part s = \<lparr>pn_peer_registry = sh_registry s, pn_connected_peers = sh_connected_peers s,
     pn_hole_punch_attempts = sh_hole_punch_attempts s, pn_nat_status = sh_nat_status s,
     pn_multiaddrs = sh_multiaddrs s, pn_guard = sh_guard s, pn_telemetry = sh_telemetry s, pn_calls = []\<rparr>"

definition put_mesh_part :: "p2p_state \<Rightarrow> shared_state \<Rightarrow> shared_state" where
  "put_mesh_part p s = s\<lparr>sh_registry := pn_peer_registry p, sh_connected_peers := pn_connected_peers p,
     sh_hole_punch_attempts := pn_hole_punch_attempts p, sh_nat_status := pn_nat_status p,
     sh_multiaddrs := pn_multiaddrs p, sh_guard := pn_guard p, sh_telemetry := pn_telemetry p\<rparr>"

definition daemon_step :: "'k daemon_event \<Rightarrow> shared_state \<Rightarrow> shared_state option" where
  "daemon_step ev s = (case ev of
      RpcRequest w headers body \<Rightarrow> map_option snd (rpc_handler w headers body s)
    | OnionRequest w layer \<Rightarrow> map_option snd (onion_handler w layer s)
    | SettleBatch w \<Rightarrow> map_option snd (settle w s)
    | RegisterMobile payload \<Rightarrow> Some (snd (mobile_register_handler payload s))
    | AskWallet to_sol now post \<Rightarrow> map_option snd (wallet_handler to_sol now post s)
    | SlotAnswer answer \<Rightarrow> Some (update_slot answer s)
    | CleanAttacks now \<Rightarrow> map_option (\<lambda>ap. s\<lparr>sh_ap := ap\<rparr>) (cleanup now (sh_ap s))
    | CleanPeers now \<Rightarrow> map_option (\<lambda>g. s\<lparr>sh_guard := g\<rparr>) (pg_cleanup now (sh_guard s))
    | EvictCache now \<Rightarrow> Some (s\<lparr>sh_engine := evict_expired now (sh_engine s)\<rparr>)
    | MeshEvent now e \<Rightarrow>
        map_option (\<lambda>p. put_mesh_part p s) (handle_event now (sh_config s) e (mesh_part s)))"

fun daemon_run :: "'k daemon_event list \<Rightarrow> shared_state \<Rightarrow> shared_state option" where
  "daemon_run [] s = Some s"
| "daemon_run (ev # evs) s = daemon_step ev s \<bind> daemon_run evs"

section \<open>Where calls go\<close>

definition wiring :: "shared_state \<Rightarrow> string \<times> string list" where
  "wiring s = (sh_solana_rpc_url s, map lb_endpoint (lb_nodes (sh_balancer s)))"

lemma wiring_same [simp]:
  "wiring (s\<lparr>sh_ap := a\<rparr>) = wiring s" "wiring (s\<lparr>sh_battery := b\<rparr>) = wiring s"
  "wiring (s\<lparr>sh_engine := e\<rparr>) = wiring s" "wiring (s\<lparr>sh_executor := x\<rparr>) = wiring s"
  "wiring (s\<lparr>sh_wallet := t\<rparr>) = wiring s" "wiring (s\<lparr>sh_breaker := k\<rparr>) = wiring s"
  "wiring (s\<lparr>sh_slot := n\<rparr>) = wiring s" "wiring (s\<lparr>sh_guard := g\<rparr>) = wiring s"
  "wiring (s\<lparr>sh_registry := r\<rparr>) = wiring s" "wiring (s\<lparr>sh_batch := z\<rparr>) = wiring s"
  "wiring (s\<lparr>sh_disk := d\<rparr>) = wiring s" "wiring (send_out c s) = wiring s"
  "wiring (put_mesh_part p s) = wiring s"
  by (simp_all add: wiring_def send_out_def put_mesh_part_def)

lemma record_time_wiring: "record_time w m s = Some s' \<Longrightarrow> wiring s' = wiring s"
  by (auto simp: record_time_def)

lemma record_reward_wiring: "record_reward s = Some s' \<Longrightarrow> wiring s' = wiring s"
  by (auto simp: record_reward_def split: option.splits)

lemma store_answer_wiring [simp]: "wiring (store_answer w m p v s) = wiring s"
  by (simp add: store_answer_def)

lemma update_first_endpoints:
  assumes "update_first P f ns = Some ns'" "\<And>n n'. f n = Some n' \<Longrightarrow> lb_endpoint n' = lb_endpoint n"
  shows "map lb_endpoint ns' = map lb_endpoint ns"
  using assms(1)
proof (induction ns arbitrary: ns')
  case (Cons n ns)
  then show ?case using assms(2) by (auto split: if_splits)
qed simp

lemma record_success_endpoints:
  "lb_record_success e l b = Some b' \<Longrightarrow> map lb_endpoint (lb_nodes b') = map lb_endpoint (lb_nodes b)"
  by (auto simp: lb_record_success_def bind_eq_Some_conv dest!: update_first_endpoints)

lemma record_error_endpoints:
  "lb_record_error e b = Some b' \<Longrightarrow> map lb_endpoint (lb_nodes b') = map lb_endpoint (lb_nodes b)"
  by (auto simp: lb_record_error_def bind_eq_Some_conv dest!: update_first_endpoints)

lemma wiring_balancer:
  "map lb_endpoint (lb_nodes b) = map lb_endpoint (lb_nodes (sh_balancer s)) \<Longrightarrow> wiring (s\<lparr>sh_balancer := b\<rparr>) = wiring s"
  by (simp add: wiring_def)

lemma select_wiring: "select_node r (sh_balancer s) = Some (picked, b) \<Longrightarrow> wiring (s\<lparr>sh_balancer := b\<rparr>) = wiring s"
  by (simp add: wiring_def select_node_nodes)

lemma upstream_reply_wiring:
  assumes "(case rw_upstream w url content of
      None \<Rightarrow> upstream_failed w url s | Some a \<Rightarrow> upstream_answered w m p url a s) = Some (r, s')"
  shows "wiring s' = wiring s"
proof (cases "rw_upstream w url content")
  case None
  with assms obtain b where "lb_record_error url (sh_balancer s) = Some b"
    "s' = s\<lparr>sh_balancer := b, sh_breaker := cb_record_failure (rw_failure_secs w) (sh_breaker s)\<rparr>"
    by (auto simp: upstream_failed_def bind_eq_Some_conv)
  then show ?thesis using record_error_endpoints by (simp add: wiring_def)
next
  case (Some a)
  with assms obtain s1 b where s1: "record_time w m s = Some s1"
    "lb_record_success url (rw_elapsed_us w div 1000) (sh_balancer s1) = Some b"
    and rest: "wiring s' = wiring (s1\<lparr>sh_balancer := b\<rparr>)"
    by (auto simp: upstream_answered_def bind_eq_Some_conv Let_def wiring_def store_answer_def
        dest!: record_reward_wiring split: option.splits)
  then show ?thesis using record_success_endpoints [OF s1(2)] record_time_wiring [OF s1(1)]
    by (simp add: wiring_balancer)
qed

text \<open>The calls the node makes to others, as an answer is worked out with one upstream node.\<close>

definition upstream_or_verifier :: "string \<Rightarrow> outgoing \<Rightarrow> bool" where
  "upstream_or_verifier url c \<longleftrightarrow> (\<exists>p. c = BrahmanCall p) \<or> (\<exists>content. c = UpstreamCall url content)"

lemma answer_upstream_wiring:
  assumes "answer_upstream w m p content s = Some (r, s')" and "wiring s = (url, [url])"
  shows "wiring s' = wiring s \<and> (\<exists>cs. sh_sent s' = sh_sent s @ cs \<and> (\<forall>c\<in>set cs. upstream_or_verifier url c))"
  using assms(1)
proof (cases rule: answer_upstream_cases)
  case Open
  then show ?thesis by simp
next
  case (Refused b e)
  then obtain picked where "select_node (rw_random w) (sh_balancer s) = Some (picked, b)" by blast
  with verify_state [OF Refused(2)] verify_books [OF Refused(2)] show ?thesis
    by (auto simp: select_wiring upstream_or_verifier_def)
next
  case (Sent b u x s1 picked)
  have "u = url"
  proof (cases picked)
    case None
    with Sent(5) assms(2) show ?thesis by (simp add: wiring_def)
  next
    case (Some e)
    with select_node_mem Sent(4) obtain n where "n \<in> set (lb_nodes (sh_balancer s))" "lb_endpoint n = e" by blast
    with assms(2) Some Sent(5) show ?thesis by (auto simp: wiring_def)
  qed
  moreover have "wiring s' = wiring s"
    using verify_state [OF Sent(2)] upstream_reply_wiring [OF Sent(3)] select_wiring [OF Sent(4)] by auto
  moreover have "sh_sent s' = sh_sent s1 @ [UpstreamCall u content]"
    using upstream_reply_books [OF Sent(3)] by (simp add: send_out_def)
  ultimately show ?thesis using verify_books [OF Sent(2)] by (auto simp: upstream_or_verifier_def)
qed

lemma answer_slot_wiring: "answer_slot w m p q s = Some (r, s') \<Longrightarrow> wiring s' = wiring s"
  by (auto simp: answer_slot_def Let_def bind_eq_Some_conv dest!: record_time_wiring record_reward_wiring)

lemma answer_locally_wiring:
  assumes "answer_locally w content q s = Some (r, s')" and "wiring s = (url, [url])"
  shows "wiring s' = wiring s \<and> (\<exists>cs. sh_sent s' = sh_sent s @ cs \<and> (\<forall>c\<in>set cs. upstream_or_verifier url c))"
proof (cases "method_of q = ''getSlot''")
  case True
  with assms(1) have "answer_slot w (method_of q) (params_of q) q (s\<lparr>sh_ap := increment_total (sh_ap s)\<rparr>) = Some (r, s')"
    by (simp add: answer_locally_def Let_def)
  with answer_slot_wiring [OF this] answer_slot_books [OF this] show ?thesis by simp
next
  case False
  with assms(1) have "answer_upstream w (method_of q) (params_of q) content
      (s\<lparr>sh_ap := increment_total (sh_ap s)\<rparr>) = Some (r, s')"
    by (simp add: answer_locally_def Let_def)
  from answer_upstream_wiring [OF this, of url] assms(2) show ?thesis by simp
qed

lemma admission_wiring: "same_but_admission s s' \<Longrightarrow> wiring s' = wiring s"
  by (auto simp: same_but_admission_def)

lemma answer_cached_wiring: "answer_cached w m v s = Some (r, s') \<Longrightarrow> wiring s' = wiring s"
  by (auto simp: answer_cached_def bind_eq_Some_conv dest!: record_time_wiring record_reward_wiring)

text \<open>The calls one request causes, given the one node of the geographic table.\<close>

definition request_target :: "config \<Rightarrow> outgoing \<Rightarrow> bool" where
  "request_target cfg c \<longleftrightarrow> upstream_or_verifier (solana_rpc_url cfg) c \<or>
     (\<exists>body. c = MeshCall (gn_endpoint (local_node cfg)) body)"

definition at_home :: "config \<Rightarrow> shared_state \<Rightarrow> bool" where
  "at_home cfg s \<longleftrightarrow> wiring s = (solana_rpc_url cfg, [solana_rpc_url cfg]) \<and> sh_config s = cfg \<and>
     sh_geo s = geo_register_node (local_node cfg) (geo_router_new (cfg_region cfg))"

lemma at_home_books: "same_books s s' \<Longrightarrow> wiring s' = wiring s \<Longrightarrow> at_home cfg s \<Longrightarrow> at_home cfg s'"
  by (simp add: at_home_def same_books_def)

lemma rpc_begin_home:
  assumes "rpc_begin w headers body s = Some (p, s')" and "at_home cfg s"
  shows "at_home cfg s' \<and> (\<exists>cs. sh_sent s' = sh_sent s @ cs \<and> (\<forall>c\<in>set cs. request_target cfg c))"
  using assms(1)
proof (cases rule: rpc_begin_cases)
  case (Early resp)
  note frame = admit_frame [OF Early(1)]
  from at_home_books [OF _ admission_wiring [OF frame] assms(2)] admission_books [OF frame] show ?thesis by simp
next
  case (Cached content q s1 v e r)
  note frame = admit_frame [OF Cached(1)]
  have "at_home cfg s1" using at_home_books [OF _ admission_wiring [OF frame] assms(2)] admission_books [OF frame] by simp
  then have "at_home cfg s'" using answer_cached_books [OF Cached(3)] answer_cached_wiring [OF Cached(3)]
    by (simp add: at_home_def same_books_def)
  then show ?thesis using admission_books [OF frame] answer_cached_books [OF Cached(3)] by simp
next
  case (Full content q s1 e)
  note frame = admit_frame [OF Full(1)]
  have "at_home cfg s1" using at_home_books [OF _ admission_wiring [OF frame] assms(2)] admission_books [OF frame] by simp
  then show ?thesis using Full(4) admission_books [OF frame] by (simp add: at_home_def)
next
  case (Held content q s1 e ex)
  note frame = admit_frame [OF Held(1)]
  have home: "at_home cfg s1" using at_home_books [OF _ admission_wiring [OF frame] assms(2)] admission_books [OF frame] by simp
  have best: "find_best_node (sh_geo s1) (cfg_region (sh_config s1)) = Some (local_node cfg)"
    using home best_node_is_local [of cfg] by (simp add: at_home_def)
  from Held(3) show ?thesis
  proof (elim disjE exE conjE)
    assume "s' = s1\<lparr>sh_engine := e, sh_executor := ex\<rparr>"
    then show ?thesis using home admission_books [OF frame] by (simp add: at_home_def)
  next
    fix node
    assume "find_best_node (sh_geo s1) (cfg_region (sh_config s1)) = Some node"
      "s' = send_out (MeshCall (gn_endpoint node) body) (s1\<lparr>sh_engine := e, sh_executor := ex\<rparr>)"
    with best home show ?thesis using admission_books [OF frame]
      by (simp add: at_home_def request_target_def) (simp add: send_out_def request_target_def)
  qed
qed

lemma rpc_handler_home:
  assumes "rpc_handler w headers body s = Some (p, s')" and "at_home cfg s"
  shows "at_home cfg s' \<and> (\<exists>cs. sh_sent s' = sh_sent s @ cs \<and> (\<forall>c\<in>set cs. request_target cfg c))"
  using assms(1)
proof (cases rule: rpc_handler_cases)
  case Stopped
  with rpc_begin_home [OF _ assms(2)] show ?thesis by blast
next
  case (Local p1 content q s1 r s2)
  obtain cs where s1: "at_home cfg s1" "sh_sent s1 = sh_sent s @ cs" "\<forall>c\<in>set cs. request_target cfg c"
    using rpc_begin_home [OF Local(1) assms(2)] by blast
  obtain ds where s2: "wiring s2 = wiring s1" "sh_sent s2 = sh_sent s1 @ ds"
    "\<forall>c\<in>set ds. upstream_or_verifier (solana_rpc_url cfg) c"
    using answer_locally_wiring [OF Local(3), of "solana_rpc_url cfg"] s1(1) by (auto simp: at_home_def)
  have "at_home cfg s2" using at_home_books [OF _ s2(1) s1(1)] answer_locally_books [OF Local(3)] by blast
  then have "at_home cfg s'" using Local(5) by (simp add: at_home_def)
  moreover have "sh_sent s' = sh_sent s @ (cs @ ds)" "\<forall>c\<in>set (cs @ ds). request_target cfg c"
    using Local(5) s1 s2 by (auto simp: request_target_def)
  ultimately show ?thesis by blast
next
  case (Mesh endpoint content q s1 answer)
  then show ?thesis using rpc_begin_home [OF Mesh(1) assms(2)] by (simp add: at_home_def)
qed

section \<open>Every call a run makes\<close>

text \<open>What the onion route may find in the registry: a key of 64 characters, as the hexadecimal
  text of a next hop is, is there only when a mobile client registered under it.\<close>

definition no_onion_peers :: "shared_state \<Rightarrow> bool" where
  "no_onion_peers s \<longleftrightarrow> (\<forall>k v. dm_get (sh_registry s) k = Some v \<longrightarrow> length k = 64 \<longrightarrow> (\<exists>rest. v = ''mobile:'' @ rest))"

definition goes_nowhere :: "config \<Rightarrow> outgoing \<Rightarrow> bool" where
  "goes_nowhere cfg c \<longleftrightarrow> request_target cfg c \<or> (\<exists>rest v. c = OnionCall (''mobile:'' @ rest) v)"

definition isolated :: "config \<Rightarrow> shared_state \<Rightarrow> bool" where
  "isolated cfg s \<longleftrightarrow> at_home cfg s \<and> no_onion_peers s \<and> (\<forall>c\<in>set (sh_sent s). goes_nowhere cfg c)"

text \<open>What \<open>libp2p\<close> and \<open>hex\<close> promise of the events: the text of a peer id is base58 of at most
  42 bytes, and hexadecimal text has two characters per byte.\<close>

fun real_event :: "'k daemon_event \<Rightarrow> bool" where
  "real_event (MeshEvent now (ConnectionEstablished peer addr)) \<longleftrightarrow> length peer < 64"
| "real_event (OnionRequest w layer) \<longleftrightarrow> (\<forall>bs. length (oc_hex (ow_crypto w) bs) = 2 * length bs)"
| "real_event _ \<longleftrightarrow> True"

lemma isolated_rpc:
  assumes "rpc_handler w headers body s = Some (p, s')" and "isolated cfg s"
  shows "isolated cfg s'"
  using rpc_handler_home [OF assms(1), of cfg] rpc_handler_books [OF assms(1)] assms(2)
  by (auto simp: isolated_def no_onion_peers_def same_books_def goes_nowhere_def)

lemma peeled_hop_length:
  assumes "peel_layer c k wrapped = Inr p" and "\<forall>bs. length (oc_hex c bs) = 2 * length bs"
  shows "length (pl_next_hop p) = 64"
  using assms by (auto simp: peel_layer_def and_then_Inr require_def Let_def split: if_splits)

lemma isolated_onion:
  assumes "onion_handler w layer s = Some (p, s')" and "isolated cfg s" and "real_event (OnionRequest w layer)"
  shows "isolated cfg s'"
proof (cases "ow_decode w layer")
  case None
  with assms(1,2) show ?thesis by (simp add: onion_handler_def)
next
  case (Some wrapped)
  show ?thesis
  proof (cases "peel_layer (ow_crypto w) (ow_key w) wrapped")
    case (Inl e)
    with assms(1,2) Some show ?thesis by (simp add: onion_handler_def)
  next
    case (Inr peeled)
    show ?thesis
    proof (cases "pl_is_exit peeled \<or> dm_get (sh_registry s) (pl_next_hop peeled) = None")
      case True
      with assms(1) Some Inr have "rpc_handler (ow_rpc w) anon_headers (pl_inner_payload peeled) s = Some (p, s')"
        by (auto simp: onion_handler_def split: if_splits)
      then show ?thesis using isolated_rpc assms(2) by blast
    next
      case False
      then obtain addr where addr: "dm_get (sh_registry s) (pl_next_hop peeled) = Some addr" "\<not> pl_is_exit peeled" by auto
      with assms(1) Some Inr have "s' = send_out (OnionCall (addr @ ''/onion'')
          (onion_request (ow_encode w (pl_inner_payload peeled)) (pl_next_hop peeled))) s"
        by (auto simp: onion_handler_def Let_def split: sum.splits)
      moreover obtain rest where "addr = ''mobile:'' @ rest"
        using addr(1) peeled_hop_length [OF Inr] assms(2,3) unfolding isolated_def no_onion_peers_def by fastforce
      ultimately show ?thesis using assms(2)
        by (auto simp: isolated_def at_home_def no_onion_peers_def goes_nowhere_def send_out_def wiring_def)
    qed
  qed
qed

lemma mesh_registry:
  assumes "handle_event now cfg ev p = Some p'" and "dm_get (pn_peer_registry p') k = Some v"
  shows "dm_get (pn_peer_registry p) k = Some v \<or> (\<exists>addr. ev = ConnectionEstablished k addr)"
  using assms
  by (auto simp: handle_event_def issue_def Let_def bind_eq_Some_conv lookup_update
      split: swarm_event.splits option.splits if_splits)

lemma isolated_mesh:
  assumes "handle_event now (sh_config s) ev (mesh_part s) = Some p" and "isolated cfg s"
    and "real_event (MeshEvent now ev)"
  shows "isolated cfg (put_mesh_part p s)"
proof -
  have "no_onion_peers (put_mesh_part p s)"
  proof (unfold no_onion_peers_def, intro allI impI)
    fix k v
    assume k: "dm_get (sh_registry (put_mesh_part p s)) k = Some v" "length k = 64"
    then have "dm_get (sh_registry s) k = Some v"
      using mesh_registry [OF assms(1), of k v] assms(3) by (auto simp: put_mesh_part_def mesh_part_def)
    with k(2) assms(2) show "\<exists>rest. v = ''mobile:'' @ rest" by (auto simp: isolated_def no_onion_peers_def)
  qed
  with assms(2) show ?thesis by (simp add: isolated_def at_home_def) (simp add: put_mesh_part_def)
qed

lemma settle_frame:
  assumes "settle w s = Some (r, s')"
  obtains b d where "s' = s\<lparr>sh_batch := b, sh_disk := d\<rparr>"
proof -
  obtain x b d where "persist_and_clear w ''./batches'' (sh_batch s, sh_disk s) = Some (x, b, d)"
    using assms by (auto simp: settle_def)
  with assms have "s' = s\<lparr>sh_batch := b, sh_disk := d\<rparr>" by (simp add: settle_def)
  then show thesis by (rule that)
qed

lemma wallet_frame:
  assumes "wallet_handler f now post s = Some (r, s')"
  obtains "s' = s" | t t' x where "sh_wallet s = Some t" "s' = s\<lparr>sh_wallet := Some t'\<rparr>"
    "wt_get_reward_status f now post t = Some (x, t')"
proof (cases "sh_wallet s")
  case None
  with assms that(1) show thesis by (simp add: wallet_handler_def)
next
  case (Some t)
  with assms obtain x t' where x: "wt_get_reward_status f now post t = Some (x, t')"
    by (auto simp: wallet_handler_def)
  with assms Some have "s' = s\<lparr>sh_wallet := Some t'\<rparr>" by (simp add: wallet_handler_def)
  with Some x show thesis by (intro that(2))
qed

lemma isolated_register: "isolated cfg s \<Longrightarrow> isolated cfg (snd (mobile_register_handler payload s))"
  by (auto simp: isolated_def at_home_def no_onion_peers_def mobile_register_handler_def lookup_update Let_def)

lemma isolated_step:
  assumes "daemon_step ev s = Some s'" and "real_event ev" and "isolated cfg s"
  shows "isolated cfg s'"
proof (cases ev)
  case (RpcRequest w headers body)
  with assms isolated_rpc show ?thesis by (auto simp: daemon_step_def)
next
  case (OnionRequest w layer)
  with assms isolated_onion show ?thesis by (fastforce simp: daemon_step_def)
next
  case (SettleBatch w)
  with assms(1) obtain r where "settle w s = Some (r, s')" by (auto simp: daemon_step_def)
  then obtain b d where "s' = s\<lparr>sh_batch := b, sh_disk := d\<rparr>" by (rule settle_frame)
  with assms(3) show ?thesis by (simp add: isolated_def at_home_def no_onion_peers_def)
next
  case (AskWallet to_sol now post)
  with assms(1) obtain r where "wallet_handler to_sol now post s = Some (r, s')" by (auto simp: daemon_step_def)
  then show ?thesis
  proof (cases rule: wallet_frame)
    case (2 t t' x)
    with assms(3) show ?thesis by (simp add: isolated_def at_home_def no_onion_peers_def)
  qed (use assms(3) in simp)
next
  case (MeshEvent now e)
  with assms isolated_mesh show ?thesis by (auto simp: daemon_step_def)
next
  case (RegisterMobile payload)
  with assms isolated_register show ?thesis by (auto simp: daemon_step_def)
qed (use assms in \<open>auto simp: daemon_step_def update_slot_def isolated_def at_home_def no_onion_peers_def split: option.splits\<close>)

interpretation isolation: kept_by_steps daemon_step real_event "isolated cfg" for cfg
  by unfold_locales (rule isolated_step)

lemma daemon_run_eq: "daemon_run evs s = isolation.run evs s"
proof (induction evs arbitrary: s)
  case (Cons ev evs)
  then show ?case by (cases "daemon_step ev s") simp_all
qed simp

section \<open>A run of the example node\<close>

text \<open>A request for a method of another shard while the node's own port does not answer: it tries
  the mesh, asks the verifier and is refused.\<close>

definition example_event :: "unit daemon_event" where
  "example_event = RpcRequest (example_world 5) [''x-forwarded-for'' \<mapsto> ''10.0.0.7''] (bytes_of ''send'')"

lemma example_send_run:
  obtains s' where "daemon_step example_event example_node = Some s'"
    and "MeshCall (''http://0.0.0.0:'' @ decimal 8080) (bytes_of ''send'') \<in> set (sh_sent s')"
proof -
  let ?w = "example_world 5" and ?q = "JObj [(''method'', JStr ''sendTransaction'')]"
    and ?h = "[''x-forwarded-for'' \<mapsto> ''10.0.0.7'']"
  note node = example_node_fields
  obtain r where limit: "check_rate_limit (rw_limit_secs ?w) (extract_ip ?h) (sh_ap example_node) =
      Some (sh_ap example_node\<lparr>ip_requests := dm_insert (extract_ip ?h) r (ip_requests (sh_ap example_node))\<rparr>, Allowed)"
    by (rule limiter_allows [of "sh_ap example_node" "extract_ip ?h" 0 "rw_limit_secs ?w"]) (use node(3) in \<open>simp_all add: ap_new_def\<close>)
  have not_banned: "dm_get (banned_ips (sh_ap example_node)) (extract_ip ?h) = None" by (simp add: node(3) ap_new_def)
  have permits: "pe_available (sh_executor example_node) = Suc 1" by (simp add: node(8))
  obtain ex where forward: "rpc_begin ?w ?h (bytes_of ''send'') example_node =
      Some (ToMesh (gn_endpoint (local_node example_config)) ''send'' ?q,
        send_out (MeshCall (gn_endpoint (local_node example_config)) (bytes_of ''send''))
          (example_node\<lparr>sh_battery := snd (bg_should_accept_request (rw_battery_secs ?w) (sh_battery example_node)),
            sh_ap := sh_ap example_node\<lparr>ip_requests := dm_insert (extract_ip ?h) r (ip_requests (sh_ap example_node))\<rparr>,
            sh_executor := ex\<rparr>))"
    by (rule call_forwarded [OF node(7) not_banned limit example_forwarded node(2) _ node(5) node(4) permits])
      (simp add: node(1) example_config_fields)
  have "rw_mesh ?w e b = Inl ''refused''" "rw_brahman ?w p = Inl ''refused''" for e b p
    by (simp_all add: example_world_def)
  then obtain s' where "rpc_handler ?w ?h (bytes_of ''send'') example_node = s'"
    "\<exists>p t. s' = Some (p, t) \<and> MeshCall (gn_endpoint (local_node example_config)) (bytes_of ''send'') \<in> set (sh_sent t)"
    using forward node
    by (simp add: rpc_handler_def answer_locally_def answer_upstream_def method_of_def rpc_finish_def send_out_def
        cb_is_open_def cb_new_def select_node_def lb_add_node_def lb_new_def verify_with_brahman_def skip_methods_def
        checked_add_def Let_def)
  then obtain p t where "rpc_handler ?w ?h (bytes_of ''send'') example_node = Some (p, t)"
    "MeshCall (gn_endpoint (local_node example_config)) (bytes_of ''send'') \<in> set (sh_sent t)" by blast
  then show thesis by (intro that [of t]) (simp_all add: example_event_def daemon_step_def local_node_def example_config_fields)
qed

section \<open>Properties\<close>



text \<open>What the node's books are made of.\<close>

definition books_empty :: "shared_state \<Rightarrow> bool" where
  "books_empty s \<longleftrightarrow> zb_receipts (sh_batch s) = [] \<and> ps_requests_served (sh_stats s) = 0 \<and>
     ps_earnings_lamports (sh_stats s) = 0 \<and> ps_peer_count (sh_stats s) = 0 \<and> sh_hole_punch_successes s = 0"

lemma books_empty_rpc: "rpc_handler w headers body s = Some (p, s') \<Longrightarrow> books_empty s \<Longrightarrow> books_empty s'"
  by (drule rpc_handler_books) (simp add: books_empty_def same_books_def)

lemma books_empty_onion: "onion_handler w layer s = Some (p, s') \<Longrightarrow> books_empty s \<Longrightarrow> books_empty s'"
  using books_empty_rpc
  by (auto simp: onion_handler_def Let_def send_out_def books_empty_def
      split: option.splits sum.splits if_splits)

lemma books_empty_settle: "settle w s = Some (r, s') \<Longrightarrow> books_empty s \<Longrightarrow> books_empty s'"
proof -
  assume "settle w s = Some (r, s')" and books: "books_empty s"
  then obtain b d where p: "persist_and_clear w ''./batches'' (sh_batch s, sh_disk s) = Some (r, b, d)"
    and s': "s' = s\<lparr>sh_batch := b, sh_disk := d\<rparr>"
    by (auto simp: settle_def)
  from p have "zb_receipts b = []" by (rule persist_cases) (use books in \<open>simp_all add: books_empty_def\<close>)
  with books s' show "books_empty s'" by (simp add: books_empty_def)
qed

lemma books_empty_step:
  assumes "daemon_step ev s = Some s'" and "books_empty s"
  shows "books_empty s'"
proof (cases ev)
  case (AskWallet to_sol now post)
  with assms(1) obtain r where "wallet_handler to_sol now post s = Some (r, s')" by (auto simp: daemon_step_def)
  then show ?thesis by (rule wallet_frame) (use assms(2) in \<open>simp_all add: books_empty_def\<close>)
next
  case (SettleBatch w)
  with assms books_empty_settle show ?thesis by (auto simp: daemon_step_def)
next
  case (RpcRequest w headers body)
  with assms books_empty_rpc show ?thesis by (auto simp: daemon_step_def)
next
  case (OnionRequest w layer)
  with assms books_empty_onion show ?thesis by (auto simp: daemon_step_def)
next
  case (RegisterMobile payload)
  with assms show ?thesis by (auto simp: daemon_step_def mobile_register_handler_def books_empty_def Let_def)
next
  case (MeshEvent now e)
  with assms show ?thesis by (auto simp: daemon_step_def put_mesh_part_def books_empty_def)
qed (use assms in \<open>auto simp: daemon_step_def update_slot_def books_empty_def split: option.splits\<close>)

interpretation bookkeeping: kept_by_steps daemon_step "\<lambda>_. True" books_empty
  by unfold_locales (rule books_empty_step)

text \<open>C35: every settlement is empty. Whatever requests the node has served, a settlement that is
  written holds no receipt and no lamports, and the counters that the status pages show, served
  requests, earnings, peers and successful hole punches, are zero: no event adds to them.\<close>

theorem settlements_are_empty:
  assumes "boot cfg pc te fresh_id batch_id started d = Some s" and "daemon_run evs s = Some s'"
    and "settle w s' = Some (Inr batch, s'')"
  shows "cb_receipt_count batch = 0 \<and> cb_total_lamports batch = 0 \<and>
    ps_requests_served (sh_stats s') = 0 \<and> ps_earnings_lamports (sh_stats s') = 0 \<and>
    ps_peer_count (sh_stats s') = 0 \<and> sh_hole_punch_successes s' = 0"
proof -
  have "books_empty s" using boot_fields [OF assms(1)] by (simp add: books_empty_def)
  with assms(2) bookkeeping.run_keeps have books: "books_empty s'" unfolding daemon_run_eq by blast
  obtain b d where "persist_and_clear w ''./batches'' (sh_batch s', sh_disk s') = Some (Inr batch, b, d)"
    using assms(3) by (auto simp: settle_def)
  then have "compress (bw_hash w) (bw_hex w) (bw_now w) (sh_batch s') = Some batch"
    by (rule persist_cases) simp_all
  with books show ?thesis
    by (auto simp: compress_def books_empty_def Let_def bind_eq_Some_conv)
qed

definition example_batch_world :: batch_world where
  "example_batch_world = \<lparr>bw_now = 9, bw_hash = id, bw_hex = hex_encode, bw_create_dir = (\<lambda>_ _. True),
     bw_to_json = (\<lambda>_. Some ''[]''), bw_write = (\<lambda>d f t. (d(f \<mapsto> t), True)), bw_uuid = ''b2''\<rparr>"

theorem settlements_are_empty_witness:
  "\<exists>s' batch s''. daemon_run [example_event]
      example_node = Some s' \<and> settle example_batch_world s' = Some (Inr batch, s'') \<and> cb_receipt_count batch = 0"
proof -
  obtain s' where s': "daemon_step example_event example_node = Some s'"
    by (rule example_send_run)
  then have run: "daemon_run [example_event]
      example_node = Some s'" by simp
  have "books_empty example_node" using example_node_fields by (simp add: books_empty_def)
  with books_empty_step [OF s'] have "zb_receipts (sh_batch s') = []" by (simp add: books_empty_def)
  then obtain batch s'' where st: "settle example_batch_world s' = Some (Inr batch, s'')"
    by (simp add: settle_def persist_and_clear_def compress_def example_batch_world_def Let_def)
  with run settlements_are_empty [OF example_boot run st] show ?thesis by blast
qed

end
