(* ===== verification/Rpc_Routes.thy ===== *)
theory Rpc_Routes
  imports Rpc_Properties Daemon
begin

text \<open>
  \<open>create_rpc_router\<close> of \<open>sns-daemon/src/rpc_proxy.rs\<close>: the table of routes and the dispatch of a
  request to its handler, with the bodies the handlers take. \<open>axum\<close> matches the path and the
  method (a \<open>get\<close> route also takes HEAD), answers for requests no route takes, and reads a body
  as JSON; its answers in those cases are fields of \<open>http_world\<close>.
\<close>

section \<open>The table\<close>

datatype endpoint =
    RpcEndpoint | RootPage | StatsPage | StatusPage | MeshPage | SecurityPage | TelemetryTotals | TelemetryInstall
  | OnionEndpoint | PerformancePage | WalletPage | SettleEndpoint | RegisterEndpoint | PeersPage | HealthPage
  | TelemetryIngest

datatype verb = GET | HEAD | POST | OtherVerb string

definition routes :: "(string \<times> (verb \<times> endpoint) list) list" where
  "routes = [(''/'', [(POST, RpcEndpoint), (GET, RootPage)]), (''/stats'', [(GET, StatsPage)]),
     (''/status'', [(GET, StatusPage)]), (''/mesh/status'', [(GET, MeshPage)]),
     (''/security/stats'', [(GET, SecurityPage)]), (''/telemetry/aggregate'', [(GET, TelemetryTotals)]),
     (''/telemetry/install'', [(GET, TelemetryInstall)]), (''/onion'', [(POST, OnionEndpoint)]),
     (''/performance'', [(GET, PerformancePage)]), (''/wallet'', [(GET, WalletPage)]),
     (''/settle'', [(POST, SettleEndpoint)]), (''/mobile/register'', [(POST, RegisterEndpoint)]),
     (''/mobile/peers'', [(GET, PeersPage)]), (''/health'', [(GET, HealthPage)]),
     (''/telemetry/ingest'', [(POST, TelemetryIngest)])]"

definition find_endpoint :: "verb \<Rightarrow> string \<Rightarrow> endpoint option" where
  "find_endpoint v path = Option.bind (map_of routes path)
     (\<lambda>methods. map_of methods (if v = HEAD then GET else v))"

section \<open>Bodies\<close>

text \<open>The derived readers take an object, whose other entries do not matter, or an array of all the
  fields in their order. (An object that repeats a field is refused before; a parsed value has
  no repeated entries.)\<close>

definition onion_request_of :: "json \<Rightarrow> (string \<times> string) option" where
  "onion_request_of v = (case v of
      JObj m \<Rightarrow> (case (map_of m ''layer'', map_of m ''next_hop'') of
          (Some (JStr layer), Some (JStr next_hop)) \<Rightarrow> Some (layer, next_hop)
        | _ \<Rightarrow> None)
    | JArr [JStr layer, JStr next_hop] \<Rightarrow> Some (layer, next_hop)
    | _ \<Rightarrow> None)"

record telemetry_payload =
  tp_v :: string
  tp_event :: string
  tp_uptime_secs :: "u64 option"
  tp_requests :: "u64 option"
  tp_peers_seen :: "u64 option"
  tp_hole_punch_attempts :: "u64 option"
  tp_hole_punch_successes :: "u64 option"
  tp_hole_punch_rate_pct :: "json_number option"

text \<open>A field of type \<open>Option<u64>\<close>, and one of type \<open>Option<f64>\<close>, which takes any number.\<close>

definition opt_u64 :: "json option \<Rightarrow> u64 option option" where
  "opt_u64 x = (case x of
      None \<Rightarrow> Some None | Some JNull \<Rightarrow> Some None | Some (JNum (PosInt n)) \<Rightarrow> Some (Some n) | _ \<Rightarrow> None)"

definition opt_f64 :: "json option \<Rightarrow> json_number option option" where
  "opt_f64 x = (case x of
      None \<Rightarrow> Some None | Some JNull \<Rightarrow> Some None | Some (JNum n) \<Rightarrow> Some (Some n) | _ \<Rightarrow> None)"

definition telemetry_fields :: "string list" where
  "telemetry_fields = [''v'', ''event'', ''uptime_secs'', ''requests'', ''peers_seen'', ''hole_punch_attempts'',
     ''hole_punch_successes'', ''hole_punch_rate_pct'']"

definition telemetry_payload_of :: "json \<Rightarrow> telemetry_payload option" where
  "telemetry_payload_of v = do {
     m \<leftarrow> (case v of JObj m \<Rightarrow> Some m
       | JArr vs \<Rightarrow> (if length vs = 8 then Some (zip telemetry_fields vs) else None) | _ \<Rightarrow> None);
     ver \<leftarrow> Option.bind (map_of m ''v'') as_str;
     ev \<leftarrow> Option.bind (map_of m ''event'') as_str;
     uptime \<leftarrow> opt_u64 (map_of m ''uptime_secs'');
     requests \<leftarrow> opt_u64 (map_of m ''requests'');
     peers \<leftarrow> opt_u64 (map_of m ''peers_seen'');
     attempts \<leftarrow> opt_u64 (map_of m ''hole_punch_attempts'');
     successes \<leftarrow> opt_u64 (map_of m ''hole_punch_successes'');
     rate \<leftarrow> opt_f64 (map_of m ''hole_punch_rate_pct'');
     Some \<lparr>tp_v = ver, tp_event = ev, tp_uptime_secs = uptime, tp_requests = requests, tp_peers_seen = peers,
       tp_hole_punch_attempts = attempts, tp_hole_punch_successes = successes, tp_hole_punch_rate_pct = rate\<rparr>
   }"

section \<open>Dispatch\<close>

text \<open>What a request gets from outside; \<open>hw_json\<close> is the reading of a body as JSON or \<open>axum\<close>'s
  rejection, \<open>hw_too_large\<close> its rejection of a raw body above the default limit.\<close>

record 'k http_world =
  hw_onion :: "'k onion_world"
  hw_batch :: batch_world
  hw_report :: report_world
  hw_env :: environment
  hw_format :: report_format
  hw_to_sol :: "u64 \<Rightarrow> f64"
  hw_now :: u64
  hw_balance :: balance_call
  hw_persist_text :: "persist_error \<Rightarrow> string"
  hw_version :: string
  hw_unmatched :: "verb \<Rightarrow> string \<Rightarrow> http_response"
  hw_too_large :: http_response
  hw_unprocessable :: http_response
  hw_json :: "header_map \<Rightarrow> u8 list \<Rightarrow> http_response + json"

definition body_limit :: nat where
  "body_limit = 2 * 1024 * 1024"

definition with_json ::
  "'k http_world \<Rightarrow> header_map \<Rightarrow> u8 list \<Rightarrow> (json \<Rightarrow> 'a option) \<Rightarrow> ('a \<Rightarrow> (progress \<times> shared_state) option) \<Rightarrow>
   shared_state \<Rightarrow> (progress \<times> shared_state) option" where
  "with_json w headers body read handler s = (case hw_json w headers body of
      Inl rejection \<Rightarrow> Some (Finished rejection, s)
    | Inr v \<Rightarrow> (case read v of None \<Rightarrow> Some (Finished (hw_unprocessable w), s) | Some x \<Rightarrow> handler x))"

definition finished :: "http_response \<times> shared_state \<Rightarrow> progress \<times> shared_state" where
  "finished = (\<lambda>(r, s). (Finished r, s))"

definition serve ::
  "'k http_world \<Rightarrow> endpoint \<Rightarrow> header_map \<Rightarrow> u8 list \<Rightarrow> shared_state \<Rightarrow> (progress \<times> shared_state) option" where
  "serve w e headers body s = (case e of
      RpcEndpoint \<Rightarrow> (if body_limit < length body then Some (Finished (hw_too_large w), s)
        else rpc_handler (ow_rpc (hw_onion w)) headers body s)
    | RootPage \<Rightarrow> Some (Finished root_get_handler, s)
    | StatsPage \<Rightarrow> Some (Finished (stats_handler (hw_report w) s), s)
    | StatusPage \<Rightarrow> Some (Finished (status_handler (hw_report w) (hw_env w) headers s), s)
    | MeshPage \<Rightarrow> Some (Finished (mesh_status_handler s), s)
    | SecurityPage \<Rightarrow> Some (Finished (security_stats_handler s), s)
    | TelemetryTotals \<Rightarrow> Some (Finished telemetry_aggregate_handler, s)
    | TelemetryInstall \<Rightarrow> Some (Finished telemetry_install_handler, s)
    | OnionEndpoint \<Rightarrow> with_json w headers body onion_request_of
        (\<lambda>(layer, next_hop). onion_handler (hw_onion w) layer s) s
    | PerformancePage \<Rightarrow> Some (Finished (performance_handler (hw_format w) s), s)
    | WalletPage \<Rightarrow> map_option finished (wallet_handler (hw_to_sol w) (hw_now w) (hw_balance w) s)
    | SettleEndpoint \<Rightarrow> map_option finished (settle_handler (hw_batch w) (hw_persist_text w) s)
    | RegisterEndpoint \<Rightarrow> with_json w headers body Some
        (\<lambda>payload. Some (finished (mobile_register_handler payload s))) s
    | PeersPage \<Rightarrow> Some (Finished (mobile_peers_handler s), s)
    | HealthPage \<Rightarrow> Some (Finished (health_handler (hw_version w)), s)
    | TelemetryIngest \<Rightarrow> with_json w headers body telemetry_payload_of
        (\<lambda>payload. Some (Finished telemetry_ingest_handler, s)) s)"

definition http_request ::
  "'k http_world \<Rightarrow> verb \<Rightarrow> string \<Rightarrow> header_map \<Rightarrow> u8 list \<Rightarrow> shared_state \<Rightarrow> (progress \<times> shared_state) option" where
  "http_request w v path headers body s = (case find_endpoint v path of
      None \<Rightarrow> Some (Finished (hw_unmatched w v path), s)
    | Some e \<Rightarrow> serve w e headers body s)"

section \<open>Properties\<close>

definition changing_routes :: "string list" where
  "changing_routes = [''/'', ''/onion'', ''/settle'', ''/mobile/register'']"

lemma find_endpoint_changing:
  assumes "find_endpoint v path = Some e" and "e \<in> {RpcEndpoint, OnionEndpoint, SettleEndpoint, RegisterEndpoint}"
  shows "v = POST \<and> path \<in> set changing_routes"
  using assms
  by (cases v) (auto simp: find_endpoint_def routes_def changing_routes_def bind_eq_Some_conv split: if_splits)

lemma find_endpoint_wallet:
  "find_endpoint v path = Some WalletPage \<Longrightarrow> (v = GET \<or> v = HEAD) \<and> path = ''/wallet''"
  by (cases v) (auto simp: find_endpoint_def routes_def bind_eq_Some_conv split: if_splits)

lemma wallet_page_frame:
  assumes "wallet_handler f now post s = Some (r, s')"
  shows "s' = s \<or> (\<exists>t b. sh_wallet s = Some t \<and>
    s' = s\<lparr>sh_wallet := Some (t\<lparr>wt_confirmed_balance := b, wt_last_balance_fetch := now\<rparr>)\<rparr>)"
  using assms
proof (cases rule: wallet_frame)
  case (2 t t' x)
  from 2(3) obtain b where "wt_get_onchain_balance now post t = Some (b, t')"
    by (cases "wt_get_onchain_balance now post t") (auto simp: wt_get_reward_status_def Let_def)
  from balance_frame [OF this] 2 show ?thesis by (cases s) auto
qed simp


text \<open>A node whose outside refuses all calls and that reads every body as an empty object.\<close>

definition example_http_world :: "u8 http_world" where
  "example_http_world = \<lparr>hw_onion = \<lparr>ow_rpc = example_world 5, ow_decode = (\<lambda>_. None), ow_encode = (\<lambda>_. ''''),
       ow_crypto = toy_crypto, ow_key = 0, ow_error_text = (\<lambda>_. ''''), ow_post = (\<lambda>_ _. Inl ''refused'')\<rparr>,
     hw_batch = example_batch_world, hw_report = \<lparr>pw_now = 0, pw_to_sol = json_u64, pw_date = (\<lambda>_. JNull)\<rparr>,
     hw_env = Map.empty, hw_format = \<lparr>rf_hit_rate = (\<lambda>_. JNull), rf_avg_ms = (\<lambda>_. JNull), rf_us_to_ms = json_u64\<rparr>,
     hw_to_sol = id, hw_now = 9, hw_balance = (\<lambda>_ _. Inl ''refused''), hw_persist_text = (\<lambda>_. ''''),
     hw_version = ''2.1.2'', hw_unmatched = (\<lambda>_ _. plain 404 Empty), hw_too_large = plain 413 Empty,
     hw_unprocessable = plain 422 Empty, hw_json = (\<lambda>_ _. Inr (JObj []))\<rparr>"

lemma example_register: "http_request example_http_world POST ''/mobile/register'' Map.empty [] s =
    Some (finished (mobile_register_handler (JObj []) s))"
  by (simp add: http_request_def find_endpoint_def routes_def serve_def with_json_def example_http_world_def)

lemma example_phone_registered: "snd (mobile_register_handler (JObj []) example_node) \<noteq> example_node"
proof
  assume "snd (mobile_register_handler (JObj []) example_node) = example_node"
  then have "sh_registry (snd (mobile_register_handler (JObj []) example_node)) = sh_registry example_node" by simp
  then have "dm_get (dm_insert ''unknown'' (''mobile:unknown'') (sh_registry example_node)) ''unknown'' =
      dm_get (sh_registry example_node) ''unknown''"
    by (simp add: mobile_register_handler_def json_index_def Let_def)
  then show False by (simp add: lookup_update example_node_fields)
qed


definition unsecured_pages :: "string list" where
  "unsecured_pages = [''/'', ''/mesh/status'', ''/health'']"

lemma status_handler_headers:
  "hr_headers (status_handler w env headers s) = (if hr_status (status_handler w env headers s) = 200 then security_headers else [])"
  by (simp add: status_handler_def Let_def)

lemma wallet_handler_headers:
  "wallet_handler f now post s = Some (r, s') \<Longrightarrow> hr_headers r = (if hr_status r = 200 then security_headers else [])"
  by (auto simp: wallet_handler_def split: option.splits)

fun page_secured :: "endpoint \<Rightarrow> nat \<Rightarrow> bool" where
  "page_secured RootPage status \<longleftrightarrow> False"
| "page_secured MeshPage status \<longleftrightarrow> False"
| "page_secured HealthPage status \<longleftrightarrow> False"
| "page_secured StatusPage status \<longleftrightarrow> status = 200"
| "page_secured WalletPage status \<longleftrightarrow> status = 200"
| "page_secured _ status \<longleftrightarrow> True"

definition pages :: "endpoint list" where
  "pages = [RootPage, StatsPage, StatusPage, MeshPage, SecurityPage, TelemetryTotals, TelemetryInstall,
     PerformancePage, WalletPage, PeersPage, HealthPage]"

lemma serve_headers:
  assumes "serve w e headers body s = Some (Finished r, s')" and "e \<in> set pages"
  shows "hr_headers r = (if page_secured e (hr_status r) then security_headers else [])"
proof (cases e)
  case WalletPage
  with assms(1) obtain x where "wallet_handler (hw_to_sol w) (hw_now w) (hw_balance w) s = Some (r, x)"
    by (auto simp: serve_def finished_def)
  from wallet_handler_headers [OF this] WalletPage show ?thesis by simp
next
  case StatusPage
  with assms(1) have "r = status_handler (hw_report w) (hw_env w) headers s" by (auto simp: serve_def)
  with StatusPage status_handler_headers [of "hw_report w" "hw_env w" headers s] show ?thesis by simp
qed (use assms in \<open>simp_all add: serve_def pages_def root_get_handler_def stats_handler_def mesh_status_handler_def
  security_stats_handler_def telemetry_aggregate_handler_def telemetry_install_handler_def performance_handler_def
  mobile_peers_handler_def health_handler_def Let_def, safe?, simp_all?\<close>)

lemma find_page:
  assumes "find_endpoint GET path = Some e"
  shows "e \<in> set pages \<and>
    (page_secured e n \<longleftrightarrow> path \<notin> set unsecured_pages \<and> (path \<in> {''/status'', ''/wallet''} \<longrightarrow> n = 200))"
  using assms
  by (simp add: find_endpoint_def routes_def bind_eq_Some_conv split: if_split_asm)
    (simp_all add: pages_def unsecured_pages_def)

text \<open>C29: the security headers are not on every response. Of the pages, the greeting, the mesh report
  and the health check have none, the status and the wallet page have them only with status 200,
  and the others always have all six.\<close>

theorem page_security_headers:
  assumes "http_request w GET path headers body s = Some (Finished r, s')" and "find_endpoint GET path \<noteq> None"
  shows "hr_headers r =
    (if path \<notin> set unsecured_pages \<and> (path \<in> {''/status'', ''/wallet''} \<longrightarrow> hr_status r = 200) then security_headers else [])"
proof -
  from assms obtain e where e: "find_endpoint GET path = Some e" and run: "serve w e headers body s = Some (Finished r, s')"
    by (auto simp: http_request_def)
  from find_page [OF e] serve_headers [OF run] show ?thesis by simp
qed

theorem page_security_headers_witness:
  "\<exists>r s'. http_request example_http_world GET ''/health'' Map.empty [] example_node = Some (Finished r, s') \<and> hr_headers r = []"
proof -
  have find: "find_endpoint GET ''/health'' = Some HealthPage" by (simp add: find_endpoint_def routes_def)
  then have run: "http_request example_http_world GET ''/health'' Map.empty [] example_node =
      Some (Finished (health_handler ''2.1.2''), example_node)"
    by (simp add: http_request_def serve_def example_http_world_def)
  with page_security_headers [OF run] find show ?thesis by (simp add: unsecured_pages_def)
qed

text \<open>C30: what one node reports another accepts. The heartbeat a node sends is read by the ingest route
  as exactly the counters it was made of, and is acknowledged without any change: neither it nor
  its sender leaves a trace.\<close>

theorem heartbeat_round_trip:
  assumes "te_send_heartbeat ratio now t = Some (url, v)" and "hw_json w headers body = Inr v"
  shows "telemetry_payload_of v = Some \<lparr>tp_v = te_version t, tp_event = ''heartbeat'',
      tp_uptime_secs = Some (of_nat ((now - te_uptime_start t) div 10 ^ 9)), tp_requests = Some (te_total_requests t),
      tp_peers_seen = Some (te_total_peers_seen t), tp_hole_punch_attempts = Some (te_hole_punch_attempts t),
      tp_hole_punch_successes = Some (te_hole_punch_successes t),
      tp_hole_punch_rate_pct = Some (Float (if 0 < te_hole_punch_attempts t
         then ratio (te_hole_punch_successes t) (te_hole_punch_attempts t) else 0))\<rparr> \<and>
    http_request w POST ''/telemetry/ingest'' headers body s = Some (Finished telemetry_ingest_handler, s)"
proof -
  have read: "telemetry_payload_of v = Some \<lparr>tp_v = te_version t, tp_event = ''heartbeat'',
      tp_uptime_secs = Some (of_nat ((now - te_uptime_start t) div 10 ^ 9)), tp_requests = Some (te_total_requests t),
      tp_peers_seen = Some (te_total_peers_seen t), tp_hole_punch_attempts = Some (te_hole_punch_attempts t),
      tp_hole_punch_successes = Some (te_hole_punch_successes t),
      tp_hole_punch_rate_pct = Some (Float (if 0 < te_hole_punch_attempts t
         then ratio (te_hole_punch_successes t) (te_hole_punch_attempts t) else 0))\<rparr>"
    using assms(1)
    by (auto simp: te_send_heartbeat_def telemetry_payload_of_def opt_u64_def opt_f64_def Let_def split: if_splits)
  moreover have "find_endpoint POST ''/telemetry/ingest'' = Some TelemetryIngest"
    by (simp add: find_endpoint_def routes_def)
  ultimately show ?thesis using assms(2) by (simp add: http_request_def serve_def with_json_def)
qed

theorem heartbeat_round_trip_witness:
  "\<exists>url v payload. te_send_heartbeat (\<lambda>_ _. 0) 5000000000 (te_new Map.empty ''2.1.2'' 0) = Some (url, v) \<and>
     telemetry_payload_of v = Some payload \<and> tp_uptime_secs payload = Some 5"
proof -
  obtain url v where sent: "te_send_heartbeat (\<lambda>_ _. 0) 5000000000 (te_new Map.empty ''2.1.2'' 0) = Some (url, v)"
    by (simp add: te_send_heartbeat_def te_new_def Let_def)
  have "hw_json (example_http_world\<lparr>hw_json := \<lambda>_ _. Inr v\<rparr>) Map.empty [] = Inr v" by simp
  from heartbeat_round_trip [OF sent this] sent show ?thesis by (simp add: te_new_def)
qed

end
