(* ===== verification/Rpc_Stages.thy ===== *)
theory Rpc_Stages
  imports Rpc_Frame
begin

text \<open>
  \<open>rpc_handler\<close> of \<open>sns-daemon/src/rpc_proxy.rs\<close> cut at the points where it waits: for a permit, for
  the mesh node, for the verifier, for the upstream node's answer and for the body of that answer.
  Between two of them the handler runs on; while it waits, other requests and tasks run. A
  request that waits is a value of \<open>task\<close>, and what it does when its wait is over is \<open>task_step\<close>.
  Locks are held only across one update of one component, so waiting for one is no stage. Stages
  that run on two threads at once are taken one after the other; that one of them has read the
  clock before the other wrote is kept, since every request has readings of its own.
  Run without interruption, the stages are the handler of \<open>Rpc_Handler\<close>.
\<close>

section \<open>Stages\<close>

text \<open>The clock readings and answers of a request are in its \<open>rpc_world\<close>. All stages but the first
  hold a permit.\<close>

datatype task =
    Queued rpc_world "u8 list" string json
  | Forwarding rpc_world "u8 list" string string json
  | Verifying rpc_world string string json
  | Calling rpc_world string string json
  | Reading rpc_world json "u8 list option"

fun holds_permit :: "task \<Rightarrow> bool" where
  "holds_permit (Queued w body content q) \<longleftrightarrow> False"
| "holds_permit _ \<longleftrightarrow> True"

fun stages_left :: "task \<Rightarrow> nat" where
  "stages_left (Queued w body content q) = 5"
| "stages_left (Forwarding w body endpoint content q) = 4"
| "stages_left (Verifying w url content q) = 3"
| "stages_left (Calling w url content q) = 2"
| "stages_left (Reading w q bytes) = 1"

type_synonym outcome = "(http_response + task) \<times> shared_state"

text \<open>The end of a request that holds a permit: the permit is dropped with the handler's frame.\<close>

definition answer_and_release :: "http_response \<times> shared_state \<Rightarrow> outcome" where
  "answer_and_release = (\<lambda>(r, s). (Inl r, s\<lparr>sh_executor := pe_release (sh_executor s)\<rparr>))"

text \<open>Up to the permit: admission and the cache.\<close>

definition rpc_arrive :: "rpc_world \<Rightarrow> header_map \<Rightarrow> u8 list \<Rightarrow> shared_state \<Rightarrow> outcome option" where
  "rpc_arrive w headers body s = do {
     (admitted, s) \<leftarrow> admit w headers body s;
     case admitted of
       Inl resp \<Rightarrow> Some (Inl resp, s)
     | Inr (content, q) \<Rightarrow> do {
         (cached, e) \<leftarrow> get_cached (rw_print w) (rw_cache_now w) (method_of q) (params_of q) (sh_engine s);
         let s = s\<lparr>sh_engine := e\<rparr>;
         case cached of
           Some v \<Rightarrow> map_option (\<lambda>(r, s). (Inl r, s)) (answer_cached w (method_of q) v s)
         | None \<Rightarrow> Some (Inr (Queued w body content q), s)
       }
   }"

definition call_upstream :: "rpc_world \<Rightarrow> string \<Rightarrow> string \<Rightarrow> json \<Rightarrow> shared_state \<Rightarrow> outcome" where
  "call_upstream w url content q s =
     (Inr (Calling w url content q), send_out (UpstreamCall url content) s)"

text \<open>From the local count to the next wait: the slot, the breaker, the choice of the upstream node,
  and the call of the verifier for the methods it is asked about.\<close>

definition start_local :: "rpc_world \<Rightarrow> string \<Rightarrow> json \<Rightarrow> shared_state \<Rightarrow> outcome option" where
  "start_local w content q s =
     (let meth = method_of q; params = params_of q; s = s\<lparr>sh_ap := increment_total (sh_ap s)\<rparr> in
      if meth = ''getSlot'' then map_option answer_and_release (answer_slot w meth params q s)
      else if cb_is_open (rw_breaker_secs w) (sh_breaker s) then Some (answer_and_release (plain 503 Empty, s))
      else do {
        (picked, b) \<leftarrow> select_node (rw_random w) (sh_balancer s);
        let s = s\<lparr>sh_balancer := b\<rparr>;
        let url = unwrap_or picked (sh_solana_rpc_url s);
        if meth \<in> set skip_methods then Some (call_upstream w url content q s)
        else Some (Inr (Verifying w url content q),
          send_out (BrahmanCall (karaka_payload (rw_print w) meth params)) s)
      })"

definition brahman_verdict :: "rpc_world \<Rightarrow> string \<Rightarrow> json \<Rightarrow> (string + bool) option" where
  "brahman_verdict w meth params = (case rw_brahman w (karaka_payload (rw_print w) meth params) of
      Inl e \<Rightarrow> Some (Inl (''Brahman unreachable: '' @ e))
    | Inr (Inl e) \<Rightarrow> Some (Inl (''Brahman parse error: '' @ e))
    | Inr (Inr result) \<Rightarrow> read_verdict (rw_print w) result)"

text \<open>What a request does when its wait is over. A queued request cannot go on while there is no
  permit; the other cases without a result are panics.\<close>

fun task_step :: "task \<Rightarrow> shared_state \<Rightarrow> outcome option" where
  "task_step (Queued w body content q) s = do {
     ex \<leftarrow> pe_acquire (method_of q) (Option.bind (json_nth (params_of q) 0) as_str) (sh_executor s);
     let s = s\<lparr>sh_executor := ex\<rparr>;
     if should_handle (sh_shard s) (method_of q) then start_local w content q s
     else (case find_best_node (sh_geo s) (cfg_region (sh_config s)) of
         None \<Rightarrow> start_local w content q s
       | Some node \<Rightarrow> Some (Inr (Forwarding w body (gn_endpoint node) content q),
           send_out (MeshCall (gn_endpoint node) body) s))
   }"
| "task_step (Forwarding w body endpoint content q) s = (case rw_mesh w endpoint body of
      Inr answer \<Rightarrow> Some (answer_and_release (mesh_response answer, s))
    | Inl e \<Rightarrow> start_local w content q s)"
| "task_step (Verifying w url content q) s = (case brahman_verdict w (method_of q) (params_of q) of
      None \<Rightarrow> None
    | Some (Inl violation) \<Rightarrow>
        Some (answer_and_release (secured 403 (JsonBody (JObj [(''error'', JStr violation)])), s))
    | Some (Inr _) \<Rightarrow> Some (call_upstream w url content q s))"
| "task_step (Calling w url content q) s = (case rw_upstream w url content of
      None \<Rightarrow> map_option answer_and_release (upstream_failed w url s)
    | Some answer \<Rightarrow> do {
        s \<leftarrow> record_time w (method_of q) s;
        b \<leftarrow> lb_record_success url (rw_elapsed_us w div 1000) (sh_balancer s);
        Some (Inr (Reading w q (ha_body answer)), s\<lparr>sh_balancer := b\<rparr>)
      })"
| "task_step (Reading w q None) s = Some (answer_and_release (plain 502 Empty, s))"
| "task_step (Reading w q (Some bytes)) s = do {
     let s = s\<lparr>sh_breaker := cb_record_success (sh_breaker s)\<rparr>;
     s \<leftarrow> record_reward s;
     Some (answer_and_release (case rw_parse_bytes w bytes of
         None \<Rightarrow> (plain 502 Empty, s)
       | Some v \<Rightarrow> (secured 200 (JsonBody (attach_proof (rw_hash w) (rw_hex w) (rw_print w) v)),
           store_answer w (method_of q) (params_of q) v s)))
   }"

section \<open>A request ends\<close>

lemma start_local_stages:
  "start_local w content q s = Some (Inr t, s') \<Longrightarrow> stages_left t \<le> 3 \<and> holds_permit t"
  by (auto simp: start_local_def Let_def answer_and_release_def call_upstream_def bind_eq_Some_conv
      split: if_splits)

lemma task_step_stages: "task_step t s = Some (Inr t', s') \<Longrightarrow> stages_left t' < stages_left t \<and> holds_permit t'"
proof (induction t s rule: task_step.induct)
  case (1 w body content q s)
  then show ?case by (auto simp: bind_eq_Some_conv Let_def dest!: start_local_stages split: if_splits option.splits)
next
  case (2 w body endpoint content q s)
  then show ?case by (auto simp: answer_and_release_def dest!: start_local_stages split: sum.splits)
qed (auto simp: bind_eq_Some_conv answer_and_release_def call_upstream_def Let_def split: option.splits sum.splits)

text \<open>The stages of one request one after the other.\<close>

function run_task :: "task \<Rightarrow> shared_state \<Rightarrow> (http_response \<times> shared_state) option" where
  "run_task t s = (case task_step t s of
      None \<Rightarrow> None
    | Some (Inl r, s') \<Rightarrow> Some (r, s')
    | Some (Inr t', s') \<Rightarrow> run_task t' s')"
  by pat_completeness auto

termination run_task
  by (relation "measure (\<lambda>(t, s). stages_left t)") (auto dest: task_step_stages)

declare run_task.simps [simp del]

section \<open>The stages make up the handler\<close>

definition resume :: "outcome option \<Rightarrow> (http_response \<times> shared_state) option" where
  "resume x = (case x of
      None \<Rightarrow> None
    | Some (Inl r, s) \<Rightarrow> Some (r, s)
    | Some (Inr t, s) \<Rightarrow> run_task t s)"

lemma run_task_step: "run_task t s = resume (task_step t s)"
  by (subst run_task.simps) (simp add: resume_def)

definition release :: "http_response \<times> shared_state \<Rightarrow> http_response \<times> shared_state" where
  "release = (\<lambda>(r, s). (r, s\<lparr>sh_executor := pe_release (sh_executor s)\<rparr>))"

lemma resume_simps [simp]:
  "resume None = None" "resume (Some (Inl r, s)) = Some (r, s)" "resume (Some (Inr t, s)) = run_task t s"
  "resume (map_option answer_and_release x) = map_option release x"
  "resume (Some (answer_and_release (r, s))) = Some (release (r, s))"
  by (auto simp: resume_def answer_and_release_def release_def split: option.splits)

lemma run_reading:
  "run_task (Reading w q bytes) s = (case bytes of
      None \<Rightarrow> Some (release (plain 502 Empty, s))
    | Some bs \<Rightarrow> map_option release (do {
        let s = s\<lparr>sh_breaker := cb_record_success (sh_breaker s)\<rparr>;
        s \<leftarrow> record_reward s;
        case rw_parse_bytes w bs of
          None \<Rightarrow> Some (plain 502 Empty, s)
        | Some v \<Rightarrow> Some (secured 200 (JsonBody (attach_proof (rw_hash w) (rw_hex w) (rw_print w) v)),
            store_answer w (method_of q) (params_of q) v s)
      }))"
proof (cases bytes)
  case (Some bs)
  show ?thesis
  proof (cases "record_reward (s\<lparr>sh_breaker := cb_record_success (sh_breaker s)\<rparr>)")
    case None
    with Some show ?thesis by (simp add: run_task_step)
  next
    case (Some s2)
    with \<open>bytes = Some bs\<close> show ?thesis
      by (cases "rw_parse_bytes w bs") (simp_all add: run_task_step)
  qed
qed (simp add: run_task_step)

text \<open>The call of the upstream node: the two waits of \<open>upstream_answered\<close> are the last two stages.\<close>

lemma run_calling:
  "run_task (Calling w url content q) s = map_option release (case rw_upstream w url content of
      None \<Rightarrow> upstream_failed w url s
    | Some answer \<Rightarrow> upstream_answered w (method_of q) (params_of q) url answer s)"
proof (cases "rw_upstream w url content")
  case (Some answer)
  show ?thesis
  proof (cases "record_time w (method_of q) s")
    case None
    with Some show ?thesis by (simp add: run_task_step upstream_answered_def)
  next
    case time: (Some s1)
    show ?thesis
    proof (cases "lb_record_success url (rw_elapsed_us w div 1000) (sh_balancer s1)")
      case None
      with Some time show ?thesis by (simp add: run_task_step upstream_answered_def)
    next
      case success: (Some b)
      then show ?thesis using \<open>rw_upstream w url content = Some answer\<close> time
        by (cases "ha_body answer") (simp_all add: run_task_step [of "Calling w url content q"] upstream_answered_def run_reading)
    qed
  qed
qed (simp add: run_task_step)

lemma run_call_upstream:
  "resume (Some (call_upstream w url content q s)) = map_option release
    (let s = send_out (UpstreamCall url content) s in
     case rw_upstream w url content of
       None \<Rightarrow> upstream_failed w url s
     | Some answer \<Rightarrow> upstream_answered w (method_of q) (params_of q) url answer s)"
  by (simp add: call_upstream_def run_calling Let_def)

lemma verify_with_brahman_verdict:
  assumes "m \<notin> set skip_methods"
  shows "verify_with_brahman w m p s =
    map_option (\<lambda>v. (v, send_out (BrahmanCall (karaka_payload (rw_print w) m p)) s)) (brahman_verdict w m p)"
  using assms by (auto simp: verify_with_brahman_def brahman_verdict_def Let_def split: sum.splits)

lemma resume_start_local:
  "resume (start_local w content q s) = map_option release (answer_locally w content q s)"
proof (cases "method_of q = ''getSlot''")
  case True
  then show ?thesis by (simp add: start_local_def answer_locally_def Let_def)
next
  case False
  let ?m = "method_of q" and ?p = "params_of q" and ?s = "s\<lparr>sh_ap := increment_total (sh_ap s)\<rparr>"
  show ?thesis
  proof (cases "cb_is_open (rw_breaker_secs w) (sh_breaker s)")
    case True
    with False show ?thesis by (simp add: start_local_def answer_locally_def answer_upstream_def Let_def)
  next
    case closed: False
    show ?thesis
    proof (cases "select_node (rw_random w) (sh_balancer s)")
      case None
      with False closed show ?thesis by (simp add: start_local_def answer_locally_def answer_upstream_def Let_def)
    next
      case (Some x)
      obtain picked b where x: "x = (picked, b)" by (cases x)
      let ?t = "?s\<lparr>sh_balancer := b\<rparr>" and ?url = "unwrap_or picked (sh_solana_rpc_url s)"
      show ?thesis
      proof (cases "?m \<in> set skip_methods")
        case True
        then have "verify_with_brahman w ?m ?p ?t = Some (Inr True, ?t)" by (simp add: verify_with_brahman_def)
        with True False closed Some x show ?thesis
          by (simp add: start_local_def answer_locally_def answer_upstream_def Let_def run_call_upstream
              cong: option.case_cong)
      next
        case asked: False
        note ver = verify_with_brahman_verdict [OF asked, of w ?p ?t]
        show ?thesis
        proof (cases "brahman_verdict w ?m ?p")
          case None
          with asked False closed Some x ver show ?thesis
            by (simp add: start_local_def answer_locally_def answer_upstream_def Let_def run_task_step)
        next
          case v: (Some v)
          with asked False closed Some x ver show ?thesis
            by (cases v) (simp_all add: start_local_def answer_locally_def answer_upstream_def Let_def
                run_task_step [of "Verifying w ?url content q"] run_call_upstream
                cong: option.case_cong)
        qed
      qed
    qed
  qed
qed

lemma pe_acquire_None: "pe_acquire m k e = None \<longleftrightarrow> pe_available e = 0"
  by (auto simp: pe_acquire_def Let_def split: option.splits)

lemma rpc_finish_release: "rpc_finish x = map_option (\<lambda>(resp, s). (Finished resp, s)) (map_option release x)"
  by (cases x) (auto simp: rpc_finish_def release_def)

text \<open>A queued request with a permit in sight, run to its end.\<close>

lemma run_queued:
  assumes "pe_acquire (method_of q) (Option.bind (json_nth (params_of q) 0) as_str) (sh_executor s) = Some ex"
  defines "s1 \<equiv> s\<lparr>sh_executor := ex\<rparr>"
  shows "run_task (Queued w body content q) s = map_option release
    (if should_handle (sh_shard s) (method_of q) then answer_locally w content q s1
     else (case find_best_node (sh_geo s) (cfg_region (sh_config s)) of
         None \<Rightarrow> answer_locally w content q s1
       | Some node \<Rightarrow>
           (let s2 = send_out (MeshCall (gn_endpoint node) body) s1 in
            case rw_mesh w (gn_endpoint node) body of
              Inr answer \<Rightarrow> Some (mesh_response answer, s2)
            | Inl e \<Rightarrow> answer_locally w content q s2)))"
proof (cases "should_handle (sh_shard s) (method_of q)")
  case True
  with assms(1) show ?thesis by (simp add: run_task_step resume_start_local s1_def Let_def)
next
  case False
  show ?thesis
  proof (cases "find_best_node (sh_geo s) (cfg_region (sh_config s))")
    case None
    with assms(1) False show ?thesis by (simp add: run_task_step resume_start_local s1_def Let_def)
  next
    case (Some node)
    with assms(1) False show ?thesis
      by (cases "rw_mesh w (gn_endpoint node) body")
        (simp_all add: run_task_step [of "Queued w body content q"] run_task_step [of "Forwarding w body (gn_endpoint node) content q"]
          resume_start_local s1_def Let_def)
  qed
qed

lemma stages_make_handler:
  "rpc_handler w headers body s = do {
     (r, s) \<leftarrow> rpc_arrive w headers body s;
     case r of
       Inl resp \<Rightarrow> Some (Finished resp, s)
     | Inr t \<Rightarrow>
         if pe_available (sh_executor s) = 0 then Some (Waiting, s)
         else map_option (\<lambda>(resp, s). (Finished resp, s)) (run_task t s)
   }"
proof (cases "admit w headers body s")
  case None
  then show ?thesis by (simp add: rpc_handler_def rpc_begin_def rpc_arrive_def)
next
  case (Some x)
  obtain v s1 where x: "x = (v, s1)" by (cases x)
  show ?thesis
  proof (cases v)
    case (Inl resp)
    with Some x show ?thesis by (simp add: rpc_handler_def rpc_begin_def rpc_arrive_def)
  next
    case (Inr tq)
    obtain content q where tq: "tq = (content, q)" by (cases tq)
    note adm = Some [unfolded x Inr tq]
    let ?m = "method_of q" and ?p = "params_of q" and ?key = "Option.bind (json_nth (params_of q) 0) as_str"
    show ?thesis
    proof (cases "get_cached (rw_print w) (rw_cache_now w) ?m ?p (sh_engine s1)")
      case None
      with adm show ?thesis by (simp add: rpc_handler_def rpc_begin_def rpc_arrive_def Let_def)
    next
      case (Some y)
      obtain cached e where y: "y = (cached, e)" by (cases y)
      note look = Some [unfolded y]
      show ?thesis
      proof (cases cached)
        case (Some v)
        with adm look show ?thesis
          by (cases "answer_cached w ?m v (s1\<lparr>sh_engine := e\<rparr>)")
            (auto simp: rpc_handler_def rpc_begin_def rpc_arrive_def Let_def)
      next
        case None
        note missed = look [unfolded None]
        show ?thesis
        proof (cases "pe_acquire ?m ?key (sh_executor s1)")
          case None
          with adm missed pe_acquire_None [of ?m ?key "sh_executor s1"] show ?thesis
            by (simp add: rpc_handler_def rpc_begin_def rpc_arrive_def Let_def)
        next
          case (Some ex)
          then have "pe_available (sh_executor s1) \<noteq> 0" using pe_acquire_None [of ?m ?key "sh_executor s1"] by simp
          with adm missed Some run_queued [of q "s1\<lparr>sh_engine := e\<rparr>" ex w body content] show ?thesis
            by (auto simp: rpc_handler_def rpc_begin_def rpc_arrive_def Let_def rpc_finish_release
                split: option.splits sum.splits)
        qed
      qed
    qed
  qed
qed

section \<open>Property\<close>


end
