(* ===== verification/Rpc_Interleaving.thy ===== *)
theory Rpc_Interleaving
  imports Rpc_Stages Rpc_Properties Daemon
begin

text \<open>
  Many requests at once: a node is its shared state, the requests that wait at one of the stages
  of \<open>Rpc_Stages\<close>, and the responses given so far. In one step a request arrives, or one that
  waits goes on to its next wait or its end, or its client goes away (the handler is dropped,
  and its permit with it), or one of the node's own tasks, another route or the mesh acts.
\<close>

section \<open>Steps\<close>

type_synonym node = "shared_state \<times> task list \<times> http_response list"

text \<open>What acts on the shared state beside the requests. An onion layer that ends here is a request
  with the headers \<open>anon_headers\<close>; one that is forwarded or refused changes only the calls.\<close>

fun beside_requests :: "'k daemon_event \<Rightarrow> bool" where
  "beside_requests (RpcRequest w headers body) \<longleftrightarrow> False"
| "beside_requests (OnionRequest w layer) \<longleftrightarrow> False"
| "beside_requests _ \<longleftrightarrow> True"

definition onion_ends_here :: "'k onion_world \<Rightarrow> string \<Rightarrow> shared_state \<Rightarrow> bool" where
  "onion_ends_here w layer s \<longleftrightarrow> (case ow_decode w layer of
      None \<Rightarrow> False
    | Some wrapped \<Rightarrow>
        (case peel_layer (ow_crypto w) (ow_key w) wrapped of
           Inl e \<Rightarrow> False
         | Inr peeled \<Rightarrow> pl_is_exit peeled \<or> dm_get (sh_registry s) (pl_next_hop peeled) = None))"

inductive arrive_step :: "node \<Rightarrow> node \<Rightarrow> bool" where
  at_once: "rpc_arrive w headers body s = Some (Inl r, s') \<Longrightarrow> arrive_step (s, ts, rs) (s', ts, rs @ [r])"
| queues: "rpc_arrive w headers body s = Some (Inr t, s') \<Longrightarrow> arrive_step (s, ts, rs) (s', ts @ [t], rs)"
| onion_elsewhere: "\<not> onion_ends_here (w :: u8 list onion_world) layer s \<Longrightarrow>
    onion_handler w layer s = Some (p, s') \<Longrightarrow> arrive_step (s, ts, rs) (s', ts, rs)"

inductive work_step :: "node \<Rightarrow> node \<Rightarrow> bool" where
  goes_on: "task_step t s = Some (Inr t', s') \<Longrightarrow>
    work_step (s, ts @ t # us, rs) (s', ts @ t' # us, rs)"
| answers: "task_step t s = Some (Inl r, s') \<Longrightarrow>
    work_step (s, ts @ t # us, rs) (s', ts @ us, rs @ [r])"
| drops: "\<not> holds_permit t \<Longrightarrow> work_step (s, ts @ t # us, rs) (s, ts @ us, rs)"
| drops_permit: "holds_permit t \<Longrightarrow>
    work_step (s, ts @ t # us, rs) (s\<lparr>sh_executor := pe_release (sh_executor s)\<rparr>, ts @ us, rs)"

inductive node_step :: "node \<Rightarrow> node \<Rightarrow> bool" where
  arrives: "arrive_step c c' \<Longrightarrow> node_step c c'"
| works: "work_step c c' \<Longrightarrow> node_step c c'"
| beside: "beside_requests (ev :: u8 list daemon_event) \<Longrightarrow> daemon_step ev s = Some s' \<Longrightarrow>
    node_step (s, ts, rs) (s', ts, rs)"

locale kept_by_relation =
  fixes step :: "'s \<Rightarrow> 's \<Rightarrow> bool" and keeps :: "'s \<Rightarrow> bool"
  assumes step_keeps: "step s s' \<Longrightarrow> keeps s \<Longrightarrow> keeps s'"
begin

lemma reachable_keeps: "step\<^sup>*\<^sup>* s s' \<Longrightarrow> keeps s \<Longrightarrow> keeps s'"
  by (induction rule: rtranclp_induct) (auto dest: step_keeps)

end

section \<open>What one step of a request writes\<close>

fun permits_of :: "http_response + task \<Rightarrow> nat" where
  "permits_of (Inl r) = 0"
| "permits_of (Inr t) = (if holds_permit t then 1 else 0)"

text \<open>The outcome of a step leaves the books alone, hands on or returns the permit, and earns what its
  response is worth.\<close>

definition fair_outcome :: "shared_state \<Rightarrow> nat \<Rightarrow> outcome \<Rightarrow> bool" where
  "fair_outcome s k = (\<lambda>(x, s'). same_books s s' \<and>
     pe_available (sh_executor s') + permits_of x = pe_available (sh_executor s) + k \<and>
     (\<forall>t. sh_wallet s = Some t \<longrightarrow> (case x of
         Inl r \<Rightarrow> earns t r (sh_wallet s')
       | Inr _ \<Rightarrow> sh_wallet s' = Some t)))"

lemma fair_release:
  assumes "same_books s s'" and "sh_executor s' = sh_executor s"
    and "\<And>t. sh_wallet s = Some t \<Longrightarrow> earns t r (sh_wallet s')"
  shows "fair_outcome s 1 (answer_and_release (r, s'))"
  using assms by (auto simp: fair_outcome_def answer_and_release_def pe_release_def same_books_def)

lemma fair_goes_on:
  assumes "same_books s s'" and "sh_executor s' = sh_executor s" and "sh_wallet s' = sh_wallet s" and "holds_permit t"
  shows "fair_outcome s 1 (Inr t, s')"
  using assms by (simp add: fair_outcome_def)

lemma fair_later:
  assumes "fair_outcome s1 k x" and "same_books s s1" and "sh_wallet s1 = sh_wallet s"
    and "pe_available (sh_executor s1) + k = pe_available (sh_executor s) + j"
  shows "fair_outcome s j x"
  using assms by (auto simp: fair_outcome_def same_books_def split: prod.splits)

lemma fair_call_upstream: "fair_outcome s 1 (call_upstream w url content q s)"
  by (simp add: call_upstream_def fair_outcome_def send_out_def same_books_def)

lemma fair_start_local:
  assumes "start_local w content q s = Some x"
  shows "fair_outcome s 1 x"
proof (cases "method_of q = ''getSlot''")
  case True
  with assms obtain r s' where slot: "answer_slot w (method_of q) (params_of q) q
      (s\<lparr>sh_ap := increment_total (sh_ap s)\<rparr>) = Some (r, s')" and x: "x = answer_and_release (r, s')"
    by (auto simp: start_local_def Let_def)
  show ?thesis unfolding x
    by (rule fair_release) (use answer_slot_books [OF slot] answer_slot_earns [OF slot] in \<open>auto simp: same_books_def\<close>)
next
  case False
  show ?thesis
  proof (cases "cb_is_open (rw_breaker_secs w) (sh_breaker s)")
    case True
    with False assms have x: "x = answer_and_release (plain 503 Empty, s\<lparr>sh_ap := increment_total (sh_ap s)\<rparr>)"
      by (simp add: start_local_def Let_def)
    show ?thesis unfolding x by (rule fair_release) (simp_all add: same_books_def earns_none)
  next
    case closed: False
    with False assms obtain picked b where sel: "select_node (rw_random w) (sh_balancer s) = Some (picked, b)"
      by (cases "select_node (rw_random w) (sh_balancer s)") (auto simp: start_local_def Let_def)
    let ?s = "s\<lparr>sh_ap := increment_total (sh_ap s), sh_balancer := b\<rparr>" and ?url = "unwrap_or picked (sh_solana_rpc_url s)"
    have x: "x = (if method_of q \<in> set skip_methods then call_upstream w ?url content q ?s
      else (Inr (Verifying w ?url content q), send_out (BrahmanCall (karaka_payload (rw_print w) (method_of q) (params_of q))) ?s))"
      using False closed assms sel by (auto simp: start_local_def Let_def)
    have "fair_outcome (s\<lparr>sh_ap := increment_total (sh_ap s), sh_balancer := b\<rparr>) 1 x"
      unfolding x
      by (split if_split, intro conjI impI fair_call_upstream, rule fair_goes_on) (simp_all add: same_books_def send_out_def)
    then show ?thesis by (rule fair_later) (simp_all add: same_books_def)
  qed
qed

lemma fair_reading:
  assumes "task_step (Reading w q bytes) s = Some x"
  shows "fair_outcome s 1 x"
proof (cases bytes)
  case None
  with assms have x: "x = answer_and_release (plain 502 Empty, s)" by simp
  show ?thesis unfolding x by (rule fair_release) (simp_all add: earns_none)
next
  case (Some bs)
  let ?s = "s\<lparr>sh_breaker := cb_record_success (sh_breaker s)\<rparr>"
  from Some assms obtain s2 where pay: "record_reward ?s = Some s2"
    and x: "x = answer_and_release (case rw_parse_bytes w bs of
        None \<Rightarrow> (plain 502 Empty, s2)
      | Some v \<Rightarrow> (secured 200 (JsonBody (attach_proof (rw_hash w) (rw_hex w) (rw_print w) v)),
          store_answer w (method_of q) (params_of q) v s2))"
    by (auto simp: bind_eq_Some_conv)
  note books = record_reward_books [OF pay]
  have paid: "\<exists>t'. wt_record_request t = Some t' \<and> sh_wallet s2 = Some t'" if "sh_wallet s = Some t" for t
    using record_reward_wallet [OF pay, of t] that by simp
  show ?thesis
  proof (cases "rw_parse_bytes w bs")
    case None
    then have x: "x = answer_and_release (plain 502 Empty, s2)" using x by simp
    show ?thesis unfolding x
      by (rule fair_release) (use books paid in \<open>auto simp: same_books_def intro: earns_502\<close>)
  next
    case (Some v)
    then have x: "x = answer_and_release (secured 200 (JsonBody (attach_proof (rw_hash w) (rw_hex w) (rw_print w) v)),
        store_answer w (method_of q) (params_of q) v s2)" using x by simp
    show ?thesis unfolding x
      by (rule fair_release) (use books paid in \<open>auto simp: same_books_def store_answer_def intro: earns_one\<close>)
  qed
qed

lemma fair_calling:
  assumes "task_step (Calling w url content q) s = Some x"
  shows "fair_outcome s 1 x"
proof (cases "rw_upstream w url content")
  case None
  with assms obtain r s' where failed: "upstream_failed w url s = Some (r, s')" and x: "x = answer_and_release (r, s')"
    by auto
  from failed have "r = plain 502 Empty" "sh_wallet s' = sh_wallet s"
    by (auto simp: upstream_failed_def bind_eq_Some_conv)
  then show ?thesis unfolding x
    by (intro fair_release) (use upstream_failed_books [OF failed] in \<open>simp_all add: earns_none\<close>)
next
  case (Some answer)
  with assms obtain s1 b where s1: "record_time w (method_of q) s = Some s1"
    and x: "x = (Inr (Reading w q (ha_body answer)), s1\<lparr>sh_balancer := b\<rparr>)"
    by (auto simp: bind_eq_Some_conv)
  show ?thesis unfolding x by (rule fair_goes_on) (use record_time_books [OF s1] in \<open>simp_all add: same_books_def\<close>)
qed

lemma fair_verifying:
  assumes "task_step (Verifying w url content q) s = Some x"
  shows "fair_outcome s 1 x"
proof -
  from assms have "x = call_upstream w url content q s \<or>
      (\<exists>e. x = answer_and_release (secured 403 (JsonBody (JObj [(''error'', JStr e)])), s))"
    by (auto split: option.splits sum.splits)
  then show ?thesis
  proof (elim disjE exE)
    fix e assume x: "x = answer_and_release (secured 403 (JsonBody (JObj [(''error'', JStr e)])), s)"
    show ?thesis unfolding x by (rule fair_release) (simp_all add: earns_none)
  qed (simp only: fair_call_upstream)
qed

lemma fair_forwarding:
  assumes "task_step (Forwarding w body endpoint content q) s = Some x"
  shows "fair_outcome s 1 x"
proof (cases "rw_mesh w endpoint body")
  case (Inr answer)
  with assms have x: "x = answer_and_release (mesh_response answer, s)" by simp
  show ?thesis unfolding x by (rule fair_release) (auto simp: mesh_response_def intro: earns_none)
qed (use assms fair_start_local in simp)

lemma fair_queued:
  assumes "task_step (Queued w body content q) s = Some x"
  shows "fair_outcome s 0 x"
proof -
  from assms obtain ex where ex: "pe_acquire (method_of q) (Option.bind (json_nth (params_of q) 0) as_str) (sh_executor s) = Some ex"
    by (auto simp: bind_eq_Some_conv)
  have rest: "(if should_handle (sh_shard s) (method_of q) then start_local w content q (s\<lparr>sh_executor := ex\<rparr>)
       else (case find_best_node (sh_geo s) (cfg_region (sh_config s)) of
           None \<Rightarrow> start_local w content q (s\<lparr>sh_executor := ex\<rparr>)
         | Some node \<Rightarrow> Some (Inr (Forwarding w body (gn_endpoint node) content q),
             send_out (MeshCall (gn_endpoint node) body) (s\<lparr>sh_executor := ex\<rparr>)))) = Some x"
    using assms ex by (simp add: Let_def cong: option.case_cong if_cong)
  from rest have "fair_outcome (s\<lparr>sh_executor := ex\<rparr>) 1 x"
    using fair_start_local [of w content q "s\<lparr>sh_executor := ex\<rparr>" x]
    by (auto simp: fair_outcome_def same_books_def send_out_def split: if_splits option.splits)
  then show ?thesis
    by (rule fair_later) (use pe_release_acquire [OF ex] in \<open>simp_all add: same_books_def pe_release_def\<close>)
qed

lemma fair_step: "task_step t s = Some x \<Longrightarrow> fair_outcome s (permits_of (Inr t)) x"
  using fair_queued fair_forwarding fair_verifying fair_calling fair_reading by (cases t) simp_all

lemma fair_arrive:
  assumes "rpc_arrive w headers body s = Some x"
  shows "fair_outcome s 0 x \<and> (\<forall>t s'. x = (Inr t, s') \<longrightarrow> \<not> holds_permit t)"
proof -
  from assms obtain v s1 where adm: "admit w headers body s = Some (v, s1)"
    by (auto simp: rpc_arrive_def bind_eq_Some_conv)
  note frame = admission_books [OF admit_frame [OF adm]]
  show ?thesis
  proof (cases v)
    case (Inl resp)
    with assms adm have "x = (Inl resp, s1)" by (simp add: rpc_arrive_def)
    moreover have "\<not> (\<exists>v. resp = secured 200 (JsonBody v))"
      using admit_Inl_unsecured [OF adm [unfolded Inl]] by auto
    ultimately show ?thesis using frame by (simp add: fair_outcome_def earns_none)
  next
    case (Inr tq)
    with assms adm obtain content q cached e where
      look: "get_cached (rw_print w) (rw_cache_now w) (method_of q) (params_of q) (sh_engine s1) = Some (cached, e)"
      and rest: "(case cached of
           Some v \<Rightarrow> map_option (\<lambda>(r, s). (Inl r, s)) (answer_cached w (method_of q) v (s1\<lparr>sh_engine := e\<rparr>))
         | None \<Rightarrow> Some (Inr (Queued w body content q), s1\<lparr>sh_engine := e\<rparr>)) = Some x"
      by (cases tq) (auto simp: rpc_arrive_def bind_eq_Some_conv Let_def)
    show ?thesis
    proof (cases cached)
      case None
      with rest frame show ?thesis by (auto simp: fair_outcome_def same_books_def)
    next
      case (Some v)
      with rest obtain r s' where hit: "answer_cached w (method_of q) v (s1\<lparr>sh_engine := e\<rparr>) = Some (r, s')"
        and x: "x = (Inl r, s')" by auto
      show ?thesis
        using frame answer_cached_books [OF hit] answer_cached_earns [OF hit] by (simp add: x fair_outcome_def same_books_def)
    qed
  qed
qed

section \<open>Permits\<close>

lemma onion_elsewhere_frame:
  assumes "\<not> onion_ends_here w layer s" and "onion_handler w layer s = Some (p, s')"
  shows "sh_executor s' = sh_executor s \<and> sh_wallet s' = sh_wallet s"
  using assms by (auto simp: onion_ends_here_def onion_handler_def Let_def send_out_def
      split: option.splits sum.splits if_splits)

lemma beside_executor:
  assumes "beside_requests ev" and "daemon_step ev s = Some s'"
  shows "sh_executor s' = sh_executor s"
proof (cases ev)
  case (AskWallet to_sol now post)
  with assms(2) obtain r where "wallet_handler to_sol now post s = Some (r, s')" by (auto simp: daemon_step_def)
  then show ?thesis by (rule wallet_frame) simp_all
next
  case (SettleBatch w)
  with assms(2) obtain r where "settle w s = Some (r, s')" by (auto simp: daemon_step_def)
  then show ?thesis by (rule settle_frame) simp
qed (use assms in \<open>auto simp: daemon_step_def mobile_register_handler_def put_mesh_part_def update_slot_def Let_def
    split: option.splits\<close>)

definition permits_ok :: "nat \<Rightarrow> node \<Rightarrow> bool" where
  "permits_ok limit = (\<lambda>(s, ts, rs). pe_available (sh_executor s) + length (filter holds_permit ts) = limit)"

lemma fair_permits:
  "fair_outcome s k (x, s') \<Longrightarrow> pe_available (sh_executor s') + permits_of x = pe_available (sh_executor s) + k"
  by (simp add: fair_outcome_def)

lemma permits_arrive: "arrive_step c c' \<Longrightarrow> permits_ok limit c \<Longrightarrow> permits_ok limit c'"
proof (induction rule: arrive_step.induct)
  case (at_once w headers body s r s' ts rs)
  then show ?case using fair_arrive [OF at_once.hyps] fair_permits [of s 0 "Inl r" s'] by (simp add: permits_ok_def)
next
  case (queues w headers body s t s' ts rs)
  then show ?case using fair_arrive [OF queues.hyps] fair_permits [of s 0 "Inr t" s'] by (simp add: permits_ok_def)
next
  case (onion_elsewhere w layer s p s' ts rs)
  then show ?case using onion_elsewhere_frame [OF onion_elsewhere.hyps] by (simp add: permits_ok_def)
qed

lemma permits_work: "work_step c c' \<Longrightarrow> permits_ok limit c \<Longrightarrow> permits_ok limit c'"
proof (induction rule: work_step.induct)
  case (goes_on t s t' s' ts us rs)
  then show ?case using fair_permits [OF fair_step [OF goes_on.hyps]] by (auto simp: permits_ok_def split: if_splits)
next
  case (answers t s r s' ts us rs)
  then show ?case using fair_permits [OF fair_step [OF answers.hyps]] by (auto simp: permits_ok_def split: if_splits)
qed (auto simp: permits_ok_def pe_release_def)

lemma permits_step: "node_step c c' \<Longrightarrow> permits_ok limit c \<Longrightarrow> permits_ok limit c'"
proof (induction rule: node_step.induct)
  case (beside ev s s' ts rs)
  then show ?case using beside_executor [OF beside.hyps] by (simp add: permits_ok_def)
qed (auto intro: permits_arrive permits_work)

interpretation permits: kept_by_relation node_step "permits_ok limit" for limit
  by unfold_locales (rule permits_step)

section \<open>Rewards\<close>

definition paid :: "wallet_tracker \<Rightarrow> nat \<Rightarrow> bool" where
  "paid t n \<longleftrightarrow> wt_session_requests t = of_nat n \<and> unat (wt_pending_lamports t) = 100 * n \<and> wt_lifetime_earnings t = 0"

lemma paid_request: "wt_record_request t = Some t' \<Longrightarrow> paid t n \<Longrightarrow> paid t' (Suc n)"
  by (auto simp: wt_record_request_def paid_def bind_eq_Some_conv dest!: checked_add_SomeD)

lemma paid_balance:
  assumes "wt_get_onchain_balance now post t = Some (r, t')" and "paid t n"
  shows "paid t' n"
  using balance_frame [OF assms(1)] assms(2) by (auto simp: paid_def)

lemma paid_report:
  assumes "wt_get_reward_status f now post t = Some (r, t')" and "paid t n"
  shows "paid t' n"
proof -
  from assms(1) obtain b where "wt_get_onchain_balance now post t = Some (b, t')"
    by (cases "wt_get_onchain_balance now post t") (auto simp: wt_get_reward_status_def Let_def)
  then show ?thesis using assms(2) by (rule paid_balance)
qed

definition answered_here :: "http_response \<Rightarrow> bool" where
  "answered_here r \<longleftrightarrow> hr_status r = 200 \<and> hr_headers r = security_headers \<and> (case hr_body r of JsonBody v \<Rightarrow> True | _ \<Rightarrow> False)"

lemma answered_here_iff: "answered_here r \<longleftrightarrow> (\<exists>v. r = secured 200 (JsonBody v))"
  by (cases r) (auto simp: answered_here_def secured_def split: body.splits)

definition reward_bounds :: "http_response list \<Rightarrow> nat \<Rightarrow> bool" where
  "reward_bounds rs n \<longleftrightarrow> length (filter answered_here rs) \<le> n \<and>
     n \<le> length (filter answered_here rs) + length (filter (\<lambda>r. hr_status r = 502) rs)"

definition rewards_ok :: "node \<Rightarrow> bool" where
  "rewards_ok = (\<lambda>(s, ts, rs). \<exists>t n. sh_wallet s = Some t \<and> paid t n \<and> reward_bounds rs n)"

lemma earns_bounds:
  assumes "earns t r x" and "paid t n" and "reward_bounds rs n"
  shows "\<exists>t' n'. x = Some t' \<and> paid t' n' \<and> reward_bounds (rs @ [r]) n'"
proof -
  from assms(1) obtain t' where x: "x = Some t'" and e: "if answered_here r then wt_record_request t = Some t'
      else if hr_status r = 502 then t' = t \<or> wt_record_request t = Some t' else t' = t"
    by (auto simp: earns_def answered_here_iff)
  have ok: "hr_status r = 200" if "answered_here r" using that by (simp add: answered_here_def)
  from e consider "wt_record_request t = Some t'" "answered_here r \<or> hr_status r = 502" | "t' = t" "\<not> answered_here r"
    by (auto split: if_splits)
  then have "\<exists>n'. paid t' n' \<and> reward_bounds (rs @ [r]) n'"
  proof cases
    case 1
    with paid_request [OF 1(1) assms(2)] assms(3) ok show ?thesis
      by (intro exI [of _ "Suc n"]) (auto simp: reward_bounds_def)
  next
    case 2
    with assms(2,3) show ?thesis by (intro exI [of _ n]) (auto simp: reward_bounds_def)
  qed
  with x show ?thesis by blast
qed

lemma beside_wallet:
  assumes "beside_requests ev" and "daemon_step ev s = Some s'" and "sh_wallet s = Some t" and "paid t n"
  shows "\<exists>t'. sh_wallet s' = Some t' \<and> paid t' n"
proof (cases ev)
  case (AskWallet to_sol now post)
  with assms(2) obtain r where "wallet_handler to_sol now post s = Some (r, s')" by (auto simp: daemon_step_def)
  then show ?thesis by (rule wallet_frame) (use assms(3,4) paid_report in auto)
next
  case (SettleBatch w)
  with assms(2) obtain r where "settle w s = Some (r, s')" by (auto simp: daemon_step_def)
  then show ?thesis by (rule settle_frame) (use assms(3,4) in simp)
qed (use assms in \<open>auto simp: daemon_step_def mobile_register_handler_def put_mesh_part_def update_slot_def Let_def
    split: option.splits\<close>)

lemma fair_wallet:
  "fair_outcome s k (x, s') \<Longrightarrow> sh_wallet s = Some t \<Longrightarrow>
     (case x of Inl r \<Rightarrow> earns t r (sh_wallet s') | Inr _ \<Rightarrow> sh_wallet s' = Some t)"
  by (simp add: fair_outcome_def)

lemma rewards_arrive: "arrive_step c c' \<Longrightarrow> rewards_ok c \<Longrightarrow> rewards_ok c'"
proof (induction rule: arrive_step.induct)
  case (at_once w headers body s r s' ts rs)
  then obtain t n where t: "sh_wallet s = Some t" "paid t n" "reward_bounds rs n" by (auto simp: rewards_ok_def)
  have "earns t r (sh_wallet s')" using fair_wallet [OF conjunct1 [OF fair_arrive [OF at_once.hyps]] t(1)] by simp
  from earns_bounds [OF this t(2,3)] show ?case by (simp add: rewards_ok_def)
next
  case (queues w headers body s t s' ts rs)
  then show ?case using fair_arrive [OF queues.hyps] fair_wallet [of s 0 "Inr t" s'] by (auto simp: rewards_ok_def)
next
  case (onion_elsewhere w layer s p s' ts rs)
  then show ?case using onion_elsewhere_frame [OF onion_elsewhere.hyps] by (simp add: rewards_ok_def)
qed

lemma rewards_work: "work_step c c' \<Longrightarrow> rewards_ok c \<Longrightarrow> rewards_ok c'"
proof (induction rule: work_step.induct)
  case (goes_on t s t' s' ts us rs)
  then show ?case using fair_wallet [OF fair_step [OF goes_on.hyps]] by (auto simp: rewards_ok_def)
next
  case (answers t s r s' ts us rs)
  then obtain tr n where t: "sh_wallet s = Some tr" "paid tr n" "reward_bounds rs n" by (auto simp: rewards_ok_def)
  have "earns tr r (sh_wallet s')" using fair_wallet [OF fair_step [OF answers.hyps] t(1)] by simp
  from earns_bounds [OF this t(2,3)] show ?case by (simp add: rewards_ok_def)
qed (simp_all add: rewards_ok_def)

lemma rewards_step: "node_step c c' \<Longrightarrow> rewards_ok c \<Longrightarrow> rewards_ok c'"
proof (induction rule: node_step.induct)
  case (beside ev s s' ts rs)
  then show ?case using beside_wallet [OF beside.hyps] by (fastforce simp: rewards_ok_def)
qed (auto intro: rewards_arrive rewards_work)

interpretation rewards: kept_by_relation node_step rewards_ok
  by unfold_locales (rule rewards_step)

section \<open>Progress\<close>

text \<open>The steps of the requests that are there, with nothing new arriving.\<close>

inductive serve_step :: "node \<Rightarrow> node \<Rightarrow> bool" where
  goes_on: "task_step t s = Some (Inr t', s') \<Longrightarrow> serve_step (s, ts @ t # us, rs) (s', ts @ t' # us, rs)"
| answers: "task_step t s = Some (Inl r, s') \<Longrightarrow> serve_step (s, ts @ t # us, rs) (s', ts @ us, rs @ [r])"

lemma serve_step_node_step: "serve_step c c' \<Longrightarrow> node_step c c'"
  by (induction rule: serve_step.induct) (auto intro: node_step.works work_step.intros)

lemma serve_run_node_run: "serve_step\<^sup>*\<^sup>* c c' \<Longrightarrow> node_step\<^sup>*\<^sup>* c c'"
  by (induction rule: rtranclp_induct) (auto intro: rtranclp.rtrancl_into_rtrancl serve_step_node_step)

definition work_left :: "node \<Rightarrow> nat" where
  "work_left = (\<lambda>(s, ts, rs). sum_list (map stages_left ts))"

lemma stages_left_pos: "0 < stages_left t" by (cases t) simp_all

lemma serve_step_less: "serve_step c c' \<Longrightarrow> work_left c' < work_left c"
proof (induction rule: serve_step.induct)
  case (goes_on t s t' s' ts us rs)
  then show ?case using task_step_stages [OF goes_on] by (simp add: work_left_def)
next
  case (answers t s r s' ts us rs)
  then show ?case using stages_left_pos [of t] by (simp add: work_left_def)
qed

lemma serve_steps_bound: "(serve_step ^^ n) c c' \<Longrightarrow> n + work_left c' \<le> work_left c"
proof (induction n arbitrary: c')
  case (Suc n)
  from Suc.prems obtain d where "(serve_step ^^ n) c d" "serve_step d c'" by auto
  with Suc.IH [of d] serve_step_less [of d c'] show ?case by simp
qed simp

lemma work_left_bound: "work_left (s, ts, rs) \<le> 5 * length ts"
proof (induction ts)
  case (Cons t ts)
  moreover have "stages_left t \<le> 5" by (cases t) simp_all
  ultimately show ?case by (simp add: work_left_def)
qed (simp add: work_left_def)

lemma served_alone:
  "run_task t s = Some (r, s') \<Longrightarrow> serve_step\<^sup>*\<^sup>* (s, ts @ t # us, rs) (s', ts @ us, rs @ [r])"
proof (induction t s rule: run_task.induct)
  case (1 t s)
  show ?case
  proof (cases "task_step t s")
    case None
    with 1(2) show ?thesis by (simp add: run_task_step)
  next
    case (Some x)
    obtain y s1 where x: "x = (y, s1)" by (cases x)
    show ?thesis
    proof (cases y)
      case (Inl r')
      with 1(2) Some x have "r' = r" "s1 = s'" by (simp_all add: run_task_step)
      with Some x Inl show ?thesis by (auto intro!: serve_step.answers)
    next
      case (Inr t')
      with 1(2) Some x have run: "run_task t' s1 = Some (r, s')" by (simp add: run_task_step [of t])
      have "serve_step (s, ts @ t # us, rs) (s1, ts @ t' # us, rs)"
        using Some x Inr by (auto intro: serve_step.goes_on)
      with 1(1) [OF Some x [symmetric] Inr run] show ?thesis by (rule converse_rtranclp_into_rtranclp [of serve_step, rotated])
    qed
  qed
qed

text \<open>No answer is lost or made: a step turns a request into its response or leaves it waiting.\<close>

lemma serve_step_counts: "serve_step c c' \<Longrightarrow> length (fst (snd c')) + length (snd (snd c')) =
    length (fst (snd c)) + length (snd (snd c)) \<and> (\<exists>new. snd (snd c') = snd (snd c) @ new)"
  by (induction rule: serve_step.induct) auto

lemma serve_run_counts: "serve_step\<^sup>*\<^sup>* c c' \<Longrightarrow> length (fst (snd c')) + length (snd (snd c')) =
    length (fst (snd c)) + length (snd (snd c)) \<and> (\<exists>new. snd (snd c') = snd (snd c) @ new)"
  by (induction rule: rtranclp_induct) (auto dest!: serve_step_counts)

lemma stuck_task:
  assumes "\<not> (\<exists>c. serve_step (s, ts, rs) c)" and "t \<in> set ts"
  shows "task_step t s = None"
proof (cases "task_step t s")
  case (Some x)
  obtain as bs where ts: "ts = as @ t # bs" using assms(2) by (auto simp: in_set_conv_decomp)
  obtain y s' where "x = (y, s')" by (cases x)
  with Some assms(1) show ?thesis unfolding ts by (cases y) (auto intro: serve_step.intros)
qed

text \<open>As long as a request is left, one that holds a permit or sees a free one is there.\<close>

lemma permits_live:
  assumes "permits_ok limit (s, ts, rs)" and "0 < limit" and "ts \<noteq> []"
  shows "\<exists>t\<in>set ts. holds_permit t \<or> 0 < pe_available (sh_executor s)"
  using assms by (cases ts) (auto simp: permits_ok_def filter_empty_conv)

text \<open>A request handled in one piece is one of the interleavings.\<close>

lemma handled_alone:
  assumes "rpc_handler w headers body s = Some (Finished r, s')"
  shows "node_step\<^sup>*\<^sup>* (s, ts, rs) (s', ts, rs @ [r])"
proof -
  obtain x s1 where arr: "rpc_arrive w headers body s = Some (x, s1)"
    using assms unfolding stages_make_handler by (auto simp: bind_eq_Some_conv)
  show ?thesis
  proof (cases x)
    case (Inl resp)
    with assms arr have "resp = r" "s1 = s'" by (simp_all add: stages_make_handler)
    with arr Inl show ?thesis by (auto intro!: node_step.arrives arrive_step.at_once)
  next
    case (Inr t)
    with assms arr have run: "run_task t s1 = Some (r, s')"
      by (auto simp: stages_make_handler split: if_splits)
    have "node_step (s, ts, rs) (s1, ts @ [t], rs)" using arr Inr by (auto intro: node_step.arrives arrive_step.queues)
    also have "node_step\<^sup>*\<^sup>* (s1, ts @ [t], rs) (s', ts, rs @ [r])"
      using serve_run_node_run [OF served_alone [OF run, of ts "[]" rs]] by simp
    finally show ?thesis .
  qed
qed

section \<open>Properties\<close>

lemma boot_permits:
  "boot cfg pc te fresh_id batch_id started d = Some s \<Longrightarrow>
     permits_ok (unat (max_concurrent_requests cfg)) (s, [], [])"
  by (frule boot_fields(8)) (simp add: permits_ok_def)

lemma boot_paid:
  assumes "boot cfg pc te fresh_id batch_id started d = Some s" and "sh_wallet s = Some t"
  shows "paid t 0"
proof -
  from assms boot_fields(9) [OF assms(1)] have "boot_wallet cfg = Some (Some t)" by simp
  then show ?thesis
    by (auto simp: boot_wallet_def wt_new_def paid_def split: if_splits)
qed

text \<open>C22: permits are neither lost nor made, in every interleaving. However requests arrive, wait, go
  on and are given up, among the node's other tasks, the permits that are there and the requests
  past the queue always add up to the configured limit: at most so many calls to the mesh, the
  verifier and the upstream node are under way at once, and a request waits in the queue only
  while that many others are under way.\<close>

theorem permits_in_every_interleaving:
  assumes "boot cfg pc te fresh_id batch_id started d = Some s" and "node_step\<^sup>*\<^sup>* (s, [], []) (s', ts, rs)"
  shows "pe_available (sh_executor s') + length (filter holds_permit ts) = unat (max_concurrent_requests cfg) \<and>
    (pe_acquire m key (sh_executor s') = None \<longrightarrow> length (filter holds_permit ts) = unat (max_concurrent_requests cfg))"
proof -
  have "permits_ok (unat (max_concurrent_requests cfg)) (s', ts, rs)"
    by (rule permits.reachable_keeps [OF assms(2) boot_permits [OF assms(1)]])
  then show ?thesis by (simp add: permits_ok_def pe_acquire_None)
qed

text \<open>A request for a method of another shard in flight on a node with two permits.\<close>

lemma example_forwarding:
  obtains s' ts where "node_step\<^sup>*\<^sup>* (example_node, [], []) (s', ts, [])" "length (filter holds_permit ts) = 1"
proof -
  let ?w = "example_world 5" and ?q = "JObj [(''method'', JStr ''sendTransaction'')]"
  note node = example_node_fields
  obtain r where adm: "admit ?w (from_address ''10.0.0.7'') (bytes_of ''send'') example_node =
    Some (Inr (''send'', ?q),
      example_node\<lparr>sh_battery := snd (bg_should_accept_request (rw_battery_secs ?w) (sh_battery example_node)),
        sh_ap := sh_ap example_node\<lparr>ip_requests := dm_insert ''10.0.0.7'' r (ip_requests (sh_ap example_node))\<rparr>\<rparr>)"
    by (rule example_admitted [OF node(7) _ _ forwarded_read [OF example_forwarded], of "from_address ''10.0.0.7''"])
      (simp_all add: node(3) ap_new_def example_addresses)
  then obtain s1 where arr: "rpc_arrive ?w (from_address ''10.0.0.7'') (bytes_of ''send'') example_node =
      Some (Inr (Queued ?w (bytes_of ''send'') ''send'' ?q), s1)"
    and s1: "pe_available (sh_executor s1) \<noteq> 0" "sh_geo s1 = sh_geo example_node" "sh_config s1 = example_config"
      "sh_shard s1 = sh_shard example_node"
    by (simp add: rpc_arrive_def get_cached_new node Let_def)
  obtain ex where "pe_acquire (method_of ?q) (Option.bind (json_nth (params_of ?q) 0) as_str) (sh_executor s1) = Some ex"
    using s1(1) pe_acquire_None by (cases "pe_acquire (method_of ?q) (Option.bind (json_nth (params_of ?q) 0) as_str) (sh_executor s1)") auto
  then obtain s2 where go: "task_step (Queued ?w (bytes_of ''send'') ''send'' ?q) s1 =
      Some (Inr (Forwarding ?w (bytes_of ''send'') (gn_endpoint (local_node example_config)) ''send'' ?q), s2)"
    using forwarded_elsewhere [OF example_forwarded, unfolded example_config_fields] by (simp add: s1 node best_node_is_local Let_def)
  have first: "node_step (example_node, [], []) (s1, [Queued ?w (bytes_of ''send'') ''send'' ?q], [])"
    using node_step.arrives [OF arrive_step.queues [OF arr, of "[]"]] by simp
  have second: "node_step (s1, [Queued ?w (bytes_of ''send'') ''send'' ?q], [])
      (s2, [Forwarding ?w (bytes_of ''send'') (gn_endpoint (local_node example_config)) ''send'' ?q], [])"
    using node_step.works [OF work_step.goes_on [OF go, of "[]" "[]"]] by simp
  from converse_rtranclp_into_rtranclp [of node_step, OF first r_into_rtranclp [of node_step, OF second]]
  show thesis by (rule that) simp
qed

theorem permits_in_every_interleaving_witness:
  "\<exists>s' ts. node_step\<^sup>*\<^sup>* (example_node, [], []) (s', ts, []) \<and> ts \<noteq> [] \<and> pe_available (sh_executor s') = 1"
proof -
  obtain s' ts where run: "node_step\<^sup>*\<^sup>* (example_node, [], []) (s', ts, [])" "length (filter holds_permit ts) = 1"
    by (rule example_forwarding)
  with permits_in_every_interleaving [OF example_boot run(1)] have "pe_available (sh_executor s') = 1"
    by (simp add: example_config_fields)
  with run show ?thesis by (intro exI [of _ s'] exI [of _ ts]) auto
qed





end
