(* ===== verification/Identity.thy ===== *)
theory Identity
  imports Config
begin

text \<open>
  \<open>sns-daemon/src/identity.rs\<close>: where a node's key comes from. Base64, the check of an Ed25519
  secret (\<open>SecretKey::try_from_bytes\<close>, the key it accepts) and the freshly generated secret are
  parameters; the disk is a map from paths to bytes, and writing may fail.
\<close>

record identity_world =
  iw_decode :: "string \<Rightarrow> u8 list option"
  iw_secret :: "u8 list \<Rightarrow> u8 list option"
  iw_fresh :: "u8 list"
  iw_writable :: "string \<Rightarrow> bool"

definition env_key :: "identity_world \<Rightarrow> environment \<Rightarrow> u8 list option" where
  "env_key w env = Option.bind (Option.bind (env ''SOLNET_NODE_KEY'') (iw_decode w)) (iw_secret w)"

definition key_path :: "environment \<Rightarrow> string" where
  "key_path env = var_or env ''SOLNET_KEY_PATH'' ''./node_keypair.bin''"

definition load_or_generate ::
  "identity_world \<Rightarrow> environment \<Rightarrow> (string \<rightharpoonup> u8 list) \<Rightarrow> u8 list \<times> (string \<rightharpoonup> u8 list)" where
  "load_or_generate w env d = (case env_key w env of
      Some secret \<Rightarrow> (secret, d)
    | None \<Rightarrow>
        (case Option.bind (d (key_path env)) (iw_secret w) of
           Some secret \<Rightarrow> (secret, d)
         | None \<Rightarrow> (iw_fresh w, if iw_writable w (key_path env) then d(key_path env \<mapsto> iw_fresh w) else d)))"

text \<open>A key that could be saved is the key of every later start with the same environment,
  whatever those starts would have generated.\<close>

lemma identity_stable:
  assumes "load_or_generate w env d = (secret, d')" and "iw_secret w (iw_fresh w) = Some (iw_fresh w)"
    and "iw_writable w (key_path env)" and "iw_decode w' = iw_decode w" and "iw_secret w' = iw_secret w"
  shows "load_or_generate w' env d' = (secret, d')"
  using assms by (auto simp: load_or_generate_def env_key_def split: option.splits if_splits)

text \<open>A key in the environment that does not decode is replaced by the one on disk, or a new
  one, and the key on disk is never touched by a valid key of the environment.\<close>

lemma env_key_first: "env_key w env = Some secret \<Longrightarrow> load_or_generate w env d = (secret, d)"
  by (simp add: load_or_generate_def)

end
