(* ===== verification/Mesh_Start.thy ===== *)
theory Mesh_Start
  imports P2p_Node Identity
begin

text \<open>
  \<open>start_p2p_node\<close> of \<open>sns-daemon/src/p2p.rs\<close> up to its event loop: the notice it prints, the key,
  the behaviour the swarm is built with, the probe of the bootstrap node and the first calls. The
  transports and the blocking HTTP client are libraries: whether they come up is a parameter.
\<close>

section \<open>Start\<close>

datatype mesh_notice = RelayBanner usize | IsolatedWarning | NoNotice

definition mesh_notice_of :: "config \<Rightarrow> mesh_notice" where
  "mesh_notice_of cfg =
     (if is_relay cfg then RelayBanner (relay_max_reservations cfg)
      else if bootstrap_nodes cfg = [] then IsolatedWarning else NoNotice)"

record connection_limits =
  cl_established_incoming :: nat
  cl_established_outgoing :: nat
  cl_pending_incoming :: nat
  cl_pending_outgoing :: nat
  cl_established_per_peer :: nat

record node_behaviour =
  nb_kademlia_server :: bool
  nb_identify_protocol :: string
  nb_relay_server :: "usize \<times> usize option \<times> usize"
  nb_dcutr :: bool
  nb_limits :: connection_limits
  nb_ping_secs :: nat
  nb_idle_secs :: nat
  nb_negotiating_streams :: nat
  nb_handler_buffer :: nat

definition sns_node_behaviour :: "config \<Rightarrow> platform_config \<Rightarrow> node_behaviour" where
  "sns_node_behaviour cfg pc = \<lparr>nb_kademlia_server = True, nb_identify_protocol = ''/solnet/2.1.0'',
     nb_relay_server = relay_limits cfg pc, nb_dcutr = enable_dcutr cfg,
     nb_limits = \<lparr>cl_established_incoming = 250, cl_established_outgoing = 250, cl_pending_incoming = 25,
       cl_pending_outgoing = 25, cl_established_per_peer = 3\<rparr>,
     nb_ping_secs = 15, nb_idle_secs = 30, nb_negotiating_streams = 10, nb_handler_buffer = 32\<rparr>"

text \<open>The probe is a call of the blocking client of \<open>reqwest\<close> in an asynchronous task, which that
  library documents to panic; the answer is only logged.\<close>

record mesh_world =
  mw_identity :: identity_world
  mw_tcp :: bool
  mw_dns :: bool
  mw_websocket :: bool
  mw_relay_client :: bool
  mw_probe_panics :: bool
  mw_parse :: multiaddr_parser

datatype mesh_start =
    MeshFails
  | MeshPanics
  | MeshRuns "u8 list" node_behaviour "swarm_call list"

definition tcp_address :: "config \<Rightarrow> string" where
  "tcp_address cfg = ''/ip4/0.0.0.0/tcp/'' @ decimal (unat (p2p_port cfg))"

definition quic_address :: "config \<Rightarrow> string" where
  "quic_address cfg = ''/ip4/0.0.0.0/udp/'' @ decimal (unat (p2p_port cfg)) @ ''/quic-v1''"

definition start_p2p_node ::
  "mesh_world \<Rightarrow> platform_target \<Rightarrow> environment \<Rightarrow> config \<Rightarrow> platform_config \<Rightarrow>
   (string \<rightharpoonup> u8 list) \<Rightarrow> mesh_start \<times> (string \<rightharpoonup> u8 list)" where
  "start_p2p_node w target env cfg pc d =
     (let (local_key, d) = load_or_generate (mw_identity w) env d in
      (if \<not> (mw_tcp w \<and> mw_dns w \<and> mw_websocket w \<and> mw_relay_client w) then MeshFails
       else if target \<noteq> Android \<and> mw_probe_panics w then MeshPanics
       else if mw_parse w (tcp_address cfg) = None \<or> mw_parse w (quic_address cfg) = None then MeshFails
       else (case start_calls (mw_parse w) cfg of
           None \<Rightarrow> MeshPanics
         | Some calls \<Rightarrow> MeshRuns local_key (sns_node_behaviour cfg pc) calls), d))"

section \<open>What a mesh that is up has done\<close>

lemma start_calls_iff:
  "start_calls parse cfg = Some calls \<longleftrightarrow>
     parse (tcp_address cfg) \<noteq> None \<and> parse (quic_address cfg) \<noteq> None \<and> parse BOOTSTRAP_ADDR \<noteq> None \<and>
     calls = [ListenOn (tcp_address cfg), ListenOn (quic_address cfg)] @ dial_calls parse BOOTSTRAP_ADDR @
       concat (map (dial_calls parse) (bootstrap_nodes cfg)) @
       (if bootstrap_nodes cfg \<noteq> [] then [Bootstrap] else [])"
  by (auto simp: start_calls_def tcp_address_def quic_address_def Let_def)

lemma dial_calls_cases:
  "dial_calls parse b = (case parse b of None \<Rightarrow> [] | Some x \<Rightarrow> Dial b # (case x of None \<Rightarrow> [] | Some p \<Rightarrow> [AddAddress p b]))"
  by (simp add: dial_calls_def split: option.split)

lemma dialled: "Dial a \<in> set (dial_calls parse b) \<longleftrightarrow> a = b \<and> parse b \<noteq> None"
  by (cases "parse b") (auto simp: dial_calls_cases split: option.split)

lemma known: "AddAddress p a \<in> set (dial_calls parse b) \<longleftrightarrow> a = b \<and> parse b = Some (Some p)"
  by (cases "parse b") (auto simp: dial_calls_cases split: option.split)

lemma no_bootstrap: "Bootstrap \<notin> set (dial_calls parse b)"
  by (auto simp: dial_calls_cases split: option.split)

lemma mesh_runs_cases:
  assumes "start_p2p_node w target env cfg pc d = (MeshRuns local_key b calls, d')"
  shows "load_or_generate (mw_identity w) env d = (local_key, d')" "b = sns_node_behaviour cfg pc"
    "start_calls (mw_parse w) cfg = Some calls"
  using assms by (auto simp: start_p2p_node_def split: prod.splits if_splits option.splits)

lemma relays_iff:
  "nb_relay_server (sns_node_behaviour cfg pc) = (relay_max_circuits cfg, None, relay_max_reservations cfg) \<longleftrightarrow>
     is_relay cfg \<and> pc_p2p_enabled pc"
  by (simp add: sns_node_behaviour_def relay_limits_def Let_def)

text \<open>What a mesh task that has come up has asked of the swarm. It dials the built-in bootstrap
  address and every configured one that parses, and nothing else; it knows the peer id of those
  addresses that name one; it asks the mesh for peers only when addresses are configured; and it
  serves circuits exactly when it is configured as a relay and the platform is not a mobile one,
  though the relay banner depends on the configuration alone.\<close>

theorem mesh_start_contract:
  assumes "start_p2p_node w target env cfg pc d = (MeshRuns local_key b calls, d')"
  shows "(\<forall>a. Dial a \<in> set calls \<longleftrightarrow>
      a = BOOTSTRAP_ADDR \<or> a \<in> set (bootstrap_nodes cfg) \<and> mw_parse w a \<noteq> None) \<and>
    (\<forall>p a. AddAddress p a \<in> set calls \<longleftrightarrow> Dial a \<in> set calls \<and> mw_parse w a = Some (Some p)) \<and>
    (Bootstrap \<in> set calls \<longleftrightarrow> bootstrap_nodes cfg \<noteq> []) \<and>
    (nb_relay_server b = (relay_max_circuits cfg, None, relay_max_reservations cfg) \<longleftrightarrow>
      (\<exists>n. mesh_notice_of cfg = RelayBanner n) \<and> pc_p2p_enabled pc)"
  using mesh_runs_cases [OF assms]
  by (auto simp: start_calls_iff dialled known no_bootstrap relays_iff mesh_notice_of_def)

definition example_mesh :: mesh_world where
  "example_mesh = \<lparr>mw_identity = \<lparr>iw_decode = \<lambda>_. None, iw_secret = Some, iw_fresh = [7], iw_writable = \<lambda>_. True\<rparr>,
     mw_tcp = True, mw_dns = True, mw_websocket = True, mw_relay_client = True, mw_probe_panics = False,
     mw_parse = \<lambda>a. Some (if a = BOOTSTRAP_ADDR then Some ''12D3'' else None)\<rparr>"

lemma example_mesh_runs:
  obtains local_key b calls d' where "start_p2p_node example_mesh target env cfg pc d = (MeshRuns local_key b calls, d')"
  by (cases "load_or_generate (mw_identity example_mesh) env d")
    (auto simp: start_p2p_node_def example_mesh_def start_calls_def Let_def)

theorem mesh_start_contract_witness:
  "\<exists>k b calls d'. start_p2p_node example_mesh Linux Map.empty (from_env Map.empty) (get_config Linux Map.empty) Map.empty =
      (MeshRuns k b calls, d') \<and> AddAddress ''12D3'' BOOTSTRAP_ADDR \<in> set calls"
proof -
  obtain k b calls d' where run: "start_p2p_node example_mesh Linux Map.empty (from_env Map.empty)
      (get_config Linux Map.empty) Map.empty = (MeshRuns k b calls, d')"
    by (rule example_mesh_runs)
  with mesh_start_contract [OF run] show ?thesis
    by (intro exI [of _ k] exI [of _ b] exI [of _ calls] exI [of _ d']) (simp add: example_mesh_def)
qed

end
