(* ===== verification/Daemon_Process.thy ===== *)
theory Daemon_Process
  imports Rpc_Interleaving Mesh_Start
begin

text \<open>
  The process around the node, from \<open>main\<close> of \<open>sns-daemon/src/main.rs\<close>: the start, the port, the
  mesh task, signals, the drain, and how it ends. The release profile of \<open>Cargo.toml\<close> has
  \<open>panic = "abort"\<close> and \<open>overflow-checks = true\<close>: a panic of any task, a subtraction below zero
  included, ends the process.
\<close>

section \<open>Processes\<close>

datatype ending = Exited nat | Aborted | Killed

datatype mesh_task = Starting | Meshing | MeshEnded

record process =
  pr_node :: node
  pr_listening :: bool
  pr_mesh :: mesh_task
  pr_draining :: bool

datatype run_state = Up process | Down ending

definition main_start ::
  "config \<Rightarrow> platform_config \<Rightarrow> telemetry \<Rightarrow> string \<Rightarrow> string \<Rightarrow> int \<Rightarrow> disk \<Rightarrow> run_state" where
  "main_start cfg pc te fresh_id batch_id started d = (case boot cfg pc te fresh_id batch_id started d of
      Some s \<Rightarrow> Up \<lparr>pr_node = (s, [], []), pr_listening = False, pr_mesh = Starting, pr_draining = False\<rparr>
    | None \<Rightarrow> Down (if pe_new (max_concurrent_requests cfg) = None then Aborted else Exited 1))"

text \<open>What can act beside the requests: routes once the port is bound, mesh events while the mesh is
  up, the periodic tasks at any time.\<close>

fun acts_now :: "process \<Rightarrow> u8 list daemon_event \<Rightarrow> bool" where
  "acts_now p (RegisterMobile payload) \<longleftrightarrow> pr_listening p"
| "acts_now p (AskWallet to_sol now post) \<longleftrightarrow> pr_listening p"
| "acts_now p (MeshEvent now e) \<longleftrightarrow> pr_mesh p = Meshing"
| "acts_now p ev \<longleftrightarrow> beside_requests ev"

text \<open>A request without a next step: a queued one waits while there is no permit, any other has
  panicked.\<close>

fun waits :: "task \<Rightarrow> shared_state \<Rightarrow> bool" where
  "waits (Queued w body content q) s \<longleftrightarrow> pe_available (sh_executor s) = 0"
| "waits _ s \<longleftrightarrow> False"

definition task_panics :: "task \<Rightarrow> shared_state \<Rightarrow> bool" where
  "task_panics t s \<longleftrightarrow> \<not> waits t s \<and> task_step t s = None"

text \<open>The signals that start the drain: SIGINT everywhere, SIGTERM on Unix.\<close>

datatype os_signal = SigInt | SigTerm | OtherSignal

definition shutdown_signal :: "platform_target \<Rightarrow> os_signal \<Rightarrow> bool" where
  "shutdown_signal target sig \<longleftrightarrow> sig = SigInt \<or> sig = SigTerm \<and> target \<noteq> Windows"

section \<open>Steps\<close>

text \<open>A connection that is open when the signal comes may still bring a request. Before the port is
  bound no handler is installed, and a signal has its default effect, as others always have.\<close>

inductive process_step :: "platform_target \<Rightarrow> config \<Rightarrow> platform_config \<Rightarrow> run_state \<Rightarrow> run_state \<Rightarrow> bool"
  for target cfg pc where
  binds: "\<not> pr_listening p \<Longrightarrow> process_step target cfg pc (Up p) (Up (p\<lparr>pr_listening := True\<rparr>))"
| bind_fails: "\<not> pr_listening p \<Longrightarrow> process_step target cfg pc (Up p) (Down (Exited 1))"
| mesh_starts: "pr_mesh p = Starting \<Longrightarrow> start_p2p_node w target env cfg pc d = (MeshRuns k b calls, d') \<Longrightarrow>
    process_step target cfg pc (Up p) (Up (p\<lparr>pr_mesh := Meshing\<rparr>))"
| mesh_fails: "pr_mesh p = Starting \<Longrightarrow> start_p2p_node w target env cfg pc d = (MeshFails, d') \<Longrightarrow>
    process_step target cfg pc (Up p) (Up (p\<lparr>pr_mesh := MeshEnded\<rparr>))"
| mesh_panics: "pr_mesh p = Starting \<Longrightarrow> start_p2p_node w target env cfg pc d = (MeshPanics, d') \<Longrightarrow>
    process_step target cfg pc (Up p) (Down Aborted)"
| arrives: "pr_listening p \<Longrightarrow> arrive_step (pr_node p) n \<Longrightarrow>
    process_step target cfg pc (Up p) (Up (p\<lparr>pr_node := n\<rparr>))"
| works: "work_step (pr_node p) n \<Longrightarrow> process_step target cfg pc (Up p) (Up (p\<lparr>pr_node := n\<rparr>))"
| acts: "acts_now p ev \<Longrightarrow> pr_node p = (s, ts, rs) \<Longrightarrow> daemon_step ev s = Some s' \<Longrightarrow>
    process_step target cfg pc (Up p) (Up (p\<lparr>pr_node := (s', ts, rs)\<rparr>))"
| arrival_panics: "pr_listening p \<Longrightarrow> rpc_arrive w headers body (fst (pr_node p)) = None \<Longrightarrow>
    process_step target cfg pc (Up p) (Down Aborted)"
| request_panics: "pr_node p = (s, ts, rs) \<Longrightarrow> t \<in> set ts \<Longrightarrow> task_panics t s \<Longrightarrow>
    process_step target cfg pc (Up p) (Down Aborted)"
| act_panics: "acts_now p ev \<Longrightarrow> daemon_step ev (fst (pr_node p)) = None \<Longrightarrow>
    process_step target cfg pc (Up p) (Down Aborted)"
| killed: "\<not> (pr_listening p \<and> shutdown_signal target sig) \<Longrightarrow> process_step target cfg pc (Up p) (Down Killed)"
| signalled: "pr_listening p \<Longrightarrow> shutdown_signal target sig \<Longrightarrow> process_step target cfg pc (Up p) (Up (p\<lparr>pr_draining := True\<rparr>))"
| drained: "pr_draining p \<Longrightarrow> pr_node p = (s, [], rs) \<Longrightarrow> process_step target cfg pc (Up p) (Down (Exited 0))"

inductive_cases process_stepE: "process_step target cfg pc (Up p) c"

lemma ended_stays: "process_step target cfg pc (Down e) c \<Longrightarrow> False"
  by (auto elim: process_step.cases)

section \<open>The node inside\<close>

lemma acts_beside: "acts_now p ev \<Longrightarrow> beside_requests ev"
  by (cases "(p, ev)" rule: acts_now.cases) auto

lemma step_is_node_step:
  assumes "process_step target cfg pc (Up p) (Up p')"
  shows "pr_node p' = pr_node p \<or> node_step (pr_node p) (pr_node p')"
  using assms by (rule process_stepE) (auto intro: node_step.arrives node_step.works node_step.beside [OF acts_beside])

lemma process_is_node:
  assumes "(process_step target cfg pc)\<^sup>*\<^sup>* (Up p) c"
  shows "\<forall>p'. c = Up p' \<longrightarrow> node_step\<^sup>*\<^sup>* (pr_node p) (pr_node p')"
  using assms
proof (induction rule: rtranclp_induct)
  case (step c c')
  show ?case
  proof (intro allI impI)
    fix p' assume c': "c' = Up p'"
    obtain p1 where c: "c = Up p1" using step.hyps(2) by (cases c) (auto dest: ended_stays)
    with step.IH step_is_node_step [of target cfg pc p1 p'] step.hyps(2) c'
    show "node_step\<^sup>*\<^sup>* (pr_node p) (pr_node p')" by (auto intro: rtranclp.rtrancl_into_rtrancl)
  qed
qed simp

lemma started_node:
  assumes "(process_step target cfg pc)\<^sup>*\<^sup>* (main_start cfg pc te fresh_id batch_id started d) (Up p)"
  obtains s where "boot cfg pc te fresh_id batch_id started d = Some s" "node_step\<^sup>*\<^sup>* (s, [], []) (pr_node p)"
proof (cases "boot cfg pc te fresh_id batch_id started d")
  case None
  then obtain e where "main_start cfg pc te fresh_id batch_id started d = Down e" by (simp add: main_start_def)
  with assms have "(process_step target cfg pc)\<^sup>*\<^sup>* (Down e) (Up p)" by simp
  then show thesis by (cases rule: converse_rtranclpE) (auto dest: ended_stays)
next
  case (Some s)
  let ?p = "\<lparr>pr_node = (s, [], []), pr_listening = False, pr_mesh = Starting, pr_draining = False\<rparr>"
  from assms Some have "(process_step target cfg pc)\<^sup>*\<^sup>* (Up ?p) (Up p)" by (simp add: main_start_def)
  from process_is_node [OF this] have "node_step\<^sup>*\<^sup>* (s, [], []) (pr_node p)" by simp
  with Some show thesis by (rule that)
qed

section \<open>Drain\<close>

lemma serve_is_process:
  assumes "serve_step\<^sup>*\<^sup>* (pr_node p) n"
  shows "(process_step target cfg pc)\<^sup>*\<^sup>* (Up p) (Up (p\<lparr>pr_node := n\<rparr>))"
  using assms
proof (induction rule: rtranclp_induct)
  case (step n n')
  have "work_step n n'" using step.hyps(2) by (induction rule: serve_step.induct) (auto intro: work_step.intros)
  then have "process_step target cfg pc (Up (p\<lparr>pr_node := n\<rparr>)) (Up (p\<lparr>pr_node := n'\<rparr>))"
    using process_step.works [of "p\<lparr>pr_node := n\<rparr>" n' target cfg pc] by simp
  with step.IH show ?case by (rule rtranclp.rtrancl_into_rtrancl)
qed simp

lemma not_waiting: "holds_permit t \<or> 0 < pe_available (sh_executor s) \<Longrightarrow> \<not> waits t s"
  by (cases t) auto

lemma started_permits:
  assumes "(process_step target cfg pc)\<^sup>*\<^sup>* (main_start cfg pc te fresh_id batch_id started d) (Up p)"
  shows "permits_ok (unat (max_concurrent_requests cfg)) (pr_node p)"
proof -
  from assms obtain s where "boot cfg pc te fresh_id batch_id started d = Some s" "node_step\<^sup>*\<^sup>* (s, [], []) (pr_node p)"
    by (rule started_node)
  from permits.reachable_keeps [OF this(2) boot_permits [OF this(1)]] show ?thesis .
qed

section \<open>A mesh that does not come up\<close>

text \<open>What the mesh status page is made of.\<close>

definition mesh_pages :: "shared_state \<Rightarrow> config \<times> usize \<times> usize \<times> usize \<times> string \<times> string list" where
  "mesh_pages s = (sh_config s, sh_connected_peers s, sh_hole_punch_attempts s, sh_hole_punch_successes s,
     sh_nat_status s, sh_multiaddrs s)"

lemma mesh_page: "mesh_pages s' = mesh_pages s \<Longrightarrow> mesh_status_handler s' = mesh_status_handler s"
  by (simp add: mesh_pages_def mesh_status_handler_def Let_def)

lemma books_pages: "same_books s s' \<Longrightarrow> mesh_pages s' = mesh_pages s"
  by (simp add: same_books_def mesh_pages_def)

lemma fair_pages: "fair_outcome s k (x, s') \<Longrightarrow> mesh_pages s' = mesh_pages s"
  by (simp add: fair_outcome_def books_pages)

lemma arrive_pages: "arrive_step c c' \<Longrightarrow> mesh_pages (fst c') = mesh_pages (fst c)"
proof (induction rule: arrive_step.induct)
  case (onion_elsewhere w layer s p s' ts rs)
  then show ?case by (auto simp: onion_ends_here_def onion_handler_def Let_def send_out_def mesh_pages_def
      split: option.splits sum.splits if_splits)
qed (auto dest!: fair_arrive fair_pages)

lemma work_pages: "work_step c c' \<Longrightarrow> mesh_pages (fst c') = mesh_pages (fst c)"
proof (induction rule: work_step.induct)
  case (drops_permit t s ts us rs)
  then show ?case by (simp add: mesh_pages_def)
qed (auto dest!: fair_step fair_pages)

lemma act_pages:
  assumes "acts_now p ev" and "pr_mesh p \<noteq> Meshing" and "daemon_step ev s = Some s'"
  shows "mesh_pages s' = mesh_pages s"
proof (cases ev)
  case (AskWallet to_sol now post)
  with assms(3) obtain r where "wallet_handler to_sol now post s = Some (r, s')" by (auto simp: daemon_step_def)
  then show ?thesis by (rule wallet_frame) (simp_all add: mesh_pages_def)
next
  case (SettleBatch w)
  with assms(3) obtain r where "settle w s = Some (r, s')" by (auto simp: daemon_step_def)
  then show ?thesis by (rule settle_frame) (simp add: mesh_pages_def)
qed (use assms in \<open>auto simp: daemon_step_def mobile_register_handler_def update_slot_def mesh_pages_def Let_def
    split: option.splits\<close>)

text \<open>While the mesh is not up, the page is that of the fresh node; once its start has failed, it stays
  so.\<close>

fun idle_mesh :: "bool \<Rightarrow> shared_state \<Rightarrow> run_state \<Rightarrow> bool" where
  "idle_mesh failed s (Up p) \<longleftrightarrow> (if failed then pr_mesh p = MeshEnded else True) \<and>
     (pr_mesh p = Meshing \<or> mesh_pages (fst (pr_node p)) = mesh_pages s)"
| "idle_mesh failed s (Down e) \<longleftrightarrow> True"

lemma idle_mesh_step:
  assumes "process_step target cfg pc c c'" and "idle_mesh failed s c"
  shows "idle_mesh failed s c'"
  using assms
proof (induction rule: process_step.induct)
  case (acts p ev s1 ts rs s2)
  then show ?case using act_pages [OF acts.hyps(1) _ acts.hyps(3)] by (cases "pr_mesh p = Meshing") auto
qed (auto dest: arrive_pages work_pages)

interpretation idle: kept_by_relation "process_step target cfg pc" "idle_mesh failed s" for target cfg pc failed s
  by unfold_locales (rule idle_mesh_step)

section \<open>Clocks\<close>

text \<open>The first request of an address is counted with the reading of its own clock.\<close>

lemma first_count:
  assumes "dm_get (ip_requests ap) ip = None"
  shows "check_rate_limit now ip ap = Some (ap\<lparr>ip_requests := dm_insert ip
    \<lparr>ir_count = 1, ir_window_start = now, ir_last_seen = now\<rparr> (ip_requests ap)\<rparr>, Allowed)"
  using assms by (simp add: check_rate_limit_def touch_def dm_or_insert_def checked_sub_def checked_add_def Let_def)

lemma answer_cached_ap: "answer_cached w m v s = Some (r, s') \<Longrightarrow> sh_ap s' = sh_ap s"
  by (auto simp: answer_cached_def record_time_def record_reward_def bind_eq_Some_conv split: option.splits)

lemma counted_entry:
  assumes "rpc_arrive w headers body s = Some (x, s')"
    and "fst (bg_should_accept_request (rw_battery_secs w) (sh_battery s))"
    and "\<not> fst (is_banned (rw_ban_secs w) (extract_ip headers) (sh_ap s))"
    and "dm_get (ip_requests (sh_ap s)) (extract_ip headers) = None"
  shows "dm_get (ip_requests (sh_ap s')) (extract_ip headers) =
    Some \<lparr>ir_count = 1, ir_window_start = rw_limit_secs w, ir_last_seen = rw_limit_secs w\<rparr>"
proof -
  let ?entry = "\<lparr>ir_count = 1, ir_window_start = rw_limit_secs w, ir_last_seen = rw_limit_secs w\<rparr>"
  obtain ap where ap: "is_banned (rw_ban_secs w) (extract_ip headers) (sh_ap s) = (False, ap)"
    using assms(3) by (cases "is_banned (rw_ban_secs w) (extract_ip headers) (sh_ap s)") auto
  then have "dm_get (ip_requests ap) (extract_ip headers) = None"
    using assms(4) by (auto simp: is_banned_def split: option.splits if_splits)
  note count = first_count [OF this, of "rw_limit_secs w"]
  obtain v s1 where adm: "admit w headers body s = Some (v, s1)"
    using assms(1) by (auto simp: rpc_arrive_def bind_eq_Some_conv)
  then have entry: "dm_get (ip_requests (sh_ap s1)) (extract_ip headers) = Some ?entry"
    using assms(2) ap count
    by (auto simp: admit_def validate_host_always lookup_update Let_def split: prod.splits)
  have "sh_ap s' = sh_ap s1"
    using assms(1) adm
    by (auto simp: rpc_arrive_def bind_eq_Some_conv Let_def dest!: answer_cached_ap split: sum.splits prod.splits option.splits)
  with entry show ?thesis by simp
qed

lemma earlier_sweep_panics:
  "dm_get (ip_requests (sh_ap s)) ip = Some r \<Longrightarrow> now < ir_last_seen r \<Longrightarrow> daemon_step (CleanAttacks now) s = None"
  by (auto simp: daemon_step_def cleanup_def dm_get_entries not_le [symmetric])

lemma earlier_request_panics:
  "dm_get (ip_requests ap) ip = Some r \<Longrightarrow> now < ir_window_start r \<Longrightarrow> check_rate_limit now ip ap = None"
  by (simp add: check_rate_limit_def touch_def dm_or_insert_def checked_sub_def linorder_not_le [symmetric])

section \<open>An example process\<close>

lemma boot_mesh:
  "boot cfg pc te fresh_id batch_id started d = Some s \<Longrightarrow> sh_connected_peers s = 0"
  by (auto simp: boot_def create_rpc_router_def bind_eq_Some_conv)

definition example_start :: run_state where
  "example_start = main_start example_config (get_config Linux (\<lambda>_. None)) (te_new (\<lambda>_. None) ''2.1.2'' 0) ''n1'' ''b1'' 0 Map.empty"

definition example_process :: process where
  "example_process = \<lparr>pr_node = (example_node, [], []), pr_listening = True, pr_mesh = Starting, pr_draining = False\<rparr>"

lemma example_started: "(process_step target cfg pc)\<^sup>*\<^sup>* example_start (Up example_process)"
proof -
  have "process_step target cfg pc example_start (Up example_process)"
    using process_step.binds [of "example_process\<lparr>pr_listening := False\<rparr>" target cfg pc]
    by (simp add: example_start_def example_process_def main_start_def example_boot)
  then show ?thesis by blast
qed

lemma example_slot_arrives:
  obtains t s1 r s' where "rpc_arrive (example_world 5) (from_address ''10.0.0.7'') (bytes_of ''slot'') example_node = Some (Inr t, s1)"
    "run_task t s1 = Some (r, s')"
proof -
  let ?w = "example_world 5"
  note node = example_node_fields
  have read: "read_request ?w (bytes_of ''slot'') = Inr (''slot'', slot_request ''a'')"
    by (simp add: read_request_def example_slot_text example_slot_parsed)
  obtain rec where adm: "admit ?w (from_address ''10.0.0.7'') (bytes_of ''slot'') example_node =
    Some (Inr (''slot'', slot_request ''a''),
      example_node\<lparr>sh_battery := snd (bg_should_accept_request (rw_battery_secs ?w) (sh_battery example_node)),
        sh_ap := sh_ap example_node\<lparr>ip_requests := dm_insert (extract_ip (from_address ''10.0.0.7'')) rec (ip_requests (sh_ap example_node))\<rparr>\<rparr>)"
    by (rule example_admitted [OF node(7) _ _ read, of "from_address ''10.0.0.7''"])
      (simp_all add: node(3) ap_new_def example_addresses)
  then obtain t s1 where arr: "rpc_arrive ?w (from_address ''10.0.0.7'') (bytes_of ''slot'') example_node = Some (Inr t, s1)"
    by (simp add: rpc_arrive_def get_cached_new node Let_def)
  obtain r s' where "rpc_handler ?w (from_address ''10.0.0.7'') (bytes_of ''slot'') example_node = Some (Finished r, s')"
    by (rule example_slot_run)
  with arr have "run_task t s1 = Some (r, s')" by (auto simp: stages_make_handler split: if_splits)
  with arr show thesis by (rule that)
qed

inductive_simps serve_step_done: "serve_step (s, [], rs) c"

section \<open>Properties\<close>



text \<open>C26: two clock readings in the wrong order end the daemon. The limiter and its cleanup subtract the
  stored second from a clock reading of their own, taken before they reach the entry. When the
  first request of an address has been counted, a sweep whose reading is one second older, or
  any earlier, panics, and so does the next request of that address with such a reading; either
  aborts the process, with every request in flight.\<close>

theorem clock_race_aborts:
  assumes "pr_listening p" and "pr_node p = (s, ts, rs)" and "rpc_arrive w headers body s = Some (x, s1)"
    and "fst (bg_should_accept_request (rw_battery_secs w) (sh_battery s))"
    and "\<not> fst (is_banned (rw_ban_secs w) (extract_ip headers) (sh_ap s))"
    and "dm_get (ip_requests (sh_ap s)) (extract_ip headers) = None"
    and "now < rw_limit_secs w"
  shows "daemon_step (CleanAttacks now :: u8 list daemon_event) s1 = None \<and>
    check_rate_limit now (extract_ip headers) (sh_ap s1) = None \<and>
    (\<exists>p'. fst (pr_node p') = s1 \<and> process_step target cfg pc (Up p) (Up p') \<and>
       process_step target cfg pc (Up p') (Down Aborted))"
proof -
  note entry = counted_entry [OF assms(3-6)]
  have sweep: "daemon_step (CleanAttacks now :: u8 list daemon_event) s1 = None"
    by (rule earlier_sweep_panics [OF entry]) (simp add: assms(7))
  obtain n where n: "arrive_step (s, ts, rs) n" "fst n = s1"
    using arrive_step.intros(1,2) assms(3) by (cases x) fastforce+
  let ?p = "p\<lparr>pr_node := n\<rparr>"
  have "process_step target cfg pc (Up p) (Up ?p)" using n assms(1,2) by (simp add: process_step.arrives)
  moreover have "process_step target cfg pc (Up ?p) (Down Aborted)"
    using sweep n(2) by (intro process_step.act_panics [of _ "CleanAttacks now"]) simp_all
  ultimately show ?thesis
    using sweep earlier_request_panics [OF entry, of now] assms(7) n(2) by (intro conjI exI [of _ ?p]) simp_all
qed

theorem clock_race_aborts_witness:
  "\<exists>p'. (process_step Linux example_config (get_config Linux (\<lambda>_. None)))\<^sup>*\<^sup>* example_start (Up p') \<and>
     process_step Linux example_config (get_config Linux (\<lambda>_. None)) (Up p') (Down Aborted) \<and>
     daemon_step (CleanAttacks 4 :: u8 list daemon_event) (fst (pr_node p')) = None"
proof -
  let ?step = "process_step Linux example_config (get_config Linux (\<lambda>_. None))"
  obtain t s1 r s' where arr: "rpc_arrive (example_world 5) (from_address ''10.0.0.7'') (bytes_of ''slot'') example_node = Some (Inr t, s1)"
    by (rule example_slot_arrives)
  note node = example_node_fields
  have "daemon_step (CleanAttacks 4 :: u8 list daemon_event) s1 = None \<and>
    check_rate_limit 4 (extract_ip (from_address ''10.0.0.7'')) (sh_ap s1) = None \<and>
    (\<exists>p'. fst (pr_node p') = s1 \<and> ?step (Up example_process) (Up p') \<and> ?step (Up p') (Down Aborted))"
    by (rule clock_race_aborts [OF _ _ arr])
      (use bg_untouched_accepts [OF node(7)] in \<open>simp_all add: example_process_def node(3) ap_new_def is_banned_def example_world_def\<close>)
  then show ?thesis using rtranclp.rtrancl_into_rtrancl [OF example_started] by blast
qed

text \<open>C27: a mesh that fails to start stays down, and nothing shows it. The process goes on serving
  without it; it is not started again, no mesh event is ever handled, and the mesh status page
  stays that of a node that has just started: no peers, the NAT status unknown.\<close>

theorem failed_mesh_stays_down:
  assumes "boot cfg pc te fresh_id batch_id started d = Some s"
    and "(process_step target cfg pc)\<^sup>*\<^sup>* (main_start cfg pc te fresh_id batch_id started d) (Up p)"
    and "pr_mesh p = MeshEnded" and "(process_step target cfg pc)\<^sup>*\<^sup>* (Up p) (Up p')"
  shows "pr_mesh p' = MeshEnded \<and> mesh_status_handler (fst (pr_node p')) = mesh_status_handler s \<and>
    sh_connected_peers (fst (pr_node p')) = 0 \<and> \<not> acts_now p' (MeshEvent now e)"
proof -
  have "idle_mesh False s (main_start cfg pc te fresh_id batch_id started d)" using assms(1) by (simp add: main_start_def)
  with idle.reachable_keeps [OF assms(2)] have "idle_mesh False s (Up p)" .
  with assms(3) have "idle_mesh True s (Up p)" by simp
  with idle.reachable_keeps [OF assms(4)] have "idle_mesh True s (Up p')" .
  then show ?thesis
    using boot_mesh [OF assms(1)] mesh_page [of "fst (pr_node p')" s] by (auto simp: mesh_pages_def)
qed

theorem failed_mesh_stays_down_witness:
  "\<exists>p. (process_step Linux example_config (get_config Linux (\<lambda>_. None)))\<^sup>*\<^sup>* example_start (Up p) \<and> pr_listening p \<and>
     pr_mesh p = MeshEnded \<and> mesh_status_handler (fst (pr_node p)) = mesh_status_handler example_node"
proof -
  let ?step = "process_step Linux example_config (get_config Linux (\<lambda>_. None))"
  let ?w = "example_mesh\<lparr>mw_tcp := False\<rparr>" and ?p = "example_process\<lparr>pr_mesh := MeshEnded\<rparr>"
  obtain d' where "start_p2p_node ?w Linux Map.empty example_config (get_config Linux (\<lambda>_. None)) Map.empty = (MeshFails, d')"
    by (cases "load_or_generate (mw_identity ?w) Map.empty Map.empty") (simp add: start_p2p_node_def)
  then have fails: "?step (Up example_process) (Up ?p)"
    by (intro process_step.mesh_fails) (simp_all add: example_process_def)
  then have run: "?step\<^sup>*\<^sup>* example_start (Up ?p)"
    by (rule rtranclp.rtrancl_into_rtrancl [OF example_started])
  have "pr_mesh ?p = MeshEnded \<and> mesh_status_handler (fst (pr_node ?p)) = mesh_status_handler example_node \<and>
      sh_connected_peers (fst (pr_node ?p)) = 0 \<and> \<not> acts_now ?p (MeshEvent 0 OtherEvent)"
    by (rule failed_mesh_stays_down [OF example_boot, of Linux ?p ?p]) (use run in \<open>simp_all add: example_start_def\<close>)
  with run show ?thesis by (intro exI [of _ ?p]) (simp add: example_process_def)
qed

end
