(* ===== verification/Mobile_Governor.thy ===== *)
theory Mobile_Governor
  imports Json
begin

text \<open>
  \<open>sns-native/src/mobile_governor.rs\<close>: the throttle states of a mobile node, the governor and
  its policy. \<open>AtomicU8\<close> cells are bytes; the copy that \<open>relay_client.rs\<close> reads is a cell of the
  library's state in \<open>Mobile_Ffi\<close>.
\<close>

datatype throttle_state = FullPower | Conserve | Standby

fun throttle_u8 :: "throttle_state \<Rightarrow> u8" where
  "throttle_u8 FullPower = 0"
| "throttle_u8 Conserve = 1"
| "throttle_u8 Standby = 2"

definition throttle_from_u8 :: "u8 \<Rightarrow> throttle_state" where
  "throttle_from_u8 val = (if val = 0 then FullPower else if val = 1 then Conserve else Standby)"

definition throttle_parse :: "string \<Rightarrow> throttle_state" where
  "throttle_parse s = (if s = ''FULL_POWER'' then FullPower else if s = ''CONSERVE'' then Conserve else Standby)"

fun throttle_as_str :: "throttle_state \<Rightarrow> string" where
  "throttle_as_str FullPower = ''FULL_POWER''"
| "throttle_as_str Conserve = ''CONSERVE''"
| "throttle_as_str Standby = ''STANDBY''"

record mobile_governor =
  mg_state :: u8

definition mg_new :: mobile_governor where
  "mg_new = \<lparr>mg_state = throttle_u8 Standby\<rparr>"

definition mg_set_state :: "throttle_state \<Rightarrow> mobile_governor \<Rightarrow> mobile_governor" where
  "mg_set_state new_state g = g\<lparr>mg_state := throttle_u8 new_state\<rparr>"

definition mg_get_state :: "mobile_governor \<Rightarrow> throttle_state" where
  "mg_get_state g = throttle_from_u8 (mg_state g)"

definition mg_should_accept_request :: "usize \<Rightarrow> mobile_governor \<Rightarrow> bool" where
  "mg_should_accept_request payload_bytes g = (case mg_get_state g of
      FullPower \<Rightarrow> True
    | Conserve \<Rightarrow> payload_bytes < 10000
    | Standby \<Rightarrow> payload_bytes < 1000)"

definition mg_max_concurrent_connections :: "mobile_governor \<Rightarrow> usize" where
  "mg_max_concurrent_connections g = (case mg_get_state g of FullPower \<Rightarrow> 50 | Conserve \<Rightarrow> 10 | Standby \<Rightarrow> 2)"

definition mg_heartbeat_interval_secs :: "mobile_governor \<Rightarrow> u64" where
  "mg_heartbeat_interval_secs g = (case mg_get_state g of FullPower \<Rightarrow> 10 | Conserve \<Rightarrow> 60 | Standby \<Rightarrow> 300)"

definition mg_status_json :: "mobile_governor \<Rightarrow> json" where
  "mg_status_json g = JObj [(''throttle_state'', JStr (throttle_as_str (mg_get_state g))),
     (''max_connections'', JNum (PosInt (mg_max_concurrent_connections g))),
     (''heartbeat_interval_secs'', JNum (PosInt (mg_heartbeat_interval_secs g)))]"

section \<open>Codes, names and the policy\<close>

lemma throttle_from_u8_code [simp]: "throttle_from_u8 (throttle_u8 t) = t"
  by (cases t) (simp_all add: throttle_from_u8_def)

lemma throttle_u8_clamped: "throttle_u8 (throttle_from_u8 v) = min v 2"
proof -
  have "unat v = unat (0::u8) \<or> unat v = unat (1::u8) \<or> unat (2::u8) \<le> unat v" by simp linarith
  then consider "v = 0" | "v = 1" | "2 \<le> v"
    unfolding word_unat_eq_iff [symmetric] word_le_nat_alt [symmetric] by blast
  then show ?thesis by cases (auto simp: throttle_from_u8_def min_def word_nat)
qed

lemma throttle_parse_name [simp]: "throttle_parse (throttle_as_str t) = t"
  by (cases t) (simp_all add: throttle_parse_def)

lemma mg_set_get [simp]: "mg_get_state (mg_set_state t g) = t"
  by (simp add: mg_get_state_def mg_set_state_def)

text \<open>Less power never means more work: the states are ordered by their codes.\<close>

instantiation throttle_state :: linorder
begin

definition less_eq_throttle_state :: "throttle_state \<Rightarrow> throttle_state \<Rightarrow> bool" where
  "s \<le> t \<longleftrightarrow> throttle_u8 s \<le> throttle_u8 t"

definition less_throttle_state :: "throttle_state \<Rightarrow> throttle_state \<Rightarrow> bool" where
  "s < t \<longleftrightarrow> throttle_u8 s < throttle_u8 t"

instance
proof
  fix s t :: throttle_state
  show "s \<le> t \<Longrightarrow> t \<le> s \<Longrightarrow> s = t"
    by (metis less_eq_throttle_state_def order_antisym throttle_from_u8_code)
qed (auto simp: less_eq_throttle_state_def less_throttle_state_def)

end

lemma throttle_monotone:
  assumes "mg_get_state g \<le> mg_get_state h"
  shows "mg_max_concurrent_connections h \<le> mg_max_concurrent_connections g"
    "mg_heartbeat_interval_secs g \<le> mg_heartbeat_interval_secs h"
    "mg_should_accept_request n h \<Longrightarrow> mg_should_accept_request n g"
  using assms
  by (auto simp: less_eq_throttle_state_def mg_max_concurrent_connections_def mg_heartbeat_interval_secs_def
      mg_should_accept_request_def word_le_nat_alt word_less_nat_alt split: throttle_state.splits)

end
