(* ===== verification/Relay_Client.thy ===== *)
theory Relay_Client
  imports Json "HOL-Library.Multiset"
begin

text \<open>
  \<open>sns-native/src/relay_client.rs\<close>: the mobile relay. Its globals are a record, and the loop, the
  spawned requests, the callers of \<open>forward_rpc\<close> and the controls interleave as a step
  relation. The HTTP client's answer to a request is any value: the steps do not choose it.
  The part of \<open>start\<close> before and the part after the loop is spawned are two steps, since the
  loop runs on its own from there on. Controls come from one thread.
\<close>

section \<open>Configuration\<close>

record relay_config =
  rl_url :: string
  rl_wallet_pubkey :: string
  rl_node_name :: "string option"
  rl_max_concurrent :: usize
  rl_lamports_per_request :: u64

definition relay_config_from_json :: "(string \<Rightarrow> string + json) \<Rightarrow> string \<Rightarrow> string + relay_config" where
  "relay_config_from_json parse s = (case parse s of
      Inl e \<Rightarrow> Inl (''JSON error: '' @ e)
    | Inr v \<Rightarrow>
        (case (case as_str (json_index v ''relay_url'') of Some u \<Rightarrow> Some u | None \<Rightarrow> as_str (json_index v ''rpc_url'')) of
           None \<Rightarrow> Inl ''relay_url required''
         | Some url \<Rightarrow>
             if \<not> starts_with url ''https://'' then Inl ''relay_url must use HTTPS''
             else (case as_str (json_index v ''wallet_pubkey'') of
                 None \<Rightarrow> Inl ''wallet_pubkey required''
               | Some wallet \<Rightarrow>
                   if length wallet < 32 \<or> 44 < length wallet then Inl ''wallet_pubkey invalid length''
                   else Inr \<lparr>rl_url = url, rl_wallet_pubkey = wallet,
                     rl_node_name = as_str (json_index v ''node_name''),
                     rl_max_concurrent = unwrap_or (map_option (\<lambda>n. min n 8) (as_u64 (json_index v ''max_concurrent''))) 4,
                     rl_lamports_per_request = unwrap_or (as_u64 (json_index v ''lamports_per_request'')) 100\<rparr>)))"

lemma relay_config_checked:
  assumes "relay_config_from_json parse s = Inr c"
  shows "starts_with (rl_url c) ''https://''" "32 \<le> length (rl_wallet_pubkey c)" "length (rl_wallet_pubkey c) \<le> 44"
    "rl_max_concurrent c \<le> 8"
proof -
  have four: "(4::u64) \<le> 8" by (simp add: word_le_nat_alt)
  show "starts_with (rl_url c) ''https://''" "32 \<le> length (rl_wallet_pubkey c)" "length (rl_wallet_pubkey c) \<le> 44"
    "rl_max_concurrent c \<le> 8"
    using assms four
    by (auto simp: relay_config_from_json_def unwrap_or_def split: sum.splits option.splits if_splits)
qed

section \<open>State\<close>

datatype relay_response = RelaySuccess "u8 list" | RelayError string

text \<open>A caller of \<open>forward_rpc\<close> waits for room in the channel, then for the answer.\<close>

datatype caller = Sending "u8 list" | Awaiting "u8 list" | Returned "u8 list option"

datatype loop_phase = NotSpawned | Spawned | Checking | Receiving | Exited

type_synonym relay_request = "nat \<times> u8 list"

text \<open>\<open>rl_outcomes\<close> holds what came through the one-shot channel of a request: an answer, or
  nothing when the sender was dropped. Requests and callers are told apart by a number.\<close>

record relay =
  rl_config :: "relay_config option"
  rl_runtime :: bool
  rl_starting :: bool
  rl_running :: bool
  rl_requests_served :: u64
  rl_earnings_lamports :: u64
  rl_uptime_start :: u64
  rl_loop :: loop_phase
  rl_queue :: "relay_request list"
  rl_tasks :: "relay_request list"
  rl_inflight :: "relay_request list"
  rl_outcomes :: "nat \<rightharpoonup> relay_response option"
  rl_callers :: "nat \<rightharpoonup> caller"

definition relay_init :: relay where
  "relay_init = \<lparr>rl_config = None, rl_runtime = False, rl_starting = False, rl_running = False,
     rl_requests_served = 0, rl_earnings_lamports = 0, rl_uptime_start = 0, rl_loop = NotSpawned,
     rl_queue = [], rl_tasks = [], rl_inflight = [], rl_outcomes = Map.empty, rl_callers = Map.empty\<rparr>"

section \<open>Operations\<close>

text \<open>\<open>start\<close>: nothing when it runs already; an error when a runtime is set from an earlier start
  (the new loop and its channel are dropped, the start time is overwritten); otherwise the loop
  is spawned, and \<open>start_finish\<close> publishes the runtime, the channel and the flag.\<close>

definition start_begin :: "u64 \<Rightarrow> relay_config \<Rightarrow> relay \<Rightarrow> bool \<times> relay" where
  "start_begin now c s =
     (if rl_running s then (True, s)
      else if rl_runtime s then (False, s\<lparr>rl_uptime_start := now\<rparr>)
      else (True, s\<lparr>rl_config := Some c, rl_loop := Spawned, rl_starting := True, rl_uptime_start := now\<rparr>))"

definition start_finish :: "relay \<Rightarrow> relay" where
  "start_finish s = s\<lparr>rl_runtime := True, rl_running := True, rl_starting := False\<rparr>"

text \<open>\<open>start\<close> when nothing comes between its two parts.\<close>

definition relay_start :: "u64 \<Rightarrow> relay_config \<Rightarrow> relay \<Rightarrow> bool \<times> relay" where
  "relay_start now c s =
     (let (ok, s') = start_begin now c s in (ok, if rl_starting s' then start_finish s' else s'))"

definition relay_stop :: "relay \<Rightarrow> bool \<times> relay" where
  "relay_stop s = (if \<not> rl_running s then (True, s) else (True, s\<lparr>rl_running := False\<rparr>))"

definition relay_stats_json :: "u64 \<Rightarrow> u8 \<Rightarrow> relay \<Rightarrow> json" where
  "relay_stats_json now governor s =
     (let start = rl_uptime_start s;
          uptime = (if 0 < start then saturating_sub now start else 0) in
      JObj [(''requests_served'', JNum (PosInt (rl_requests_served s))),
        (''earnings_lamports'', JNum (PosInt (rl_earnings_lamports s))),
        (''uptime_seconds'', JNum (PosInt uptime)), (''governor_state'', JNum (PosInt (ucast governor))),
        (''is_running'', JBool (rl_running s)), (''peer_count'', JNum (PosInt 1))])"

text \<open>\<open>forward_rpc\<close> up to the wait, and its end when the answer is there.\<close>

definition forward_call :: "nat \<Rightarrow> u8 list \<Rightarrow> relay \<Rightarrow> relay" where
  "forward_call i payload s = s\<lparr>rl_callers := (rl_callers s)(i \<mapsto>
     (if \<not> rl_runtime s \<or> \<not> rl_running s then Returned None else Sending payload))\<rparr>"

definition forward_return :: "nat \<Rightarrow> relay_response option \<Rightarrow> relay \<Rightarrow> relay" where
  "forward_return i answer s = (case answer of
      Some (RelaySuccess bytes) \<Rightarrow> s\<lparr>rl_requests_served := rl_requests_served s + 1,
        rl_earnings_lamports := rl_earnings_lamports s + 100,
        rl_callers := (rl_callers s)(i \<mapsto> Returned (Some bytes))\<rparr>
    | _ \<Rightarrow> s\<lparr>rl_callers := (rl_callers s)(i \<mapsto> Returned None)\<rparr>)"

text \<open>The end of the loop drops the receiver and with it the queued requests.\<close>

definition loop_exit :: "relay \<Rightarrow> relay" where
  "loop_exit s = s\<lparr>rl_loop := Exited, rl_queue := [],
     rl_outcomes := rl_outcomes s ++ map_of (map (\<lambda>(i, p). (i, None)) (rl_queue s))\<rparr>"

definition max_in_flight :: "relay \<Rightarrow> nat" where
  "max_in_flight s = (case rl_config s of None \<Rightarrow> 0 | Some c \<Rightarrow> unat (rl_max_concurrent c))"

text \<open>What a request's task sends back for the result of its HTTP call: only a success status
  with a body is a success. The header takes the first 8 bytes of the wallet, so a wallet with
  a character across that offset makes the task panic.\<close>

datatype http_result = HttpOk "u8 list" | HttpBodyError string | HttpStatus string | HttpError string

fun task_response :: "http_result \<Rightarrow> relay_response" where
  "task_response (HttpOk bytes) = RelaySuccess bytes"
| "task_response (HttpBodyError e) = RelayError e"
| "task_response (HttpStatus st) = RelayError (''HTTP '' @ st)"
| "task_response (HttpError e) = RelayError e"

definition wallet_header :: "relay_config \<Rightarrow> string option" where
  "wallet_header c = (let n = min (length (rl_wallet_pubkey c)) 8 in
     if char_boundary (rl_wallet_pubkey c) n then Some (take n (rl_wallet_pubkey c)) else None)"

section \<open>Steps\<close>

inductive relay_step :: "relay \<Rightarrow> relay \<Rightarrow> bool" where
  start: "\<not> rl_starting s \<Longrightarrow> relay_step s (snd (start_begin now c s))"
| started: "rl_starting s \<Longrightarrow> relay_step s (start_finish s)"
| stop: "\<not> rl_starting s \<Longrightarrow> relay_step s (snd (relay_stop s))"
| client_built: "rl_loop s = Spawned \<Longrightarrow> relay_step s (s\<lparr>rl_loop := Checking\<rparr>)"
| client_failed: "rl_loop s = Spawned \<Longrightarrow> relay_step s (loop_exit s)"
| flag_set: "rl_loop s = Checking \<Longrightarrow> rl_running s \<Longrightarrow> relay_step s (s\<lparr>rl_loop := Receiving\<rparr>)"
| flag_clear: "rl_loop s = Checking \<Longrightarrow> \<not> rl_running s \<Longrightarrow> relay_step s (loop_exit s)"
| timeout: "rl_loop s = Receiving \<Longrightarrow> relay_step s (s\<lparr>rl_loop := Checking\<rparr>)"
| receive: "rl_loop s = Receiving \<Longrightarrow> rl_queue s = r # q \<Longrightarrow>
    relay_step s (s\<lparr>rl_loop := Checking, rl_queue := q, rl_tasks := rl_tasks s @ [r]\<rparr>)"
| permit: "rl_tasks s = rs @ r # rs' \<Longrightarrow> length (rl_inflight s) < max_in_flight s \<Longrightarrow>
    Option.bind (rl_config s) wallet_header = Some header \<Longrightarrow>
    relay_step s (s\<lparr>rl_tasks := rs @ rs', rl_inflight := rl_inflight s @ [r]\<rparr>)"
| answer: "rl_inflight s = rs @ (i, p) # rs' \<Longrightarrow>
    relay_step s (s\<lparr>rl_inflight := rs @ rs', rl_outcomes := (rl_outcomes s)(i \<mapsto> Some (task_response result))\<rparr>)"
| call: "rl_callers s i = None \<Longrightarrow> relay_step s (forward_call i payload s)"
| send: "rl_callers s i = Some (Sending payload) \<Longrightarrow> rl_loop s \<noteq> Exited \<Longrightarrow> length (rl_queue s) < 32 \<Longrightarrow>
    relay_step s (s\<lparr>rl_queue := rl_queue s @ [(i, payload)], rl_callers := (rl_callers s)(i \<mapsto> Awaiting payload)\<rparr>)"
| send_fails: "rl_callers s i = Some (Sending payload) \<Longrightarrow> rl_loop s = Exited \<Longrightarrow>
    relay_step s (forward_return i None s)"
| reply: "rl_callers s i = Some (Awaiting payload) \<Longrightarrow> rl_outcomes s i = Some answer \<Longrightarrow>
    relay_step s (forward_return i answer s)"

inductive_cases relay_stepE: "relay_step s s'"

abbreviation relay_reachable :: "relay \<Rightarrow> bool" where
  "relay_reachable s \<equiv> relay_step\<^sup>*\<^sup>* relay_init s"

lemmas relay_ops = start_begin_def start_finish_def relay_stop_def loop_exit_def forward_call_def forward_return_def

section \<open>Where a request is\<close>

definition held :: "relay \<Rightarrow> relay_request list" where
  "held s = rl_queue s @ rl_tasks s @ rl_inflight s"

text \<open>Every held request has a caller that waits for it and no outcome yet; a waiting caller's
  request is held or has an outcome; a call that has not been sent has no outcome; before the
  runtime is there, no call is under way.\<close>

definition placed :: "relay_request list \<Rightarrow> (nat \<rightharpoonup> caller) \<Rightarrow> (nat \<rightharpoonup> relay_response option) \<Rightarrow> bool \<Rightarrow> bool" where
  "placed H C R rt \<longleftrightarrow> distinct (map fst H) \<and>
     (\<forall>i p. (i, p) \<in> set H \<longrightarrow> C i = Some (Awaiting p) \<and> R i = None) \<and>
     (\<forall>i p. C i = Some (Awaiting p) \<longrightarrow> (i, p) \<in> set H \<or> R i \<noteq> None) \<and>
     (\<forall>i p. C i = None \<or> C i = Some (Sending p) \<longrightarrow> R i = None) \<and>
     (rt \<or> H = [] \<and> (\<forall>i c. C i = Some c \<longrightarrow> c = Returned None))"

lemma placed_held: "placed H C R rt \<Longrightarrow> (i, p) \<in> set H \<Longrightarrow> C i = Some (Awaiting p) \<and> R i = None"
  by (simp add: placed_def)

lemma placed_waits: "placed H C R rt \<Longrightarrow> C i = Some (Awaiting p) \<Longrightarrow> (i, p) \<in> set H \<or> R i \<noteq> None"
  unfolding placed_def by blast

lemma placed_unsent: "placed H C R rt \<Longrightarrow> C i = None \<or> C i = Some (Sending p) \<Longrightarrow> R i = None"
  unfolding placed_def by blast

lemma placed_distinct: "placed H C R rt \<Longrightarrow> distinct (map fst H)"
  by (simp add: placed_def)

lemma placed_perm: "placed H C R rt \<Longrightarrow> mset H' = mset H \<Longrightarrow> placed H' C R rt"
proof -
  assume H: "placed H C R rt" and perm: "mset H' = mset H"
  then have "mset (map fst H') = mset (map fst H)" by simp
  then have "distinct (map fst H') \<longleftrightarrow> distinct (map fst H)" by (rule mset_eq_imp_distinct_iff)
  moreover have "set H' = set H" using perm by (rule mset_eq_setD)
  moreover have "H' = [] \<longleftrightarrow> H = []" using calculation(2) by (metis set_empty)
  ultimately show ?thesis using H unfolding placed_def by simp
qed

lemma placed_runtime: "placed H C R rt \<Longrightarrow> placed H C R True"
  by (auto simp: placed_def)

lemma map_of_dropped:
  "map_of (map (\<lambda>(i, p). (i, None)) q) i = (if i \<in> fst ` set q then Some None else None)"
  by (induction q) auto

lemma placed_drop:
  assumes "placed (q @ H) C R rt"
  shows "placed H C (R ++ map_of (map (\<lambda>(i, p). (i, None)) q)) rt"
proof -
  let ?R = "R ++ map_of (map (\<lambda>(i, p). (i, None)) q)"
  have R: "?R i = (if i \<in> fst ` set q then Some None else R i)" for i
    by (simp add: map_add_def map_of_dropped)
  have "fst ` set q \<inter> fst ` set H = {}" using assms by (simp add: placed_def)
  then have disjoint: "i \<notin> fst ` set q" if "(i, p) \<in> set H" for i p using that by force
  have waits: "\<exists>p. C i = Some (Awaiting p)" if "i \<in> fst ` set q" for i
    using that placed_held [OF assms] by force
  have "?R i = None" if "C i = None \<or> C i = Some (Sending p)" for i p
  proof -
    have "i \<notin> fst ` set q"
    proof
      assume "i \<in> fst ` set q"
      from waits [OF this] that show False by auto
    qed
    with placed_unsent [OF assms that] show ?thesis unfolding R by simp
  qed
  moreover have "C i = Some (Awaiting p) \<and> ?R i = None" if "(i, p) \<in> set H" for i p
    using placed_held [OF assms, of i p] that disjoint [OF that] unfolding R by simp
  moreover have "(i, p) \<in> set H \<or> ?R i \<noteq> None" if "C i = Some (Awaiting p)" for i p
  proof (cases "i \<in> fst ` set q")
    case False
    then have "(i, p) \<notin> set q" by force
    with placed_waits [OF assms that] False show ?thesis unfolding R by simp
  qed (simp add: R)
  moreover have "distinct (map fst H)" "rt \<or> H = [] \<and> (\<forall>i c. C i = Some c \<longrightarrow> c = Returned None)"
    using assms by (auto simp: placed_def)
  ultimately show ?thesis unfolding placed_def by blast
qed

lemma placed_return:
  assumes "placed H C R True" and "C i = Some (Awaiting p) \<and> R i \<noteq> None \<or> C i = Some (Sending p)"
  shows "placed H (C(i \<mapsto> Returned x)) R True"
proof -
  have "(i, p') \<notin> set H" for p' using placed_held [OF assms(1), of i p'] assms(2) by auto
  with assms(1) show ?thesis by (auto simp: placed_def)
qed

lemma placed_call:
  assumes "placed H C R rt" and "C i = None" and "c = Returned None \<or> (\<exists>p. c = Sending p) \<and> rt"
  shows "placed H (C(i \<mapsto> c)) R rt"
proof -
  have "(i, p) \<notin> set H" for p using placed_held [OF assms(1), of i p] assms(2) by auto
  moreover have "R i = None" using assms(1,2) by (simp add: placed_def)
  ultimately show ?thesis using assms by (auto simp: placed_def)
qed

lemma placed_send:
  assumes "placed H C R True" and "C i = Some (Sending p)"
  shows "placed ((i, p) # H) (C(i \<mapsto> Awaiting p)) R True"
proof -
  have fresh: "(i, p') \<notin> set H" for p' using placed_held [OF assms(1), of i p'] assms(2) by auto
  have "R i = None" using assms by (simp add: placed_def)
  then have "(C(i \<mapsto> Awaiting p)) j = Some (Awaiting p') \<and> R j = None" if "(j, p') \<in> set ((i, p) # H)" for j p'
    using placed_held [OF assms(1), of j p'] that fresh by auto
  moreover have "(j, p') \<in> set ((i, p) # H) \<or> R j \<noteq> None" if "(C(i \<mapsto> Awaiting p)) j = Some (Awaiting p')" for j p'
    using placed_waits [OF assms(1), of j p'] that by (cases "j = i") simp_all
  moreover have "R j = None" if "(C(i \<mapsto> Awaiting p)) j = None \<or> (C(i \<mapsto> Awaiting p)) j = Some (Sending p')" for j p'
    using placed_unsent [OF assms(1), of j p'] that by (cases "j = i") simp_all
  moreover have "i \<notin> fst ` set H" using fresh by auto
  then have "distinct (map fst ((i, p) # H))" using placed_distinct [OF assms(1)] by simp
  ultimately show ?thesis unfolding placed_def by blast
qed

lemma placed_answer:
  assumes "placed ((i, p) # H) C R rt"
  shows "placed H C (R(i \<mapsto> x)) rt"
proof -
  have i: "C i = Some (Awaiting p)" using placed_held [OF assms] by simp
  have fresh: "i \<notin> fst ` set H" using assms by (simp add: placed_def)
  have "C j = Some (Awaiting p') \<and> (R(i \<mapsto> x)) j = None" if "(j, p') \<in> set H" for j p'
    using placed_held [OF assms, of j p'] that fresh by force
  moreover have "(j, p') \<in> set H \<or> (R(i \<mapsto> x)) j \<noteq> None" if "C j = Some (Awaiting p')" for j p'
    using placed_waits [OF assms that] by auto
  moreover have "(R(i \<mapsto> x)) j = None" if "C j = None \<or> C j = Some (Sending p')" for j p'
    using placed_unsent [OF assms that] that i by auto
  moreover have "distinct (map fst H)" "rt" using assms by (simp_all add: placed_def)
  ultimately show ?thesis unfolding placed_def by blast
qed

definition requests_placed :: "relay \<Rightarrow> bool" where
  "requests_placed s \<longleftrightarrow> placed (held s) (rl_callers s) (rl_outcomes s) (rl_runtime s)"

lemma sending_runs: "placed H C R rt \<Longrightarrow> C i = Some (Sending p) \<or> C i = Some (Awaiting p) \<Longrightarrow> rt"
  by (auto simp: placed_def)

lemma requests_placed_step:
  assumes "relay_step s s'" and "requests_placed s"
  shows "requests_placed s'"
  using assms
proof (cases rule: relay_step.cases)
  case (start now c)
  with assms(2) show ?thesis by (auto simp: requests_placed_def start_begin_def held_def)
next
  case started
  with assms(2) show ?thesis by (auto simp: requests_placed_def start_finish_def held_def intro: placed_runtime)
next
  case stop
  with assms(2) show ?thesis by (auto simp: requests_placed_def relay_stop_def held_def)
next
  case client_failed
  with assms(2) show ?thesis
    by (simp add: requests_placed_def loop_exit_def held_def placed_drop)
next
  case flag_clear
  with assms(2) show ?thesis
    by (simp add: requests_placed_def loop_exit_def held_def placed_drop)
next
  case (receive r q)
  with assms(2) show ?thesis
    by (auto simp: requests_placed_def held_def elim!: placed_perm)
next
  case (permit rs r rs' header)
  with assms(2) show ?thesis
    by (auto simp: requests_placed_def held_def elim!: placed_perm)
next
  case (answer rs i p rs' result)
  have "placed ((i, p) # rl_queue s @ rl_tasks s @ rs @ rs') (rl_callers s) (rl_outcomes s) (rl_runtime s)"
    using assms(2) answer by (auto simp: requests_placed_def held_def elim!: placed_perm)
  from placed_answer [OF this] answer show ?thesis by (simp add: requests_placed_def held_def)
next
  case (call i payload)
  with assms(2) placed_call show ?thesis by (auto simp: requests_placed_def forward_call_def held_def)
next
  case (send i payload)
  with assms(2) have "rl_runtime s" using sending_runs [of "held s" "rl_callers s" "rl_outcomes s" "rl_runtime s" i payload] by (simp add: requests_placed_def)
  with send assms(2) have "placed ((i, payload) # held s) ((rl_callers s)(i \<mapsto> Awaiting payload)) (rl_outcomes s) True"
    by (simp add: requests_placed_def placed_send)
  then show ?thesis using send \<open>rl_runtime s\<close>
    by (auto simp: requests_placed_def held_def elim!: placed_perm)
next
  case (send_fails i payload)
  with assms(2) have "rl_runtime s" using sending_runs [of "held s" "rl_callers s" "rl_outcomes s" "rl_runtime s" i payload] by (simp add: requests_placed_def)
  with send_fails assms(2) placed_return show ?thesis
    by (simp add: requests_placed_def forward_return_def held_def)
next
  case (reply i payload a)
  with assms(2) have "rl_runtime s" using sending_runs [of "held s" "rl_callers s" "rl_outcomes s" "rl_runtime s" i payload] by (simp add: requests_placed_def)
  with reply assms(2) placed_return [of "held s" "rl_callers s" "rl_outcomes s" i payload] show ?thesis
    by (auto simp: requests_placed_def forward_return_def held_def split: option.splits relay_response.splits)
qed (use assms(2) in \<open>simp_all add: requests_placed_def held_def\<close>)

section \<open>Accounts and bounds\<close>

definition delivered :: "relay \<Rightarrow> nat set" where
  "delivered s = {i. \<exists>bytes. rl_callers s i = Some (Returned (Some bytes))}"

definition accounts_match :: "relay \<Rightarrow> bool" where
  "accounts_match s \<longleftrightarrow> finite (delivered s) \<and> rl_requests_served s = of_nat (card (delivered s)) \<and>
     rl_earnings_lamports s = 100 * rl_requests_served s \<and>
     (\<forall>i bytes. rl_callers s i = Some (Returned (Some bytes)) \<longrightarrow> rl_outcomes s i = Some (Some (RelaySuccess bytes)))"

definition within_bounds :: "relay \<Rightarrow> bool" where
  "within_bounds s \<longleftrightarrow> length (rl_queue s) \<le> 32 \<and> length (rl_inflight s) \<le> max_in_flight s"

lemma delivered_upd:
  "rl_callers s' = (rl_callers s)(i \<mapsto> c) \<Longrightarrow> \<forall>b. rl_callers s i \<noteq> Some (Returned (Some b)) \<Longrightarrow>
     delivered s' = (if \<exists>b. c = Returned (Some b) then insert i (delivered s) else delivered s)"
  by (auto simp: delivered_def)

lemma accounts_same:
  "accounts_match s \<Longrightarrow> rl_callers s' = rl_callers s \<Longrightarrow> rl_requests_served s' = rl_requests_served s \<Longrightarrow>
     rl_earnings_lamports s' = rl_earnings_lamports s \<Longrightarrow>
     (\<And>i b. rl_callers s i = Some (Returned (Some b)) \<Longrightarrow> rl_outcomes s' i = rl_outcomes s i) \<Longrightarrow> accounts_match s'"
  by (simp add: accounts_match_def delivered_def)

lemma accounts_idle:
  assumes "accounts_match s" "rl_callers s' = (rl_callers s)(i \<mapsto> c)" "\<forall>b. rl_callers s i \<noteq> Some (Returned (Some b))"
    "\<forall>b. c \<noteq> Returned (Some b)" "rl_requests_served s' = rl_requests_served s"
    "rl_earnings_lamports s' = rl_earnings_lamports s" "rl_outcomes s' = rl_outcomes s"
  shows "accounts_match s'"
  using assms delivered_upd [OF assms(2,3)] by (auto simp: accounts_match_def)

lemma accounts_return:
  assumes "accounts_match s" "rl_callers s i = Some (Awaiting p)" "rl_outcomes s i = Some a"
  shows "accounts_match (forward_return i a s)"
proof (cases "\<exists>b. a = Some (RelaySuccess b)")
  case True
  then obtain b where a: "a = Some (RelaySuccess b)" by blast
  let ?s = "s\<lparr>rl_requests_served := rl_requests_served s + 1, rl_earnings_lamports := rl_earnings_lamports s + 100,
      rl_callers := (rl_callers s)(i \<mapsto> Returned (Some b))\<rparr>"
  have "delivered ?s = insert i (delivered s)" using delivered_upd [of ?s s i "Returned (Some b)"] assms(2) by simp
  moreover have "i \<notin> delivered s" using assms(2) by (simp add: delivered_def)
  ultimately have "accounts_match ?s" using assms(1,3) a by (auto simp: accounts_match_def algebra_simps)
  then show ?thesis using a by (simp add: forward_return_def)
next
  case False
  then have "forward_return i a s = s\<lparr>rl_callers := (rl_callers s)(i \<mapsto> Returned None)\<rparr>"
    by (auto simp: forward_return_def split: option.splits relay_response.splits)
  then show ?thesis using assms by (intro accounts_idle [OF assms(1), of _ i "Returned None"]) simp_all
qed

lemma no_outcome_yet:
  assumes "requests_placed s" "(i, p) \<in> set (held s)" "rl_callers s j = Some (Returned b)"
  shows "j \<noteq> i"
  using placed_held [of "held s" "rl_callers s" "rl_outcomes s" "rl_runtime s" i p] assms by (auto simp: requests_placed_def)

lemma accounts_exit:
  assumes "accounts_match s" "requests_placed s"
  shows "accounts_match (loop_exit s)"
proof (rule accounts_same [OF assms(1)])
  fix i b assume "rl_callers s i = Some (Returned (Some b))"
  then have "i \<notin> fst ` set (rl_queue s)" using no_outcome_yet [OF assms(2)] by (force simp: held_def)
  then show "rl_outcomes (loop_exit s) i = rl_outcomes s i" by (simp add: loop_exit_def map_add_def map_of_dropped)
qed (simp_all add: loop_exit_def)

lemma accounts_step:
  assumes "relay_step s s'" and "accounts_match s" and "requests_placed s"
  shows "accounts_match s'"
  using assms(1)
proof (cases rule: relay_step.cases)
  case (start now c)
  with assms(2) show ?thesis by (auto simp: start_begin_def elim!: accounts_same)
next
  case started
  with assms(2) show ?thesis by (auto simp: start_finish_def elim!: accounts_same)
next
  case stop
  with assms(2) show ?thesis by (auto simp: relay_stop_def elim!: accounts_same)
next
  case (answer rs i p rs' result)
  have "j \<noteq> i" if "rl_callers s j = Some (Returned b)" for j b
    using no_outcome_yet [OF assms(3), of i p j b] answer that by (simp add: held_def)
  with answer show ?thesis by (intro accounts_same [OF assms(2)]) auto
next
  case (call i payload)
  then show ?thesis
    by (intro accounts_idle [OF assms(2), of _ i]) (auto simp: forward_call_def split: if_splits)
next
  case (send i payload)
  then show ?thesis by (intro accounts_idle [OF assms(2), of _ i]) auto
next
  case (send_fails i payload)
  then show ?thesis by (intro accounts_idle [OF assms(2), of _ i]) (auto simp: forward_return_def)
next
  case (reply i payload a)
  with accounts_return [OF assms(2)] show ?thesis by simp
qed (use assms(2,3) accounts_exit in \<open>auto elim!: accounts_same\<close>)

lemma bounds_step:
  assumes "relay_step s s'" and "within_bounds s" and "requests_placed s"
  shows "within_bounds s'"
  using assms(1)
proof (cases rule: relay_step.cases)
  case (start now c)
  have "rl_runtime s \<or> held s = []" using assms(3) by (auto simp: requests_placed_def placed_def)
  with start assms(2) show ?thesis
    by (auto simp: start_begin_def within_bounds_def max_in_flight_def held_def split: option.splits)
next
  case (reply i payload a)
  with assms(2) show ?thesis
    by (auto simp: within_bounds_def forward_return_def max_in_flight_def split: option.splits relay_response.splits)
qed (use assms(2) in \<open>auto simp: within_bounds_def max_in_flight_def relay_ops\<close>)

definition relay_ok :: "relay \<Rightarrow> bool" where
  "relay_ok s \<longleftrightarrow> requests_placed s \<and> accounts_match s \<and> within_bounds s"

lemma relay_ok_init: "relay_ok relay_init"
  by (simp add: relay_ok_def relay_init_def requests_placed_def placed_def held_def accounts_match_def delivered_def
      within_bounds_def)

lemma relay_ok_reachable: "relay_reachable s \<Longrightarrow> relay_ok s"
proof (induction rule: rtranclp_induct)
  case (step s s')
  then show ?case using requests_placed_step accounts_step bounds_step by (simp add: relay_ok_def)
qed (rule relay_ok_init)

section \<open>A relay that is deaf\<close>

text \<open>Once the runtime is there and the flag is down or the loop has ended, nothing brings the
  relay back.\<close>

definition deaf :: "relay \<Rightarrow> bool" where
  "deaf s \<longleftrightarrow> rl_runtime s \<and> \<not> rl_starting s \<and> (\<not> rl_running s \<or> rl_loop s = Exited)"

definition no_answer_for :: "nat \<Rightarrow> relay \<Rightarrow> bool" where
  "no_answer_for i s \<longleftrightarrow> rl_callers s i = None \<or> rl_callers s i = Some (Returned None) \<or>
     (\<exists>p. rl_callers s i = Some (Sending p)) \<and> rl_loop s = Exited"

lemma deaf_step: "relay_step s s' \<Longrightarrow> deaf s \<Longrightarrow> deaf s'"
  by (erule relay_step.cases)
    (auto simp: deaf_def relay_ops split: option.splits relay_response.splits)

lemma no_answer_step:
  assumes "relay_step s s'" and "deaf s" and "no_answer_for i s"
  shows "no_answer_for i s'"
  using assms(1)
proof (cases rule: relay_step.cases)
  case (reply j payload a)
  with assms(3) have "j \<noteq> i" by (auto simp: no_answer_for_def)
  with reply assms(3) show ?thesis
    by (auto simp: no_answer_for_def forward_return_def split: option.splits relay_response.splits)
next
  case (call j payload)
  with assms(2,3) show ?thesis by (auto simp: no_answer_for_def forward_call_def deaf_def)
next
  case (send j payload)
  with assms(3) show ?thesis by (auto simp: no_answer_for_def)
next
  case (start now c)
  with assms(2,3) show ?thesis by (auto simp: no_answer_for_def start_begin_def deaf_def)
qed (use assms(2,3) in \<open>auto simp: no_answer_for_def deaf_def relay_ops\<close>)

lemma deaf_steps:
  assumes "relay_step\<^sup>*\<^sup>* s s'" and "deaf s" and "no_answer_for i s"
  shows "deaf s' \<and> no_answer_for i s'"
  using assms(1) by (induction rule: rtranclp_induct) (use assms(2,3) deaf_step no_answer_step in blast)+

section \<open>Properties\<close>


definition example_relay_config :: relay_config where
  "example_relay_config = \<lparr>rl_url = ''https://node'', rl_wallet_pubkey = replicate 40 (CHR ''A''), rl_node_name = None,
     rl_max_concurrent = 4, rl_lamports_per_request = 100\<rparr>"

text \<open>A start whose loop looks at the flag before the flag is up.\<close>

definition example_early_exit :: relay where
  "example_early_exit = start_finish (loop_exit ((snd (start_begin 7 example_relay_config relay_init))\<lparr>rl_loop := Checking\<rparr>))"

lemma early_exit_reachable: "relay_reachable example_early_exit"
proof -
  let ?a = "snd (start_begin 7 example_relay_config relay_init)"
  let ?b = "?a\<lparr>rl_loop := Checking\<rparr>"
  have "relay_step relay_init ?a" by (rule relay_step.start) (simp add: relay_init_def)
  moreover have "relay_step ?a ?b" by (rule relay_step.client_built) (simp add: start_begin_def relay_init_def)
  moreover have "relay_step ?b (loop_exit ?b)" by (rule relay_step.flag_clear) (simp_all add: start_begin_def relay_init_def)
  moreover have "relay_step (loop_exit ?b) (start_finish (loop_exit ?b))"
    by (rule relay_step.started) (simp add: loop_exit_def start_begin_def relay_init_def)
  ultimately show ?thesis
    unfolding example_early_exit_def by (meson rtranclp.rtrancl_into_rtrancl rtranclp.rtrancl_refl)
qed

lemma early_exit_fields:
  "rl_running example_early_exit" "deaf example_early_exit" "rl_callers example_early_exit = Map.empty"
  "max_in_flight example_early_exit = 4"
  by (simp_all add: example_early_exit_def start_finish_def loop_exit_def start_begin_def relay_init_def deaf_def
      max_in_flight_def example_relay_config_def)


text \<open>C37: a stopped relay stays stopped, and a relay can be born deaf. When the flag is down after a
  start, or the loop has ended, then in everything that can follow no start brings it back (each
  either reports that it runs already or fails on the runtime that is set) and no new call ever
  gets an answer. A relay whose loop looks at the flag before \<open>start\<close> has raised it is in such a
  state while it says that it is running.\<close>

theorem relay_never_recovers:
  assumes "relay_reachable s" and "deaf s" and "rl_callers s i = None" and "relay_step\<^sup>*\<^sup>* s s'"
  shows "deaf s' \<and> rl_callers s' i \<noteq> Some (Returned (Some bytes)) \<and>
    (fst (start_begin now c s') \<longrightarrow> rl_running s' \<and> rl_loop s' = Exited) \<and>
    relay_reachable example_early_exit \<and> deaf example_early_exit \<and> rl_running example_early_exit"
proof -
  have "no_answer_for i s" using assms(3) by (simp add: no_answer_for_def)
  with deaf_steps [OF assms(4,2)] have "deaf s'" "no_answer_for i s'" by blast+
  then show ?thesis using early_exit_reachable early_exit_fields
    by (auto simp: no_answer_for_def deaf_def start_begin_def split: if_splits)
qed

theorem relay_never_recovers_witness:
  "rl_running example_early_exit \<and> deaf (forward_call 1 [] example_early_exit) \<and>
   rl_callers (forward_call 1 [] example_early_exit) 1 \<noteq> Some (Returned (Some []))"
proof -
  have "relay_step\<^sup>*\<^sup>* example_early_exit (forward_call 1 [] example_early_exit)"
    by (rule r_into_rtranclp, rule relay_step.call) (simp add: early_exit_fields)
  from relay_never_recovers [OF early_exit_reachable early_exit_fields(2) _ this, of 1] early_exit_fields
  show ?thesis by auto
qed

end
