(* ===== verification/Mobile_Mesh.thy ===== *)
theory Mobile_Mesh
  imports P2p_Node
begin

text \<open>
  \<open>sns-native/src/p2p_node.rs\<close> and \<open>mobile_peer.rs\<close>: the mobile node's own swarm task and the
  client that registers with a bootstrap node. A swarm is its phase; the one started first
  holds the receiver of the command channel, every later one finds its own channel closed,
  since \<open>SWARM_TX\<close> keeps the first sender and drops the others.
\<close>

section \<open>The swarm task\<close>

datatype swarm_phase = NoSwarm | SettingUp | Active | Ended

record mobile_mesh =
  mm_running :: bool
  mm_peer_count :: usize
  mm_channel :: bool
  mm_commands :: "string list"
  mm_owner :: swarm_phase
  mm_orphans :: "swarm_phase list"
  mm_calls :: "swarm_call list"

definition mm_new :: mobile_mesh where
  "mm_new = \<lparr>mm_running = False, mm_peer_count = 0, mm_channel = False, mm_commands = [],
     mm_owner = NoSwarm, mm_orphans = [], mm_calls = []\<rparr>"

definition mm_init_node :: "bool \<Rightarrow> string \<Rightarrow> mobile_mesh \<Rightarrow> (string + string) \<times> mobile_mesh" where
  "mm_init_node runtime peer_id s =
     (if mm_running s then (Inr ''already_running'', s)
      else if \<not> runtime then (Inl ''Relay runtime not initialized. Start relay first.'', s)
      else if mm_channel s then (Inr peer_id, s\<lparr>mm_orphans := mm_orphans s @ [SettingUp]\<rparr>)
      else (Inr peer_id, s\<lparr>mm_channel := True, mm_owner := SettingUp\<rparr>))"

text \<open>The behaviour a mobile swarm is built with. \<open>mdns_feature\<close> is the build feature; without it the
  argument of \<open>init_node\<close> has no effect.\<close>

record mobile_behaviour =
  mb_identify_protocol :: string
  mb_dcutr :: bool
  mb_mdns :: bool
  mb_ping_secs :: nat
  mb_max_established_incoming :: nat
  mb_max_established_outgoing :: nat

definition mobile_node_behaviour :: "bool \<Rightarrow> bool \<Rightarrow> mobile_behaviour" where
  "mobile_node_behaviour mdns_feature enable_mdns = \<lparr>mb_identify_protocol = ''/solnet-mobile/1.0.0'',
     mb_dcutr = True, mb_mdns = (mdns_feature \<and> enable_mdns), mb_ping_secs = 30,
     mb_max_established_incoming = 10, mb_max_established_outgoing = 40\<rparr>"

text \<open>The calls of a swarm that was built: listen, dial the bootstrap node, add its address.\<close>

definition mm_setup_calls :: "multiaddr_parser \<Rightarrow> swarm_call list" where
  "mm_setup_calls parse = [ListenOn ''/ip4/0.0.0.0/tcp/0'', ListenOn ''/ip4/0.0.0.0/udp/0/quic-v1''] @
     dial_calls parse BOOTSTRAP_ADDR @ [Bootstrap]"

definition mm_dial_peer :: "multiaddr_parser \<Rightarrow> string \<Rightarrow> mobile_mesh \<Rightarrow> bool \<times> mobile_mesh" where
  "mm_dial_peer parse multiaddr s =
     (if mm_channel s \<and> parse multiaddr \<noteq> None \<and> mm_owner s \<noteq> Ended \<and> length (mm_commands s) < 32
      then (True, s\<lparr>mm_commands := mm_commands s @ [multiaddr]\<rparr>) else (False, s))"

definition mm_get_peer_count :: "mobile_mesh \<Rightarrow> usize" where
  "mm_get_peer_count s = mm_peer_count s"

text \<open>What happens to the swarms: the one with the receiver (\<open>Owner\<close>) or an orphan, by its place.
  A swarm is built or fails to build, and a running one takes a command or an event. The
  command channel of an orphan is closed, which ends its loop.\<close>

datatype swarm_ref = Owner | Orphan nat

datatype mobile_event =
    Built swarm_ref
  | Failed swarm_ref
  | CommandTurn swarm_ref
  | PeerConnected swarm_ref
  | PeerClosed swarm_ref
  | PeerIdentified swarm_ref peer_id "string list"
  | OtherSwarmEvent swarm_ref

definition phase_of :: "swarm_ref \<Rightarrow> mobile_mesh \<Rightarrow> swarm_phase" where
  "phase_of r s = (case r of Owner \<Rightarrow> mm_owner s
     | Orphan i \<Rightarrow> if i < length (mm_orphans s) then mm_orphans s ! i else NoSwarm)"

definition set_phase :: "swarm_ref \<Rightarrow> swarm_phase \<Rightarrow> mobile_mesh \<Rightarrow> mobile_mesh" where
  "set_phase r ph s = (case r of Owner \<Rightarrow> s\<lparr>mm_owner := ph\<rparr> | Orphan i \<Rightarrow> s\<lparr>mm_orphans := (mm_orphans s)[i := ph]\<rparr>)"

text \<open>The end of a swarm task lowers the flag, whichever swarm it was; the receiver goes with its
  owner.\<close>

definition swarm_ends :: "swarm_ref \<Rightarrow> mobile_mesh \<Rightarrow> mobile_mesh" where
  "swarm_ends r s = (let s = set_phase r Ended s in
     s\<lparr>mm_running := False, mm_commands := (if r = Owner then [] else mm_commands s)\<rparr>)"

definition add_calls :: "swarm_call list \<Rightarrow> mobile_mesh \<Rightarrow> mobile_mesh" where
  "add_calls cs s = s\<lparr>mm_calls := mm_calls s @ cs\<rparr>"

fun mobile_swarm_step :: "multiaddr_parser \<Rightarrow> mobile_event \<Rightarrow> mobile_mesh \<Rightarrow> mobile_mesh" where
  "mobile_swarm_step parse (Built r) s =
     (if phase_of r s = SettingUp
      then add_calls (mm_setup_calls parse) ((set_phase r Active s)\<lparr>mm_running := True\<rparr>) else s)"
| "mobile_swarm_step parse (Failed r) s = (if phase_of r s = SettingUp then swarm_ends r s else s)"
| "mobile_swarm_step parse (CommandTurn r) s =
     (if phase_of r s \<noteq> Active then s
      else if r \<noteq> Owner then swarm_ends r s
      else (case mm_commands s of [] \<Rightarrow> s | a # q \<Rightarrow> add_calls [Dial a] (s\<lparr>mm_commands := q\<rparr>)))"
| "mobile_swarm_step parse (PeerConnected r) s =
     (if phase_of r s = Active then s\<lparr>mm_peer_count := mm_peer_count s + 1\<rparr> else s)"
| "mobile_swarm_step parse (PeerClosed r) s =
     (if phase_of r s = Active then s\<lparr>mm_peer_count := mm_peer_count s - 1\<rparr> else s)"
| "mobile_swarm_step parse (PeerIdentified r p addrs) s =
     (if phase_of r s = Active then add_calls (map (AddAddress p) addrs) s else s)"
| "mobile_swarm_step parse (OtherSwarmEvent r) s = s"

section \<open>What starting twice does\<close>

text \<open>A second start while the first swarm is being built gives an orphan, and the orphan's end
  lowers the flag of the first, so that a third start is not refused although a swarm runs.\<close>

lemma second_start_clears_flag:
  assumes "mm_owner s = SettingUp" "mm_channel s" "\<not> mm_running s" "mm_orphans s = []"
    and "s1 = snd (mm_init_node True q s)" "s2 = mobile_swarm_step parse (Built Owner) s1"
    and "s3 = mobile_swarm_step parse (CommandTurn (Orphan 0)) (mobile_swarm_step parse (Built (Orphan 0)) s2)"
  shows "mm_running s2" "mm_owner s3 = Active" "\<not> mm_running s3" "fst (mm_init_node True p s3) = Inr p"
  using assms
  by (simp_all add: mm_init_node_def phase_of_def set_phase_def swarm_ends_def add_calls_def Let_def)

text \<open>When the first swarm has ended, no later start makes dialling work again.\<close>

lemma dial_never_again:
  assumes "mm_channel s" "mm_owner s = Ended"
  shows "\<not> fst (mm_dial_peer parse a s)" "mm_owner (mobile_swarm_step parse e s) = Ended"
    "mm_owner (snd (mm_init_node rt p s)) = Ended" "mm_channel (snd (mm_init_node rt p s))"
    "mm_channel (mobile_swarm_step parse e s)"
  using assms
  by (cases e; auto simp: mm_dial_peer_def mm_init_node_def phase_of_def set_phase_def swarm_ends_def add_calls_def Let_def
      split: swarm_ref.splits list.splits)+

section \<open>The client of the bootstrap node\<close>

record mobile_peer_client =
  mp_assigned_peer :: "string option"
  mp_node_id :: string
  mp_platform_name :: string

definition mp_new :: "string \<Rightarrow> string \<Rightarrow> mobile_peer_client" where
  "mp_new node_id platform = \<lparr>mp_assigned_peer = None, mp_node_id = node_id, mp_platform_name = platform\<rparr>"

definition BOOTSTRAP_NODES :: "string list" where
  "BOOTSTRAP_NODES = [''https://solnet-production.up.railway.app'']"

text \<open>A POST gives nothing, an answer that is no success, or a success with a body that parses
  or not.\<close>

datatype post_result = NoAnswer | NotSuccess | SuccessBody "string + json"

definition mp_payload :: "string \<Rightarrow> mobile_peer_client \<Rightarrow> json" where
  "mp_payload version c = JObj [(''node_id'', JStr (mp_node_id c)), (''platform'', JStr (mp_platform_name c)),
     (''version'', JStr version), (''capabilities'', JArr [JStr ''rpc-proxy''])]"

fun mp_register_loop ::
  "(string \<Rightarrow> json \<Rightarrow> post_result) \<Rightarrow> string \<Rightarrow> string list \<Rightarrow> mobile_peer_client \<Rightarrow> (string + string) \<times> mobile_peer_client" where
  "mp_register_loop post version [] c =
     (let fallback = hd BOOTSTRAP_NODES in (Inr fallback, c\<lparr>mp_assigned_peer := Some fallback\<rparr>))"
| "mp_register_loop post version (bootstrap # rest) c =
     (case post (bootstrap @ ''/mobile/register'') (mp_payload version c) of
        SuccessBody (Inr data) \<Rightarrow>
          (let peer = unwrap_or (as_str (json_index data ''assigned_peer'')) bootstrap in
           (Inr peer, c\<lparr>mp_assigned_peer := Some peer\<rparr>))
      | SuccessBody (Inl e) \<Rightarrow> (Inl e, c)
      | _ \<Rightarrow> mp_register_loop post version rest c)"

definition mp_register ::
  "(string \<Rightarrow> json \<Rightarrow> post_result) \<Rightarrow> string \<Rightarrow> mobile_peer_client \<Rightarrow> (string + string) \<times> mobile_peer_client" where
  "mp_register post version c = mp_register_loop post version BOOTSTRAP_NODES c"

definition mp_forward_request :: "(string \<Rightarrow> json \<Rightarrow> string + json) \<Rightarrow> json \<Rightarrow> mobile_peer_client \<Rightarrow> string + json" where
  "mp_forward_request call payload c = call (unwrap_or (mp_assigned_peer c) (hd BOOTSTRAP_NODES)) payload"

definition mp_get_assigned_peer :: "mobile_peer_client \<Rightarrow> string option" where
  "mp_get_assigned_peer c = mp_assigned_peer c"

text \<open>After a registration that did not fail, requests go to the peer it returned.\<close>

lemma forward_after_register:
  "mp_register post version c = (Inr peer, c') \<Longrightarrow> mp_forward_request call payload c' = call peer payload"
  by (auto simp: mp_register_def BOOTSTRAP_NODES_def mp_forward_request_def Let_def
      split: post_result.splits sum.splits)

end
