(* ===== verification/Mobile_Ffi.thy ===== *)
theory Mobile_Ffi
  imports Mobile_Governor Relay_Client Mobile_Mesh Rpc_State
begin

text \<open>
  \<open>sns-native/src/lib.rs\<close>: the functions the mobile app calls, over the library's globals. A
  pointer is an option, null being \<open>None\<close>; a token buffer is at least as long as its stated
  length (the safety contract), a C string is its bytes up to the terminator, and a returned
  string is its text. The random generator, Ed25519, hexadecimal, the JSON parser and printer
  are parameters. Lines pushed to the app's log are kept in \<open>ff_log\<close>.
\<close>

section \<open>Globals\<close>

record ffi_state =
  ff_governor :: "mobile_governor option"
  ff_token :: "u8 list option"
  ff_governor_state :: u8
  ff_global_state :: u8
  ff_relay :: relay
  ff_mesh :: mobile_mesh
  ff_log :: "string list"

definition ffi_init :: ffi_state where
  "ffi_init = \<lparr>ff_governor = None, ff_token = None, ff_governor_state = 2, ff_global_state = throttle_u8 Standby,
     ff_relay = relay_init, ff_mesh = mm_new, ff_log = []\<rparr>"

record ffi_world =
  fw_now :: u64
  fw_parse :: "string \<Rightarrow> string + json"
  fw_print :: "json \<Rightarrow> string"
  fw_random :: "nat \<Rightarrow> u8 list"
  fw_public :: "u8 list \<Rightarrow> u8 list"
  fw_sign :: "u8 list \<Rightarrow> u8 list \<Rightarrow> u8 list"
  fw_hex :: hex_printer
  fw_unhex :: hex_parser
  fw_multiaddr :: multiaddr_parser
  fw_peer_id :: string

type_synonym token_ptr = "u8 list option"
type_synonym c_str = "u8 list option"

definition push_log :: "string \<Rightarrow> ffi_state \<Rightarrow> ffi_state" where
  "push_log line s = s\<lparr>ff_log := ff_log s @ [line]\<rparr>"

definition governor :: "ffi_state \<Rightarrow> mobile_governor" where
  "governor s = unwrap_or (ff_governor s) mg_new"

definition check_auth :: "token_ptr \<Rightarrow> usize \<Rightarrow> ffi_state \<Rightarrow> bool" where
  "check_auth token len s = (case token of
      None \<Rightarrow> False
    | Some buffer \<Rightarrow> len = 32 \<and>
        (case ff_token s of
           None \<Rightarrow> False
         | Some expected \<Rightarrow> diff_fold 0 (zip (take 32 buffer) expected) = 0))"

section \<open>Keys and random bytes\<close>

text \<open>\<open>CString::new\<close> fails on a text with a zero byte.\<close>

definition c_string :: "string \<Rightarrow> string" where
  "c_string t = (if CHR 0x00 \<in> set t then ''error'' else t)"

definition solnet_generate_keypair :: "ffi_world \<Rightarrow> token_ptr \<Rightarrow> usize \<Rightarrow> ffi_state \<Rightarrow> string option" where
  "solnet_generate_keypair w token len s =
     (if \<not> check_auth token len s then None
      else
        (let seed = fw_random w 32 in
         Some (c_string (fw_print w (JObj [(''publicKey'', JStr (fw_hex w (fw_public w seed))),
           (''secretKey'', JStr (fw_hex w seed))])))))"

definition solnet_sign_transaction ::
  "ffi_world \<Rightarrow> c_str \<Rightarrow> c_str \<Rightarrow> token_ptr \<Rightarrow> usize \<Rightarrow> ffi_state \<Rightarrow> string option" where
  "solnet_sign_transaction w secret_key_hex message token len s =
     (if \<not> check_auth token len s then None
      else do {
        secret_bytes \<leftarrow> secret_key_hex;
        msg_bytes \<leftarrow> message;
        secret_str \<leftarrow> str_from_utf8 secret_bytes;
        _ \<leftarrow> str_from_utf8 msg_bytes;
        secret \<leftarrow> fw_unhex w secret_str;
        if length secret \<noteq> 32 then None
        else Some (c_string (fw_hex w (fw_sign w secret msg_bytes)))
      })"

definition solnet_get_random_bytes :: "ffi_world \<Rightarrow> usize \<Rightarrow> string" where
  "solnet_get_random_bytes w n = c_string (fw_hex w (fw_random w (unat n)))"

section \<open>Governor, relay and mesh\<close>

definition solnet_init_governor :: "token_ptr \<Rightarrow> usize \<Rightarrow> ffi_state \<Rightarrow> bool \<times> ffi_state" where
  "solnet_init_governor token len s = (case token of
      None \<Rightarrow> (False, s)
    | Some buffer \<Rightarrow>
        if len \<noteq> 32 then (False, s)
        else (case ff_token s of
            Some t \<Rightarrow> (False, s)
          | None \<Rightarrow> (True, s\<lparr>ff_token := Some (take 32 buffer)\<rparr>)))"

definition solnet_set_throttle_state :: "u8 \<Rightarrow> token_ptr \<Rightarrow> usize \<Rightarrow> ffi_state \<Rightarrow> bool \<times> ffi_state" where
  "solnet_set_throttle_state state token len s =
     (if \<not> check_auth token len s then (False, s)
      else
        (let clamped = min state 2 in
         (True, push_log (''Throttle state manually updated to: '' @ decimal (unat clamped))
           (s\<lparr>ff_governor_state := clamped,
             ff_governor := Some (mg_set_state (throttle_from_u8 clamped) (governor s)),
             ff_global_state := clamped\<rparr>))))"

definition solnet_get_throttle_state :: "ffi_state \<Rightarrow> u8" where
  "solnet_get_throttle_state s = ff_governor_state s"

definition check_mark :: string where
  "check_mark = [CHR 0xE2, CHR 0x9C, CHR 0x85]"

definition cross_mark :: string where
  "cross_mark = [CHR 0xE2, CHR 0x9D, CHR 0x8C]"

definition solnet_start_relay ::
  "ffi_world \<Rightarrow> c_str \<Rightarrow> token_ptr \<Rightarrow> usize \<Rightarrow> ffi_state \<Rightarrow> bool \<times> ffi_state" where
  "solnet_start_relay w config_json token len s =
     (if \<not> check_auth token len s then (False, s)
      else (case Option.bind config_json str_from_utf8 of
          None \<Rightarrow> (False, s)
        | Some text \<Rightarrow>
            (case relay_config_from_json (fw_parse w) text of
               Inl e \<Rightarrow> (False, push_log (cross_mark @ '' FAILED to initialize Relay: Invalid Config JSON'') s)
             | Inr cfg \<Rightarrow>
                 (let s = push_log ''Initializing Enterprise Relay Client...'' s;
                      (res, r) = relay_start (fw_now w) cfg (ff_relay s);
                      s = s\<lparr>ff_relay := r\<rparr> in
                  (res, if res then push_log (check_mark @ '' Relay Client ACTIVE'') s else s)))))"

definition solnet_stop_relay :: "token_ptr \<Rightarrow> usize \<Rightarrow> ffi_state \<Rightarrow> bool \<times> ffi_state" where
  "solnet_stop_relay token len s =
     (if \<not> check_auth token len s then (False, s)
      else
        (let s = push_log ''Stopping Relay Client...'' s; (res, r) = relay_stop (ff_relay s) in
         (res, s\<lparr>ff_relay := r\<rparr>)))"

definition solnet_get_daemon_stats :: "ffi_world \<Rightarrow> ffi_state \<Rightarrow> json" where
  "solnet_get_daemon_stats w s = relay_stats_json (fw_now w) (ff_global_state s) (ff_relay s)"

definition solnet_init_p2p_node ::
  "ffi_world \<Rightarrow> token_ptr \<Rightarrow> usize \<Rightarrow> ffi_state \<Rightarrow> json option \<times> ffi_state" where
  "solnet_init_p2p_node w token len s =
     (if \<not> check_auth token len s then (None, s)
      else
        (let (r, m) = mm_init_node (rl_runtime (ff_relay s)) (fw_peer_id w) (ff_mesh s) in
         (Some (case r of
            Inr peer_id \<Rightarrow> JObj [(''status'', JStr ''running''), (''peer_id'', JStr peer_id)]
          | Inl e \<Rightarrow> JObj [(''status'', JStr ''error''), (''message'', JStr e)]), s\<lparr>ff_mesh := m\<rparr>)))"

definition solnet_connect_peer ::
  "ffi_world \<Rightarrow> c_str \<Rightarrow> token_ptr \<Rightarrow> usize \<Rightarrow> ffi_state \<Rightarrow> bool \<times> ffi_state" where
  "solnet_connect_peer w multiaddr token len s =
     (if \<not> check_auth token len s then (False, s)
      else (case multiaddr of
          None \<Rightarrow> (False, s)
        | Some bytes \<Rightarrow>
            (let (ok, m) = mm_dial_peer (fw_multiaddr w) (unwrap_or (str_from_utf8 bytes) '''') (ff_mesh s) in
             (ok, s\<lparr>ff_mesh := m\<rparr>))))"

definition solnet_get_peer_count :: "token_ptr \<Rightarrow> usize \<Rightarrow> ffi_state \<Rightarrow> i32" where
  "solnet_get_peer_count token len s =
     (if \<not> check_auth token len s then 0 else ucast (mm_get_peer_count (ff_mesh s)))"

section \<open>Calls\<close>

text \<open>The calls that can change the globals, and what the library's own tasks do to the relay and
  the mesh in the background, of which nothing is assumed.\<close>

datatype ffi_call =
    InitGovernor token_ptr usize
  | SetThrottle u8 token_ptr usize
  | StartRelay c_str token_ptr usize
  | StopRelay token_ptr usize
  | InitP2p token_ptr usize
  | ConnectPeer c_str token_ptr usize

fun ffi_step :: "ffi_world \<Rightarrow> ffi_call \<Rightarrow> ffi_state \<Rightarrow> ffi_state" where
  "ffi_step w (InitGovernor token len) s = snd (solnet_init_governor token len s)"
| "ffi_step w (SetThrottle v token len) s = snd (solnet_set_throttle_state v token len s)"
| "ffi_step w (StartRelay cfg token len) s = snd (solnet_start_relay w cfg token len s)"
| "ffi_step w (StopRelay token len) s = snd (solnet_stop_relay token len s)"
| "ffi_step w (InitP2p token len) s = snd (solnet_init_p2p_node w token len s)"
| "ffi_step w (ConnectPeer a token len) s = snd (solnet_connect_peer w a token len s)"

fun call_token :: "ffi_call \<Rightarrow> token_ptr \<times> usize" where
  "call_token (InitGovernor token len) = (token, len)"
| "call_token (SetThrottle v token len) = (token, len)"
| "call_token (StartRelay cfg token len) = (token, len)"
| "call_token (StopRelay token len) = (token, len)"
| "call_token (InitP2p token len) = (token, len)"
| "call_token (ConnectPeer a token len) = (token, len)"

text \<open>The safety contract of the callers.\<close>

definition buffer_ok :: "token_ptr \<times> usize \<Rightarrow> bool" where
  "buffer_ok ptr \<longleftrightarrow> (\<forall>buffer. fst ptr = Some buffer \<longrightarrow> unat (snd ptr) \<le> length buffer)"

fun ffi_run :: "(ffi_world \<times> ffi_call \<times> relay \<times> mobile_mesh) list \<Rightarrow> ffi_state \<Rightarrow> ffi_state" where
  "ffi_run [] s = s"
| "ffi_run ((w, c, r, m) # cs) s = ffi_run cs ((ffi_step w c s)\<lparr>ff_relay := r, ff_mesh := m\<rparr>)"

text \<open>The three copies of the throttle state agree, and a token has 32 bytes.\<close>

definition ffi_ok :: "ffi_state \<Rightarrow> bool" where
  "ffi_ok s \<longleftrightarrow> mg_state (governor s) = ff_governor_state s \<and> ff_global_state s = ff_governor_state s \<and>
     ff_governor_state s \<le> 2 \<and> (\<forall>t. ff_token s = Some t \<longrightarrow> length t = 32)"

lemma ffi_ok_init: "ffi_ok ffi_init"
  by (simp add: ffi_ok_def ffi_init_def governor_def mg_new_def)

lemma check_auth_token:
  assumes "check_auth token len s" "ffi_ok s" "buffer_ok (token, len)"
  shows "len = 32 \<and> (\<exists>buffer. token = Some buffer \<and> ff_token s = Some (take 32 buffer))"
proof -
  obtain buffer expected where t: "token = Some buffer" "len = 32" "ff_token s = Some expected"
    "diff_fold 0 (zip (take 32 buffer) expected) = 0"
    using assms(1) by (auto simp: check_auth_def split: option.splits)
  then have "length (take 32 buffer) = length expected" using assms(2,3) by (auto simp: ffi_ok_def buffer_ok_def)
  with t diff_fold_eq [of "take 32 buffer" expected] show ?thesis by simp
qed

lemma throttle_clamp: "throttle_u8 (throttle_from_u8 (min v 2)) = min v (2::u8)"
  by (simp add: throttle_u8_clamped)

lemma ffi_ok_step:
  assumes "ffi_ok s" "buffer_ok (call_token c)"
  shows "ffi_ok (ffi_step w c s)"
proof (cases c)
  case (InitGovernor token len)
  with assms show ?thesis
    by (auto simp: solnet_init_governor_def ffi_ok_def governor_def buffer_ok_def split: option.splits)
next
  case (SetThrottle v token len)
  with assms(1) throttle_clamp [of v] show ?thesis
    by (auto simp: solnet_set_throttle_state_def ffi_ok_def governor_def push_log_def mg_set_state_def Let_def)
next
  case (StartRelay cfg token len)
  with assms(1) show ?thesis
    by (auto simp: solnet_start_relay_def ffi_ok_def governor_def push_log_def Let_def split: option.splits sum.splits prod.splits)
qed (use assms(1) in \<open>auto simp: solnet_stop_relay_def solnet_init_p2p_node_def solnet_connect_peer_def ffi_ok_def
    governor_def push_log_def Let_def split: option.splits prod.splits\<close>)

lemma ffi_ok_run:
  "ffi_ok s \<Longrightarrow> \<forall>(w, c, r, m)\<in>set cs. buffer_ok (call_token c) \<Longrightarrow> ffi_ok (ffi_run cs s)"
proof (induction cs arbitrary: s)
  case (Cons x cs)
  obtain w c r m where x: "x = (w, c, r, m)" by (cases x)
  with Cons.prems have "ffi_ok (ffi_step w c s)" using ffi_ok_step by auto
  then have "ffi_ok ((ffi_step w c s)\<lparr>ff_relay := r, ff_mesh := m\<rparr>)" by (simp add: ffi_ok_def governor_def)
  with Cons x show ?case by auto
qed simp

lemma unauthorised_step:
  assumes "\<not> check_auth (fst (call_token c)) (snd (call_token c)) s"
  shows "ffi_step w c s = s \<or> (\<exists>buffer. c = InitGovernor (Some buffer) 32 \<and> ff_token s = None \<and>
    ffi_step w c s = s\<lparr>ff_token := Some (take 32 buffer)\<rparr>)"
  using assms
  by (cases c) (auto simp: solnet_init_governor_def solnet_set_throttle_state_def solnet_start_relay_def
      solnet_stop_relay_def solnet_init_p2p_node_def solnet_connect_peer_def split: option.splits)

lemma step_keeps_token: "ff_token s = Some t \<Longrightarrow> ff_token (ffi_step w c s) = Some t"
  by (cases c) (auto simp: solnet_init_governor_def solnet_set_throttle_state_def solnet_start_relay_def
      solnet_stop_relay_def solnet_init_p2p_node_def solnet_connect_peer_def push_log_def Let_def
      split: option.splits sum.splits prod.splits)

section \<open>Property\<close>

text \<open>C40: the session token guards the library. After any calls, whatever the background tasks did, a
  call that changes something either sets the token while there is none, and changes nothing
  else, or carries exactly the token that is set; a token that is set stays; and the three
  copies of the throttle state that the governor, the app and the statistics read are one value
  of at most 2.\<close>

theorem token_guards_library:
  assumes "s = ffi_run cs ffi_init" and "\<forall>(w, c, r, m)\<in>set cs. buffer_ok (call_token c)"
    and "buffer_ok (call_token c)" and "s' = ffi_step w c s"
  shows "(s' = s \<or>
      (\<exists>buffer. c = InitGovernor (Some buffer) 32 \<and> ff_token s = None \<and> s' = s\<lparr>ff_token := Some (take 32 buffer)\<rparr>) \<or>
      (\<exists>buffer. call_token c = (Some buffer, 32) \<and> ff_token s = Some (take 32 buffer))) \<and>
    (ff_token s = None \<or> ff_token s' = ff_token s) \<and>
    mg_state (governor s') = ff_governor_state s' \<and> ff_global_state s' = ff_governor_state s' \<and> ff_governor_state s' \<le> 2"
proof -
  have ok: "ffi_ok s" unfolding assms(1) by (rule ffi_ok_run [OF ffi_ok_init assms(2)])
  then have ok': "ffi_ok s'" unfolding assms(4) using assms(3) by (rule ffi_ok_step)
  have "s' = s \<or>
      (\<exists>buffer. c = InitGovernor (Some buffer) 32 \<and> ff_token s = None \<and> s' = s\<lparr>ff_token := Some (take 32 buffer)\<rparr>) \<or>
      (\<exists>buffer. call_token c = (Some buffer, 32) \<and> ff_token s = Some (take 32 buffer))"
  proof (cases "check_auth (fst (call_token c)) (snd (call_token c)) s")
    case True
    then show ?thesis using check_auth_token [OF True ok] assms(3) by (metis prod.collapse)
  next
    case False
    then show ?thesis using unauthorised_step [OF False] assms(4) by blast
  qed
  moreover have "ff_token s = None \<or> ff_token s' = ff_token s"
    using step_keeps_token assms(4) by (cases "ff_token s") simp_all
  ultimately show ?thesis using ok' by (simp add: ffi_ok_def)
qed

definition example_ffi_world :: ffi_world where
  "example_ffi_world = \<lparr>fw_now = 7, fw_parse = (\<lambda>_. Inl ''none''), fw_print = (\<lambda>_. ''{}''), fw_random = (\<lambda>n. replicate n 0),
     fw_public = id, fw_sign = (\<lambda>_ m. m), fw_hex = hex_encode, fw_unhex = hex_decode, fw_multiaddr = (\<lambda>_. None),
     fw_peer_id = ''p''\<rparr>"

theorem token_guards_library_witness:
  "let s = ffi_run [(example_ffi_world, InitGovernor (Some (replicate 32 9)) 32, relay_init, mm_new)] ffi_init;
       s' = ffi_step example_ffi_world (SetThrottle 5 (Some (replicate 32 9)) 32) s in
   s' \<noteq> s \<and> ff_governor_state s' = 2 \<and> mg_state (governor s') = 2"
proof -
  let ?s = "ffi_run [(example_ffi_world, InitGovernor (Some (replicate 32 9)) 32, relay_init, mm_new)] ffi_init"
  let ?c = "SetThrottle 5 (Some (replicate 32 9)) 32"
  have auth: "check_auth (Some (replicate 32 9)) 32 ?s"
    using diff_fold_eq [of "replicate 32 9" "replicate 32 9"]
    by (simp add: check_auth_def solnet_init_governor_def ffi_init_def)
  have "min (5::u8) 2 = 2" by (simp add: min_def word_le_nat_alt)
  then have "ff_governor_state (ffi_step example_ffi_world ?c ?s) = 2"
      "ff_log (ffi_step example_ffi_world ?c ?s) \<noteq> ff_log ?s"
    using auth by (simp_all add: solnet_set_throttle_state_def push_log_def Let_def)
  moreover have "mg_state (governor (ffi_step example_ffi_world ?c ?s)) = ff_governor_state (ffi_step example_ffi_world ?c ?s)"
    using token_guards_library [OF refl _ _ refl,
        of "[(example_ffi_world, InitGovernor (Some (replicate 32 9)) 32, relay_init, mm_new)]" ?c example_ffi_world]
    by (simp add: buffer_ok_def)
  ultimately show ?thesis by (auto simp: Let_def)
qed

end
