(* ===== verification/Mobile_Jni.thy ===== *)
theory Mobile_Jni
  imports Mobile_Ffi
begin

text \<open>
  The Java bridges of \<open>sns-native/src/lib.rs\<close> (feature \<open>android-jni\<close>): each converts its arguments,
  calls the C function of \<open>Mobile_Ffi\<close> and converts the result; the C strings that change hands
  are kept in a heap. A reference to a Java string or array is an option, \<open>None\<close> being null or one
  the JVM does not give out. A panic in a bridge ends the process, since it may not unwind into
  Java: the result is \<open>None\<close>. The JVM (whether it makes a string, whether it takes a log line) and
  the allocator are fields of \<open>jni_world\<close>.
\<close>

section \<open>C strings\<close>

record c_heap =
  ch_strings :: "nat \<rightharpoonup> string"
  ch_next :: nat

definition c_heap_new :: c_heap where
  "c_heap_new = \<lparr>ch_strings = Map.empty, ch_next = 1\<rparr>"

text \<open>\<open>CString::into_raw\<close> of a text that has no zero byte; null for no text.\<close>

definition c_give :: "string option \<Rightarrow> c_heap \<Rightarrow> nat option \<times> c_heap" where
  "c_give x h = (case x of
      None \<Rightarrow> (None, h)
    | Some t \<Rightarrow> (Some (ch_next h), \<lparr>ch_strings = (ch_strings h)(ch_next h \<mapsto> t), ch_next = ch_next h + 1\<rparr>))"

text \<open>Reading or freeing what is not allocated is undefined behaviour, \<open>None\<close>.\<close>

definition c_text :: "nat \<Rightarrow> c_heap \<Rightarrow> string option" where
  "c_text p h = map_option (\<lambda>t. unwrap_or (str_from_utf8 (bytes_of t)) ''error'') (ch_strings h p)"

definition solnet_free_string :: "nat option \<Rightarrow> c_heap \<Rightarrow> c_heap option" where
  "solnet_free_string ptr h = (case ptr of
      None \<Rightarrow> Some h
    | Some p \<Rightarrow> (if ch_strings h p = None then None else Some (h\<lparr>ch_strings := (ch_strings h)(p := None)\<rparr>)))"

section \<open>State and world\<close>

record jni_state =
  js_ffi :: ffi_state
  js_heap :: c_heap
  js_vm :: bool
  js_callback :: "nat option"
  js_tracing :: bool
  js_java_log :: "string list"

definition jni_init :: jni_state where
  "jni_init = \<lparr>js_ffi = ffi_init, js_heap = c_heap_new, js_vm = False, js_callback = None, js_tracing = False,
     js_java_log = []\<rparr>"

record jni_world =
  jw_ffi :: ffi_world
  jw_new_string :: "string \<Rightarrow> bool"
  jw_memory :: "nat \<Rightarrow> bool"
  jw_takes_log :: "string \<Rightarrow> bool"

type_synonym jarray = "u8 list option"
type_synonym jstring = "string option"

text \<open>The lines a call pushes reach Java when the machine and the callback are known.\<close>

definition to_java :: "jni_world \<Rightarrow> string list \<Rightarrow> jni_state \<Rightarrow> jni_state" where
  "to_java w lines s =
     (if js_vm s \<and> js_callback s \<noteq> None
      then s\<lparr>js_java_log := js_java_log s @ filter (jw_takes_log w) lines\<rparr> else s)"

definition put_ffi :: "jni_world \<Rightarrow> ffi_state \<Rightarrow> jni_state \<Rightarrow> jni_state" where
  "put_ffi w f s = to_java w (drop (length (ff_log (js_ffi s))) (ff_log f)) (s\<lparr>js_ffi := f\<rparr>)"

section \<open>Conversions\<close>

definition len_of :: "u8 list \<Rightarrow> usize" where
  "len_of bs = of_nat (length bs)"

text \<open>\<open>CString::new(s).unwrap()\<close>: a zero byte panics.\<close>

definition c_bytes :: "string \<Rightarrow> u8 list option" where
  "c_bytes t = (if CHR 0x00 \<in> set t then None else Some (bytes_of t))"

text \<open>\<open>env.new_string(text).unwrap().into_raw()\<close>.\<close>

definition new_jstring :: "jni_world \<Rightarrow> string \<Rightarrow> jstring option" where
  "new_jstring w t = (if jw_new_string w t then Some (Some t) else None)"

text \<open>The end of the bridges that return a C string: null stays null; the text is copied into a
  Java string and the C string is freed.\<close>

definition hand_over :: "jni_world \<Rightarrow> nat option \<Rightarrow> c_heap \<Rightarrow> (jstring \<times> c_heap) option" where
  "hand_over w ptr h = (case ptr of
      None \<Rightarrow> Some (None, h)
    | Some p \<Rightarrow> do {
        res \<leftarrow> c_text p h;
        output \<leftarrow> new_jstring w res;
        h \<leftarrow> solnet_free_string ptr h;
        Some (output, h)
      })"

definition give_over :: "jni_world \<Rightarrow> string option \<Rightarrow> jni_state \<Rightarrow> (jstring \<times> jni_state) option" where
  "give_over w x s =
     (let (ptr, h) = c_give x (js_heap s) in
      map_option (\<lambda>(out, h). (out, s\<lparr>js_heap := h\<rparr>)) (hand_over w ptr h))"

text \<open>\<open>vec![0u8; length]\<close> panics above \<open>isize::MAX\<close>, and both it and its hexadecimal text need
  memory.\<close>

definition random_text :: "jni_world \<Rightarrow> usize \<Rightarrow> string option" where
  "random_text w n = (if 2 ^ 63 \<le> unat n \<or> \<not> jw_memory w (unat n) then None
     else Some (solnet_get_random_bytes (jw_ffi w) n))"

text \<open>\<open>CString::new(json.to_string()).unwrap()\<close>.\<close>

definition json_text :: "jni_world \<Rightarrow> json \<Rightarrow> string option" where
  "json_text w v = (let t = fw_print (jw_ffi w) v in if CHR 0x00 \<in> set t then None else Some t)"

section \<open>Bridges\<close>

definition solnetInitGovernor :: "jni_world \<Rightarrow> jarray \<Rightarrow> jni_state \<Rightarrow> (bool \<times> jni_state) option" where
  "solnetInitGovernor w token s = (case token of
      None \<Rightarrow> Some (False, s)
    | Some bytes \<Rightarrow> (let (ok, f) = solnet_init_governor (Some bytes) (len_of bytes) (js_ffi s) in
        Some (ok, put_ffi w f s)))"

definition solnetGetRandomBytes :: "jni_world \<Rightarrow> i32 \<Rightarrow> jni_state \<Rightarrow> (jstring \<times> jni_state) option" where
  "solnetGetRandomBytes w n s = do {
     t \<leftarrow> random_text w (scast n);
     give_over w (Some t) s
   }"

definition solnetGenerateKeypair :: "jni_world \<Rightarrow> jarray \<Rightarrow> jni_state \<Rightarrow> (jstring \<times> jni_state) option" where
  "solnetGenerateKeypair w token s = (case token of
      None \<Rightarrow> Some (None, s)
    | Some auth \<Rightarrow> give_over w (solnet_generate_keypair (jw_ffi w) (Some auth) (len_of auth) (js_ffi s)) s)"

definition solnetSignTransaction ::
  "jni_world \<Rightarrow> jstring \<Rightarrow> jstring \<Rightarrow> jarray \<Rightarrow> jni_state \<Rightarrow> (jstring \<times> jni_state) option" where
  "solnetSignTransaction w secret_ref message token s = do {
     sk \<leftarrow> secret_ref;
     msg \<leftarrow> message;
     auth \<leftarrow> token;
     c_sk \<leftarrow> c_bytes sk;
     c_msg \<leftarrow> c_bytes msg;
     give_over w (solnet_sign_transaction (jw_ffi w) (Some c_sk) (Some c_msg) (Some auth) (len_of auth) (js_ffi s)) s
   }"

definition solnetStartRelay :: "jni_world \<Rightarrow> jstring \<Rightarrow> jarray \<Rightarrow> jni_state \<Rightarrow> (bool \<times> jni_state) option" where
  "solnetStartRelay w config_json token s = do {
     json \<leftarrow> config_json;
     auth \<leftarrow> token;
     c_json \<leftarrow> c_bytes json;
     let (ok, f) = solnet_start_relay (jw_ffi w) (Some c_json) (Some auth) (len_of auth) (js_ffi s);
     Some (ok, put_ffi w f s)
   }"

definition solnetStopRelay :: "jni_world \<Rightarrow> jarray \<Rightarrow> jni_state \<Rightarrow> (bool \<times> jni_state) option" where
  "solnetStopRelay w token s = do {
     auth \<leftarrow> token;
     let (ok, f) = solnet_stop_relay (Some auth) (len_of auth) (js_ffi s);
     Some (ok, put_ffi w f s)
   }"

definition solnetGetDaemonStats :: "jni_world \<Rightarrow> jni_state \<Rightarrow> (jstring \<times> jni_state) option" where
  "solnetGetDaemonStats w s = do {
     output \<leftarrow> new_jstring w (fw_print (jw_ffi w) (solnet_get_daemon_stats (jw_ffi w) (js_ffi s)));
     Some (output, s)
   }"

definition solnetSetThrottleState :: "jni_world \<Rightarrow> u8 \<Rightarrow> jarray \<Rightarrow> jni_state \<Rightarrow> (bool \<times> jni_state) option" where
  "solnetSetThrottleState w state token s = do {
     auth \<leftarrow> token;
     let (ok, f) = solnet_set_throttle_state state (Some auth) (len_of auth) (js_ffi s);
     Some (ok, put_ffi w f s)
   }"

definition solnetGetThrottleState :: "jni_state \<Rightarrow> i32" where
  "solnetGetThrottleState s = ucast (solnet_get_throttle_state (js_ffi s))"

definition solnetInitP2PNode :: "jni_world \<Rightarrow> bool \<Rightarrow> jarray \<Rightarrow> jni_state \<Rightarrow> (jstring \<times> jni_state) option" where
  "solnetInitP2PNode w enable_mdns token s = do {
     auth \<leftarrow> token;
     let (res, f) = solnet_init_p2p_node (jw_ffi w) (Some auth) (len_of auth) (js_ffi s);
     let s = put_ffi w f s;
     case res of
       None \<Rightarrow> Some (None, s)
     | Some v \<Rightarrow> do {
         t \<leftarrow> json_text w v;
         give_over w (Some t) s
       }
   }"

definition solnetConnectPeer :: "jni_world \<Rightarrow> jstring \<Rightarrow> jarray \<Rightarrow> jni_state \<Rightarrow> (bool \<times> jni_state) option" where
  "solnetConnectPeer w multiaddr token s = do {
     addr \<leftarrow> multiaddr;
     auth \<leftarrow> token;
     c_addr \<leftarrow> c_bytes addr;
     let (ok, f) = solnet_connect_peer (jw_ffi w) (Some c_addr) (Some auth) (len_of auth) (js_ffi s);
     Some (ok, put_ffi w f s)
   }"

definition solnetGetPeerCount :: "jarray \<Rightarrow> jni_state \<Rightarrow> i32 option" where
  "solnetGetPeerCount token s = do {
     auth \<leftarrow> token;
     Some (solnet_get_peer_count (Some auth) (len_of auth) (js_ffi s))
   }"

section \<open>The log callback\<close>

definition push_log_to_java :: "jni_world \<Rightarrow> string \<Rightarrow> jni_state \<Rightarrow> jni_state" where
  "push_log_to_java w line s = put_ffi w (push_log line (js_ffi s)) s"

text \<open>The machine, the callback and the subscriber are each set once for the process; \<open>vm_ok\<close> and
  \<open>callback\<close> say what the JVM gives out.\<close>

definition solnetRegisterLogCallback :: "jni_world \<Rightarrow> bool \<Rightarrow> nat option \<Rightarrow> jni_state \<Rightarrow> jni_state" where
  "solnetRegisterLogCallback w vm_ok callback s =
     (let s = (if vm_ok then s\<lparr>js_vm := True\<rparr> else s);
          s = (if js_callback s = None then s\<lparr>js_callback := callback\<rparr> else s) in
      if js_tracing s then s
      else push_log_to_java w ([CHR 0xF0, CHR 0x9F, CHR 0x93, CHR 0xA1] @ '' SOLNET Tracing Bridge Initialized'')
        (s\<lparr>js_tracing := True\<rparr>))"

text \<open>The tracing layer: the last field named \<open>message\<close> is the text, a debug-formatted one loses
  its quotation marks.\<close>

datatype log_level = LError | LWarn | LInfo | LDebug | LTrace

datatype field_value = DebugText string | PlainText string

definition record_field :: "string \<times> field_value \<Rightarrow> string \<Rightarrow> string" where
  "record_field f message =
     (if fst f = ''message'' then (case snd f of
        DebugText t \<Rightarrow> filter (\<lambda>c. c \<noteq> CHR 0x22) t | PlainText t \<Rightarrow> t) else message)"

definition level_prefix :: "log_level \<Rightarrow> string" where
  "level_prefix level = (case level of
      LError \<Rightarrow> cross_mark @ '' ''
    | LWarn \<Rightarrow> [CHR 0xE2, CHR 0x9A, CHR 0xA0, CHR 0xEF, CHR 0xB8, CHR 0x8F] @ '' ''
    | LInfo \<Rightarrow> ''> ''
    | _ \<Rightarrow> ''  '')"

definition on_event :: "jni_world \<Rightarrow> log_level \<Rightarrow> (string \<times> field_value) list \<Rightarrow> jni_state \<Rightarrow> jni_state" where
  "on_event w level event_fields s =
     (let message = fold record_field event_fields [] in
      if message = [] then s else push_log_to_java w (level_prefix level @ message) s)"

section \<open>Calls from Java\<close>

datatype jni_call =
    JInitGovernor jarray
  | JGetRandomBytes i32
  | JGenerateKeypair jarray
  | JSignTransaction jstring jstring jarray
  | JStartRelay jstring jarray
  | JStopRelay jarray
  | JGetDaemonStats
  | JSetThrottleState u8 jarray
  | JGetThrottleState
  | JInitP2PNode bool jarray
  | JConnectPeer jstring jarray
  | JGetPeerCount jarray
  | JRegisterLogCallback bool "nat option"

datatype jni_result = RBool bool | RText jstring | RInt i32 | RUnit

fun jni_step :: "jni_world \<Rightarrow> jni_call \<Rightarrow> jni_state \<Rightarrow> (jni_result \<times> jni_state) option" where
  "jni_step w (JInitGovernor token) s = map_option (map_prod RBool id) (solnetInitGovernor w token s)"
| "jni_step w (JGetRandomBytes n) s = map_option (map_prod RText id) (solnetGetRandomBytes w n s)"
| "jni_step w (JGenerateKeypair token) s = map_option (map_prod RText id) (solnetGenerateKeypair w token s)"
| "jni_step w (JSignTransaction sk msg token) s = map_option (map_prod RText id) (solnetSignTransaction w sk msg token s)"
| "jni_step w (JStartRelay cfg token) s = map_option (map_prod RBool id) (solnetStartRelay w cfg token s)"
| "jni_step w (JStopRelay token) s = map_option (map_prod RBool id) (solnetStopRelay w token s)"
| "jni_step w JGetDaemonStats s = map_option (map_prod RText id) (solnetGetDaemonStats w s)"
| "jni_step w (JSetThrottleState v token) s = map_option (map_prod RBool id) (solnetSetThrottleState w v token s)"
| "jni_step w JGetThrottleState s = Some (RInt (solnetGetThrottleState s), s)"
| "jni_step w (JInitP2PNode mdns token) s = map_option (map_prod RText id) (solnetInitP2PNode w mdns token s)"
| "jni_step w (JConnectPeer a token) s = map_option (map_prod RBool id) (solnetConnectPeer w a token s)"
| "jni_step w (JGetPeerCount token) s = map_option (\<lambda>n. (RInt n, s)) (solnetGetPeerCount token s)"
| "jni_step w (JRegisterLogCallback vm_ok callback) s = Some (RUnit, solnetRegisterLogCallback w vm_ok callback s)"

section \<open>What the bridges add\<close>

text \<open>The call of the library a bridge makes, among those that can change it.\<close>

definition token_of :: "u8 list \<Rightarrow> token_ptr \<times> usize" where
  "token_of bytes = (Some bytes, len_of bytes)"

fun library_call :: "jni_call \<Rightarrow> ffi_call option" where
  "library_call (JInitGovernor (Some t)) = Some (InitGovernor (Some t) (len_of t))"
| "library_call (JStartRelay (Some cfg) (Some t)) = Some (StartRelay (Some (bytes_of cfg)) (Some t) (len_of t))"
| "library_call (JStopRelay (Some t)) = Some (StopRelay (Some t) (len_of t))"
| "library_call (JSetThrottleState v (Some t)) = Some (SetThrottle v (Some t) (len_of t))"
| "library_call (JInitP2PNode mdns (Some t)) = Some (InitP2p (Some t) (len_of t))"
| "library_call (JConnectPeer (Some a) (Some t)) = Some (ConnectPeer (Some (bytes_of a)) (Some t) (len_of t))"
| "library_call _ = None"

definition shown :: "string \<Rightarrow> string" where
  "shown t = unwrap_or (str_from_utf8 (bytes_of t)) ''error''"

text \<open>What the C function answers, in Java's types.\<close>

fun library_answer :: "ffi_world \<Rightarrow> jni_call \<Rightarrow> ffi_state \<Rightarrow> jni_result" where
  "library_answer w (JInitGovernor token) f = RBool (case token of None \<Rightarrow> False
     | Some t \<Rightarrow> fst (solnet_init_governor (Some t) (len_of t) f))"
| "library_answer w (JGetRandomBytes n) f = RText (Some (shown (solnet_get_random_bytes w (scast n))))"
| "library_answer w (JGenerateKeypair token) f = RText (case token of None \<Rightarrow> None
     | Some t \<Rightarrow> map_option shown (solnet_generate_keypair w (Some t) (len_of t) f))"
| "library_answer w (JSignTransaction sk msg token) f = RText (map_option shown (solnet_sign_transaction w
     (map_option bytes_of sk) (map_option bytes_of msg) token (len_of (the token)) f))"
| "library_answer w (JStartRelay cfg token) f = RBool (fst (solnet_start_relay w (map_option bytes_of cfg) token
     (len_of (the token)) f))"
| "library_answer w (JStopRelay token) f = RBool (fst (solnet_stop_relay token (len_of (the token)) f))"
| "library_answer w JGetDaemonStats f = RText (Some (fw_print w (solnet_get_daemon_stats w f)))"
| "library_answer w (JSetThrottleState v token) f = RBool (fst (solnet_set_throttle_state v token (len_of (the token)) f))"
| "library_answer w JGetThrottleState f = RInt (ucast (solnet_get_throttle_state f))"
| "library_answer w (JInitP2PNode mdns token) f = RText (map_option (\<lambda>v. shown (fw_print w v))
     (fst (solnet_init_p2p_node w token (len_of (the token)) f)))"
| "library_answer w (JConnectPeer a token) f = RBool (fst (solnet_connect_peer w (map_option bytes_of a) token
     (len_of (the token)) f))"
| "library_answer w (JGetPeerCount token) f = RInt (solnet_get_peer_count token (len_of (the token)) f)"
| "library_answer w (JRegisterLogCallback vm_ok callback) f = RUnit"

definition heap_ok :: "c_heap \<Rightarrow> bool" where
  "heap_ok h \<longleftrightarrow> (\<forall>p\<ge>ch_next h. ch_strings h p = None)"

lemma put_ffi_fields [simp]:
  "js_ffi (put_ffi w f s) = f" "js_heap (put_ffi w f s) = js_heap s"
  by (simp_all add: put_ffi_def to_java_def)

lemma give_over_eq:
  assumes "heap_ok (js_heap s)"
  shows "give_over w x s = (case x of
      None \<Rightarrow> Some (None, s)
    | Some t \<Rightarrow> (if jw_new_string w (shown t)
        then Some (Some (shown t), s\<lparr>js_heap := (js_heap s)\<lparr>ch_next := ch_next (js_heap s) + 1\<rparr>\<rparr>) else None))"
proof (cases x)
  case (Some t)
  have "(ch_strings (js_heap s))(ch_next (js_heap s) := None) = ch_strings (js_heap s)"
    using assms by (auto simp: heap_ok_def)
  with Some show ?thesis
    by (simp add: give_over_def c_give_def hand_over_def c_text_def new_jstring_def solnet_free_string_def shown_def Let_def)
qed (simp add: give_over_def c_give_def hand_over_def)

lemma heap_ok_next [simp]: "heap_ok h \<Longrightarrow> heap_ok (h\<lparr>ch_next := Suc (ch_next h)\<rparr>)"
  by (simp add: heap_ok_def)

lemma c_bytes_Some: "c_bytes t = Some bs \<longleftrightarrow> CHR 0x00 \<notin> set t \<and> bs = bytes_of t"
  by (auto simp: c_bytes_def)

lemmas bridge_defs = solnetInitGovernor_def solnetGetRandomBytes_def solnetGenerateKeypair_def solnetSignTransaction_def
  solnetStartRelay_def solnetStopRelay_def solnetGetDaemonStats_def solnetSetThrottleState_def
  solnetGetThrottleState_def solnetInitP2PNode_def solnetConnectPeer_def solnetGetPeerCount_def

definition same_heap :: "jni_state \<Rightarrow> jni_state \<Rightarrow> bool" where
  "same_heap s s' \<longleftrightarrow> ch_strings (js_heap s') = ch_strings (js_heap s) \<and> heap_ok (js_heap s')"

lemma give_over_SomeD:
  assumes "give_over w x s = Some (out, s')" and "heap_ok (js_heap s)"
  shows "out = map_option shown x \<and> js_ffi s' = js_ffi s \<and> same_heap s s'"
  using assms by (auto simp: give_over_eq same_heap_def split: option.splits if_splits)

lemma solnet_p2p_answer:
  "solnet_init_p2p_node w token len f = (res, f') \<Longrightarrow>
     fst (solnet_init_p2p_node w token len f) = res \<and> snd (solnet_init_p2p_node w token len f) = f'"
  by simp

definition but_log :: "ffi_state \<Rightarrow> ffi_state" where
  "but_log f = f\<lparr>ff_log := []\<rparr>"

lemma register_frame:
  "but_log (js_ffi (solnetRegisterLogCallback w vm_ok callback s)) = but_log (js_ffi s)"
  "js_heap (solnetRegisterLogCallback w vm_ok callback s) = js_heap s"
  by (simp_all add: solnetRegisterLogCallback_def push_log_to_java_def push_log_def but_log_def Let_def)

text \<open>The bridge of the mesh start, in the two ways it can end.\<close>

lemma init_p2p_bridge:
  assumes "solnetInitP2PNode w mdns token s = Some (out, s')" and "heap_ok (js_heap s)"
  obtains t where "token = Some t"
    "js_ffi s' = snd (solnet_init_p2p_node (jw_ffi w) (Some t) (len_of t) (js_ffi s))"
    "out = map_option (\<lambda>v. shown (fw_print (jw_ffi w) v)) (fst (solnet_init_p2p_node (jw_ffi w) (Some t) (len_of t) (js_ffi s)))"
    "same_heap s s'"
proof -
  from assms(1) obtain t where t: "token = Some t" by (auto simp: solnetInitP2PNode_def bind_eq_Some_conv)
  obtain res f where rf: "solnet_init_p2p_node (jw_ffi w) (Some t) (len_of t) (js_ffi s) = (res, f)" by fastforce
  show thesis
  proof (cases res)
    case None
    with assms t rf show thesis by (intro that [of t]) (auto simp: solnetInitP2PNode_def same_heap_def)
  next
    case (Some v)
    with assms(1) t rf obtain tx where "json_text w v = Some tx" "give_over w (Some tx) (put_ffi w f s) = Some (out, s')"
      by (auto simp: solnetInitP2PNode_def bind_eq_Some_conv)
    with give_over_SomeD [of w "Some tx" "put_ffi w f s" out s'] assms(2) t rf Some show thesis
      by (intro that [of t]) (auto simp: json_text_def same_heap_def Let_def split: if_splits)
  qed
qed

text \<open>The arguments that end the process: a null string or array where the bridge unwraps, a string
  with a zero character, a negative number of random bytes.\<close>

definition bad_string :: "jstring \<Rightarrow> bool" where
  "bad_string x \<longleftrightarrow> (case x of None \<Rightarrow> True | Some t \<Rightarrow> CHR 0x00 \<in> set t)"

fun bad_arguments :: "jni_call \<Rightarrow> bool" where
  "bad_arguments (JGetRandomBytes n) \<longleftrightarrow> sint n < 0"
| "bad_arguments (JSignTransaction sk msg token) \<longleftrightarrow> bad_string sk \<or> bad_string msg \<or> token = None"
| "bad_arguments (JStartRelay cfg token) \<longleftrightarrow> bad_string cfg \<or> token = None"
| "bad_arguments (JStopRelay token) \<longleftrightarrow> token = None"
| "bad_arguments (JSetThrottleState v token) \<longleftrightarrow> token = None"
| "bad_arguments (JInitP2PNode mdns token) \<longleftrightarrow> token = None"
| "bad_arguments (JConnectPeer a token) \<longleftrightarrow> bad_string a \<or> token = None"
| "bad_arguments (JGetPeerCount token) \<longleftrightarrow> token = None"
| "bad_arguments _ \<longleftrightarrow> False"

lemma wrap_negative: 
  assumes "- (2 ^ 31) \<le> (i::int)" "i < 2 ^ 31"
  shows "(2::int) ^ 63 \<le> i mod 2 ^ 64 \<longleftrightarrow> i < 0"
proof (cases "i < 0")
  case True
  have "(i + 2 ^ 64) mod 2 ^ 64 = i + 2 ^ 64" using assms True by (intro mod_pos_pos_trivial) simp_all
  then have "i mod 2 ^ 64 = i + 2 ^ 64" by simp
  with assms True show ?thesis by simp
next
  case False
  then have "i mod 2 ^ 64 = i" using assms by (intro mod_pos_pos_trivial) simp_all
  with False assms show ?thesis by simp
qed

lemma negative_length: "2 ^ 63 \<le> unat (scast (n :: i32) :: usize) \<longleftrightarrow> sint n < 0"
proof -
  have len: "LENGTH(64) = 64" by simp
  have u: "uint (scast n :: usize) = sint n mod 2 ^ 64" unfolding scast_eq uint_word_of_int len by (rule refl)
  have "int (unat (scast n :: usize)) = uint (scast n :: usize)" by (rule uint_nat [symmetric])
  then have "2 ^ 63 \<le> unat (scast n :: usize) \<longleftrightarrow> 2 ^ 63 \<le> uint (scast n :: usize)"
    using of_nat_le_iff [of "2 ^ 63" "unat (scast n :: usize)", where 'a = int] by (simp only: of_nat_power of_nat_numeral)
  also have "\<dots> \<longleftrightarrow> sint n < 0" unfolding u
    by (rule wrap_negative) (use sint_range_size [of n] in \<open>simp_all add: word_size\<close>)
  finally show ?thesis .
qed

section \<open>One call\<close>

text \<open>The bridges that return a C string as a Java string, and what a call is to be.\<close>

fun gives_text :: "jni_call \<Rightarrow> bool" where
  "gives_text (JGetRandomBytes n) \<longleftrightarrow> True"
| "gives_text (JGenerateKeypair token) \<longleftrightarrow> True"
| "gives_text (JSignTransaction sk msg token) \<longleftrightarrow> True"
| "gives_text (JInitP2PNode mdns token) \<longleftrightarrow> True"
| "gives_text _ \<longleftrightarrow> False"

definition refines_library :: "jni_world \<Rightarrow> jni_call \<Rightarrow> jni_state \<Rightarrow> jni_result \<Rightarrow> jni_state \<Rightarrow> bool" where
  "refines_library w c s res s' \<longleftrightarrow> res = library_answer (jw_ffi w) c (js_ffi s) \<and>
     but_log (js_ffi s') = but_log (case library_call c of None \<Rightarrow> js_ffi s | Some fc \<Rightarrow> ffi_step (jw_ffi w) fc (js_ffi s)) \<and>
     ch_strings (js_heap s') = ch_strings (js_heap s) \<and> heap_ok (js_heap s')"

lemma text_bridge_refines:
  assumes "jni_step w c s = Some (res, s')" and "heap_ok (js_heap s)" and "gives_text c"
  shows "refines_library w c s res s'"
  supply refines_library_def [simp]
proof (cases c)
  case (JGetRandomBytes n)
  with assms(1) obtain t out where "random_text w (scast n) = Some t" "give_over w (Some t) s = Some (out, s')" "res = RText out"
    by (auto simp: solnetGetRandomBytes_def bind_eq_Some_conv)
  with give_over_SomeD [of w "Some t" s out s'] assms(2) JGetRandomBytes show ?thesis
    by (auto simp: random_text_def same_heap_def split: if_splits)
next
  case (JGenerateKeypair token)
  with assms give_over_SomeD [of w _ s _ s'] show ?thesis
    by (cases token) (fastforce simp: solnetGenerateKeypair_def same_heap_def)+
next
  case (JSignTransaction sk msg token)
  with assms(1) obtain a b t out where "sk = Some a" "msg = Some b" "token = Some t"
    "give_over w (solnet_sign_transaction (jw_ffi w) (Some (bytes_of a)) (Some (bytes_of b)) (Some t) (len_of t) (js_ffi s)) s = Some (out, s')"
    "res = RText out"
    by (auto simp: solnetSignTransaction_def bind_eq_Some_conv c_bytes_Some)
  with give_over_SomeD [OF this(4) assms(2)] JSignTransaction show ?thesis by (simp add: same_heap_def)
next
  case (JInitP2PNode mdns token)
  with assms(1) obtain out where out: "solnetInitP2PNode w mdns token s = Some (out, s')" "res = RText out" by auto
  from out(1) assms(2) show ?thesis
    by (rule init_p2p_bridge) (simp add: JInitP2PNode out(2) same_heap_def)
qed (use assms(3) in simp_all)

lemma control_bridge_refines:
  assumes "jni_step w c s = Some (res, s')" and "heap_ok (js_heap s)" and "\<not> gives_text c"
  shows "refines_library w c s res s'"
  supply refines_library_def [simp]
proof (cases c)
  case (JInitGovernor token)
  with assms show ?thesis by (cases token) (auto simp: bridge_defs split: prod.splits)
next
  case (JRegisterLogCallback vm_ok callback)
  with assms register_frame [of w vm_ok callback s] show ?thesis by auto
next
  case (JStartRelay cfg token)
  with assms(1) obtain a t where a: "cfg = Some a" "token = Some t" "CHR 0x00 \<notin> set a"
    by (auto simp: solnetStartRelay_def bind_eq_Some_conv c_bytes_Some)
  with JStartRelay assms show ?thesis
    by (cases "solnet_start_relay (jw_ffi w) (Some (bytes_of a)) (Some t) (len_of t) (js_ffi s)")
      (auto simp: solnetStartRelay_def c_bytes_def)
next
  case (JStopRelay token)
  with assms show ?thesis
    by (cases token; cases "solnet_stop_relay token (len_of (the token)) (js_ffi s)") (auto simp: solnetStopRelay_def)
next
  case (JSetThrottleState v token)
  with assms show ?thesis
    by (cases token; cases "solnet_set_throttle_state v token (len_of (the token)) (js_ffi s)")
      (auto simp: solnetSetThrottleState_def)
next
  case (JConnectPeer adr token)
  with assms(1) obtain a t where a: "adr = Some a" "token = Some t" "CHR 0x00 \<notin> set a"
    by (auto simp: solnetConnectPeer_def bind_eq_Some_conv c_bytes_Some)
  with JConnectPeer assms show ?thesis
    by (cases "solnet_connect_peer (jw_ffi w) (Some (bytes_of a)) (Some t) (len_of t) (js_ffi s)")
      (auto simp: solnetConnectPeer_def c_bytes_def)
next
  case (JGetPeerCount token)
  with assms show ?thesis by (cases token) (auto simp: solnetGetPeerCount_def)
next
  case JGetDaemonStats
  with assms show ?thesis by (auto simp: solnetGetDaemonStats_def new_jstring_def bind_eq_Some_conv split: if_splits)
next
  case JGetThrottleState
  with assms show ?thesis by (auto simp: solnetGetThrottleState_def)
qed (use assms(3) in simp_all)

lemma text_bridge_crashes:
  assumes "\<And>t. jw_new_string w t" and "\<And>n. jw_memory w n" and "\<And>v. CHR 0x00 \<notin> set (fw_print (jw_ffi w) v)"
    and "heap_ok (js_heap s)" and "gives_text c"
  shows "jni_step w c s = None \<longleftrightarrow> bad_arguments c"
proof -
  have given: "give_over w x t \<noteq> None" if "heap_ok (js_heap t)" for x t
    using that assms(1) by (auto simp: give_over_eq split: option.splits)
  show ?thesis
  proof (cases c)
    case (JGetRandomBytes n)
    with given [OF assms(4)] assms(2) negative_length [of n] show ?thesis
      by (auto simp: solnetGetRandomBytes_def random_text_def bind_eq_None_conv)
  next
    case (JSignTransaction sk msg token)
    with given [OF assms(4)] show ?thesis
      by (cases sk; cases msg; cases token) (auto simp: solnetSignTransaction_def bind_eq_None_conv bad_string_def c_bytes_def)
  next
    case (JInitP2PNode mdns token)
    have fine: "give_over w (Some t) (put_ffi w f s) \<noteq> None" for t f using given assms(4) by simp
    show ?thesis
    proof (cases token)
      case (Some t)
      obtain res f where "solnet_init_p2p_node (jw_ffi w) (Some t) (len_of t) (js_ffi s) = (res, f)" by fastforce
      with Some JInitP2PNode fine assms(3) show ?thesis
        by (cases res) (auto simp: solnetInitP2PNode_def json_text_def)
    qed (simp add: JInitP2PNode solnetInitP2PNode_def)
  next
    case (JGenerateKeypair token)
    with given [OF assms(4)] show ?thesis by (cases token) (auto simp: solnetGenerateKeypair_def)
  qed (use assms(5) in simp_all)
qed

lemma control_bridge_crashes:
  assumes "\<And>t. jw_new_string w t" and "\<not> gives_text c"
  shows "jni_step w c s = None \<longleftrightarrow> bad_arguments c"
proof (cases c)
  case (JInitGovernor token)
  then show ?thesis by (cases token) (simp_all add: solnetInitGovernor_def split: prod.splits)
next
  case (JStartRelay cfg token)
  then show ?thesis by (cases cfg; cases token) (simp_all add: solnetStartRelay_def bad_string_def c_bytes_def split: prod.splits)
next
  case (JConnectPeer adr token)
  then show ?thesis by (cases adr; cases token) (simp_all add: solnetConnectPeer_def bad_string_def c_bytes_def split: prod.splits)
next
  case (JStopRelay token)
  then show ?thesis by (cases token) (simp_all add: solnetStopRelay_def split: prod.splits)
next
  case (JSetThrottleState v token)
  then show ?thesis by (cases token) (simp_all add: solnetSetThrottleState_def split: prod.splits)
next
  case (JGetPeerCount token)
  then show ?thesis by (cases token) (simp_all add: solnetGetPeerCount_def)
qed (use assms in \<open>simp_all add: solnetGetDaemonStats_def new_jstring_def\<close>)

section \<open>Properties\<close>

text \<open>C38: the bridges are the library. A call from Java that does not end the process answers what the
  C function answers for the converted arguments, leaves the library in the state that call
  leaves it in (but for the log line of the callback's registration), and frees every C string
  it was given, so the strings that are allocated afterwards are those that were before.\<close>

theorem bridges_refine_library:
  assumes "jni_step w c s = Some (res, s')" and "heap_ok (js_heap s)"
  shows "res = library_answer (jw_ffi w) c (js_ffi s) \<and>
    but_log (js_ffi s') = but_log (case library_call c of None \<Rightarrow> js_ffi s | Some fc \<Rightarrow> ffi_step (jw_ffi w) fc (js_ffi s)) \<and>
    ch_strings (js_heap s') = ch_strings (js_heap s) \<and> heap_ok (js_heap s')"
  using text_bridge_refines [OF assms] control_bridge_refines [OF assms] unfolding refines_library_def
  by (cases "gives_text c") simp_all

text \<open>C39: the process can be ended without the token. When the JVM makes every string and memory does
  not run out, a call from Java ends the process exactly when its arguments are bad, whatever the
  state and whatever token is set or given: the conversions come before the check of the token.\<close>

theorem crash_needs_no_token:
  assumes "\<And>t. jw_new_string w t" and "\<And>n. jw_memory w n" and "\<And>v. CHR 0x00 \<notin> set (fw_print (jw_ffi w) v)"
    and "heap_ok (js_heap s)"
  shows "jni_step w c s = None \<longleftrightarrow> bad_arguments c"
  using text_bridge_crashes [OF assms] control_bridge_crashes [OF assms(1)] by (cases "gives_text c") simp_all

definition example_jni_world :: jni_world where
  "example_jni_world = \<lparr>jw_ffi = example_ffi_world, jw_new_string = (\<lambda>_. True), jw_memory = (\<lambda>_. True), jw_takes_log = (\<lambda>_. True)\<rparr>"

lemma example_heap: "heap_ok (js_heap jni_init)"
  by (simp add: heap_ok_def jni_init_def c_heap_new_def)

theorem bridges_refine_library_witness:
  "\<exists>s'. jni_step example_jni_world (JGetRandomBytes 2) jni_init = Some (RText (Some ''0000''), s') \<and>
     ch_strings (js_heap s') = Map.empty"
proof -
  have "scast (2 :: i32) = (2 :: usize)" by simp
  have answer: "shown (solnet_get_random_bytes example_ffi_world 2) = ''0000''" by code_simp
  obtain x s' where run: "jni_step example_jni_world (JGetRandomBytes 2) jni_init = Some (x, s')"
    using example_heap
    by (auto simp: solnetGetRandomBytes_def random_text_def example_jni_world_def give_over_eq)
  with bridges_refine_library [OF run example_heap] answer show ?thesis
    by (auto simp: example_jni_world_def jni_init_def c_heap_new_def)
qed

theorem crash_needs_no_token_witness:
  "jni_step example_jni_world (JGetRandomBytes (- 1)) jni_init = None \<and>
   jni_step example_jni_world (JStopRelay None) jni_init = None \<and>
   jni_step example_jni_world (JGenerateKeypair None) jni_init \<noteq> None"
proof -
  have "sint (- 1 :: i32) < 0" by simp
  moreover have "jni_step example_jni_world c jni_init = None \<longleftrightarrow> bad_arguments c" for c
    by (rule crash_needs_no_token) (simp_all add: example_jni_world_def example_ffi_world_def example_heap)
  ultimately show ?thesis by (simp only: bad_arguments.simps not_False_eq_True simp_thms)
qed

end
