(* ===== verification/Phone_Registration.thy ===== *)
theory Phone_Registration
  imports Rpc_Routes Mobile_Mesh
begin

text \<open>
  The mobile client of \<open>sns-native/src/mobile_peer.rs\<close> and the daemon's routes together: what a
  phone's registration does on the node that answers it, and where the phone's requests go
  afterwards. The text of a JSON body is what the printer writes and the reader takes back;
  that the node reads the phone's payload is a hypothesis.
\<close>

section \<open>The node as the other end of a POST\<close>

text \<open>How the client sees a response: a success has a status from 200 to 299, and its body is JSON or
  not.\<close>

definition post_result_of :: "http_response \<Rightarrow> post_result" where
  "post_result_of r =
     (if 200 \<le> hr_status r \<and> hr_status r < 300
      then SuccessBody (case hr_body r of JsonBody v \<Rightarrow> Inr v | _ \<Rightarrow> Inl ''error decoding response body'')
      else NotSuccess)"

section \<open>The list of peers\<close>

lemma update_listed:
  assumes "distinct (map fst xs)" and "\<not> P v"
  shows "filter (\<lambda>(k, v). P v) (AList.update k v xs) = filter (\<lambda>(k', v). k' \<noteq> k) (filter (\<lambda>(k, v). P v) xs)"
  using assms
proof (induction xs)
  case (Cons x xs)
  have "filter (\<lambda>(k', v). k' \<noteq> k) (filter (\<lambda>(k, v). P v) xs) = filter (\<lambda>(k, v). P v) xs" if "fst x = k"
    using that Cons.prems(1) by (auto simp: image_iff intro!: filter_cong split: prod.splits)
  with Cons show ?case by (cases x) auto
qed simp

lemma mobile_not_listed: "starts_with (''mobile:'' @ p) ''mobile:''"
  by simp

lemma registered_state:
  "mobile_register_handler (mp_payload version c) s =
     (secured 200 (JsonBody (JObj [(''status'', JStr ''registered''), (''assigned_peer'', JStr assigned_peer),
        (''node_id'', JStr (mp_node_id c)), (''platform'', JStr (mp_platform_name c)),
        (''message'', JStr ''Route all requests to assigned_peer'')])),
      s\<lparr>sh_registry := dm_insert (mp_node_id c) (''mobile:'' @ mp_platform_name c) (sh_registry s)\<rparr>)"
  by (simp add: mobile_register_handler_def mp_payload_def json_index_def Let_def)

lemma registered_list:
  "listed_peers (snd (mobile_register_handler (mp_payload version c) s)) =
     filter (\<lambda>(k, v). k \<noteq> mp_node_id c) (listed_peers s)"
  unfolding registered_state listed_peers_def
  by (simp add: DAList.update.rep_eq update_listed [of _ "\<lambda>v. \<not> starts_with v ''mobile:''"] mobile_not_listed)

lemma register_route:
  assumes "hw_json w headers body = Inr payload"
  shows "http_request w POST ''/mobile/register'' headers body s = Some (finished (mobile_register_handler payload s))"
  using assms by (simp add: http_request_def find_endpoint_def routes_def serve_def with_json_def)

section \<open>Property\<close>

text \<open>C31: a phone and the node that answers its registration agree, and anybody can take a peer off the
  node's list. The phone takes the peer the node assigns, its bootstrap node, and posts its
  requests to that node's JSON-RPC route from then on, which takes them; the node knows the phone as a
  mobile one. No token is asked for, and the id is the client's choice: a peer of that id is off
  the list that phones and nodes are given, while the others stay.\<close>

theorem phone_registration:
  assumes "hw_json w headers body = Inr (mp_payload version c)"
    and "http_request w POST ''/mobile/register'' headers body s = Some (Finished r, s')"
    and "post (assigned_peer @ ''/mobile/register'') (mp_payload version c) = post_result_of r"
  shows "mp_register post version c = (Inr assigned_peer, c\<lparr>mp_assigned_peer := Some assigned_peer\<rparr>) \<and>
    mp_forward_request call v (c\<lparr>mp_assigned_peer := Some assigned_peer\<rparr>) = call assigned_peer v \<and>
    find_endpoint POST ''/'' = Some RpcEndpoint \<and>
    dm_get (sh_registry s') (mp_node_id c) = Some (''mobile:'' @ mp_platform_name c) \<and>
    listed_peers s' = filter (\<lambda>(k, v). k \<noteq> mp_node_id c) (listed_peers s)"
proof -
  have run: "mobile_register_handler (mp_payload version c) s = (r, s')"
    using assms(2) by (cases "mobile_register_handler (mp_payload version c) s")
      (simp add: register_route [OF assms(1)] finished_def)
  then have "listed_peers s' = filter (\<lambda>(k, v). k \<noteq> mp_node_id c) (listed_peers s)"
    using registered_list [of version c s] by simp
  moreover have "post_result_of r = SuccessBody (Inr (JObj [(''status'', JStr ''registered''), (''assigned_peer'', JStr assigned_peer),
        (''node_id'', JStr (mp_node_id c)), (''platform'', JStr (mp_platform_name c)),
        (''message'', JStr ''Route all requests to assigned_peer'')]))"
    using run by (auto simp: registered_state post_result_of_def)
  ultimately show ?thesis using run assms(3)
    by (auto simp: registered_state mp_register_def BOOTSTRAP_NODES_def assigned_peer_def json_index_def
        mp_forward_request_def find_endpoint_def routes_def lookup_update Let_def)
qed

text \<open>A node with one desktop peer, and a phone that registers under that peer's id.\<close>

theorem phone_registration_witness:
  "\<exists>s r s'. http_request (example_http_world\<lparr>hw_json := \<lambda>_ _. Inr (mp_payload ''1'' (mp_new ''12D3'' ''android''))\<rparr>)
      POST ''/mobile/register'' Map.empty [] s = Some (Finished r, s') \<and>
     listed_peers s = [(''12D3'', ''http://10.0.0.9:8080'')] \<and> listed_peers s' = []"
proof -
  let ?c = "mp_new ''12D3'' ''android''" and ?s = "example_node\<lparr>sh_registry := dm_insert ''12D3'' ''http://10.0.0.9:8080'' dm_new\<rparr>"
  let ?w = "example_http_world\<lparr>hw_json := \<lambda>_ _. Inr (mp_payload ''1'' (mp_new ''12D3'' ''android''))\<rparr>"
  have json: "hw_json ?w Map.empty [] = Inr (mp_payload ''1'' ?c)" by simp
  obtain r s' where run: "http_request ?w POST ''/mobile/register'' Map.empty [] ?s = Some (Finished r, s')"
    using register_route [OF json, of ?s] by (cases "mobile_register_handler (mp_payload ''1'' ?c) ?s") (simp add: finished_def)
  have list: "listed_peers ?s = [(''12D3'', ''http://10.0.0.9:8080'')]"
    by (simp add: listed_peers_def DAList.update.rep_eq DAList.empty.rep_eq)
  from phone_registration [OF json run, of "\<lambda>_ _. post_result_of r"] list have "listed_peers s' = []"
    by (simp add: mp_new_def)
  with run list show ?thesis by blast
qed

end
