(* ===== verification/Spec2Isabelle.thy ===== *)
theory Spec2Isabelle
  imports Program_Properties Security Attack_Prevention Peer_Guard Consensus Zk_Payments Onion Latency_Engine
    Load_Balancer Config Device Rpc_Properties Rpc_Routes Daemon Daemon_Process Mobile_Jni Phone_Registration
begin

text \<open>
  The Solana Nervous System (SNS).

  Three programs are modelled: the on-chain program (\<open>sns-program/programs/sns-program/src/lib.rs\<close>)
  that registers relay nodes, settles their batches and slashes them; the daemon
  (\<open>sns-daemon/src\<close>) that relays JSON-RPC calls, guards itself against abuse and takes part in a
  peer-to-peer mesh; and the native library of the mobile app (\<open>sns-native/src\<close>). The daemon
  uses two files of the native crate, \<open>battery_guard.rs\<close> and \<open>platform.rs\<close>.

  Reading the code. A record is a struct, a datatype an enum, a \<open>w word\<close> an integer of that width.
  A panic is the value \<open>None\<close> of an option: the release profile checks overflow and aborts on a
  panic, so \<open>checked_add\<close> and its siblings are the operators of the sources, while atomics wrap.
  A \<open>Result\<close> is a sum, \<open>Inl\<close> the error. A \<open>DashMap\<close> is an association list with unique keys whose
  order stands for the iteration order. Text is the list of its UTF-8 bytes. Everything that is
  not under \<open>src\<close> is a parameter: clocks and random numbers are arguments, SHA-256, HMAC, AES-GCM,
  X25519, Ed25519, base64, hex, the JSON parser and printer, HTTP calls and the file system are
  fields of a record of the world (\<open>chain\<close>, \<open>rpc_world\<close>, \<open>batch_world\<close>, \<open>onion_crypto\<close>,
  \<open>consensus_world\<close>, \<open>ffi_world\<close>), with what the code relies on as named laws (\<open>hex_law\<close>,
  \<open>crypto_law\<close> and those of the chain) that concrete instances satisfy.

  Shared foundations. \<open>Prelude\<close> has the integers, the concurrent maps and iterators, and the
  locales \<open>step_invariant\<close> and \<open>step_monotone\<close> (interpreted by the program, the balancer, the peer
  guard and the consensus router); \<open>Rust_Text\<close> the
  string functions, hexadecimal and decimal; \<open>Json\<close> the values of \<open>serde_json\<close>. \<open>Guard_Interfaces\<close>
  has the locales two components share: a fixed-window counter (interpreted by the limiters of
  \<open>security.rs\<close> and \<open>attack_prevention.rs\<close>) and a table of expiring bans (interpreted by
  \<open>attack_prevention.rs\<close> and \<open>peer_guard.rs\<close>). \<open>Daemon\<close> adds the locale \<open>kept_by_steps\<close> for invariants
  of runs, interpreted on the daemon's step for two invariants, and \<open>Rpc_Interleaving\<close> its relational
  counterpart \<open>kept_by_relation\<close>, interpreted on the steps of a node (permits, rewards) and, in
  \<open>Daemon_Process\<close>, on those of the process (a mesh that is not up).

  The on-chain program. \<open>Program_State\<close>: accounts, errors, events, addresses and the chain's
  operations. \<open>Program_Instructions\<close>: the five instructions with the checks Anchor derives from
  their contexts, each to its end. \<open>Program_Rewards\<close>: the reward loop and its closed form, with the
  sum over the eras. \<open>Program_Safety\<close> and \<open>Program_Properties\<close>: frames of the instructions and the
  theorems: the reward of a batch, that the halving never sets in because the counter's account
  is not declared mutable, conservation of lamports, well-formed node records, a batch settled
  once, who may slash, and the node that cannot be ejected. \<open>Program_Chain_Example\<close> is a concrete
  chain that satisfies the laws and a concrete ledger.

  The daemon's components, one theory each: \<open>Security\<close> (request signer, limiter, sanitizer, circuit
  breaker), \<open>Sharding\<close>, \<open>Geo_Router\<close>, \<open>Config\<close>, \<open>Attack_Prevention\<close>, \<open>Peer_Guard\<close>, \<open>Consensus\<close>,
  \<open>Zk_Payments\<close> (receipts and the Merkle root), \<open>Onion\<close>, \<open>Latency_Engine\<close> (response cache),
  \<open>Load_Balancer\<close>, \<open>Wallet_Rewards\<close>, \<open>Parallel_Executor\<close>, \<open>Verifier\<close> (with \<open>light_client.rs\<close>), \<open>Device\<close>
  (battery guard and platform limits), \<open>P2p_Node\<close> (the event loop, with \<open>telemetry.rs\<close>), \<open>Identity\<close>
  and \<open>Mesh_Start\<close> (\<open>start_p2p_node\<close> up to its loop). Each has the
  component's state and operations in the order of its source, then its lemmas and properties:
  bounds per address and per peer, the cache as a refinement of the history of stored answers,
  the limiter and the breaker against their histories, the consensus verdict, the binding of the
  Merkle root, the onion round trip.

  The request path. \<open>Rpc_State\<close> is the state shared by the handlers of \<open>rpc_proxy.rs\<close> and the start in
  \<open>main.rs\<close> (\<open>boot\<close>); \<open>Rpc_Handler\<close> is \<open>rpc_handler\<close>: \<open>admit\<close> (battery, host, ban, limit, UTF-8,
  payload scan, parse), \<open>rpc_begin\<close> (cache, permit, mesh choice) and \<open>answer_locally\<close> (slot counter
  or upstream with circuit breaker, balancer and verifier). A request that waits for a permit is
  the value \<open>Waiting\<close>. \<open>Rpc_Endpoints\<close> has the other fifteen handlers. Calls to others are recorded in
  the model's field \<open>sh_sent\<close>. \<open>Rpc_Frame\<close> says what each step reads and writes, \<open>Rpc_Node\<close> what a
  fresh node is and which steps succeed there. On these rest \<open>Rpc_Properties\<close> (no effect before
  the checks, one reward per answer, the token of the status page), \<open>Rpc_Self_Forward\<close> (one request
  for another shard takes every permit), \<open>Rpc_Stale\<close> (the cached slot answer keeps the first
  request's id) and \<open>Daemon\<close>: the events of the whole process, with the mesh loop and the
  periodic tasks, no run of which calls another node or puts a receipt into a settlement. In
  \<open>Daemon\<close> a request runs to its end in one event; \<open>Rpc_Self_Forward\<close> interleaves the requests of
  a node to itself. \<open>Rpc_Routes\<close> is the table of \<open>create_rpc_router\<close>, the bodies the routes take and
  the dispatch: which requests can change the state, which pages have the security headers, and
  that the daemon's own heartbeat is a body its ingest route takes.

  Requests that overlap. \<open>Rpc_Stages\<close> cuts \<open>rpc_handler\<close> at its awaits: a request that waits is a
  \<open>task\<close> (queued, or waiting for the mesh, the verifier, the upstream node, its body), \<open>task_step\<close>
  runs it to its next wait; run without interruption the stages are \<open>rpc_handler\<close>. \<open>Rpc_Interleaving\<close>
  lets any number of them run in any order, with clients that go away, the onion route, the other
  routes, the periodic tasks and the mesh in between (\<open>node_step\<close>): permits are conserved, rewards
  are exact, and the requests that are there come to rest.

  The process. \<open>Daemon_Process\<close> puts the node into the process of \<open>main.rs\<close>: the start and its
  failures, binding, the mesh task, signals, the drain, and panics, which abort in the release
  profile of \<open>src/Cargo.toml\<close> (\<open>process_step\<close>, with the exit codes in \<open>ending\<close>). A graceful shutdown
  answers what is in flight; a clock reading older than a stored one aborts; a mesh that fails to
  start is never started again.

  The mobile library. \<open>Mobile_Governor\<close>: throttle states and policy. \<open>Relay_Client\<close>: the relay as a
  step relation in which the controls, the callers of \<open>forward_rpc\<close>, the loop and the request
  tasks interleave, with its accounts and bounds in every reachable state and the states it
  does not recover from. \<open>Mobile_Mesh\<close>: the swarm task of \<open>p2p_node.rs\<close> by phases, and the client
  of \<open>mobile_peer.rs\<close>. \<open>Mobile_Ffi\<close>: the exported functions of \<open>lib.rs\<close> and the guard of the
  session token. \<open>Mobile_Jni\<close>: the Java bridges with the C strings they free, the log callback and
  the tracing layer; a bridge call is the call of the library and leaks nothing, and the arguments
  that end the process need no token. \<open>Phone_Registration\<close> puts the client of \<open>mobile_peer.rs\<close> and the
  daemon's routes together: what a registration does on both sides.

  Termination and bounds. All loops of the model are structural recursions or have a measure, the
  tree of \<open>compute_merkle_root\<close> halves its level (\<open>Zk_Payments\<close> relates its loop to
  \<open>while_option\<close> and bounds its rounds and hashes); no fuel is used. Loops that run for ever in the
  code (the event loop, the periodic tasks, the relay loop) are given by the finite sequences
  of their steps. Hypotheses such as fewer than \<open>2 ^ 64\<close> connections state that a counter has not
  wrapped.

  Not modelled: the Solana runtime, Anchor, libp2p, axum, tokio, reqwest, serde and the JVM, which the
  sources only call; logging and banners; the mDNS build feature of the daemon's swarm; the CORS
  layer; the periods of the background tasks, which are given by the order of their steps; the
  build script, the tests and the benchmark.
\<close>

end
